(* ===== verification/Mo_Prelude.thy ===== *)
theory Mo_Prelude
  imports Main "HOL-Library.Char_ord" "HOL-Library.List_Lexorder" "HOL-Library.Code_Target_Nat"
begin

text \<open>
  What every component of the development shares: the Go standard-library behaviour the sources
  rely on (string trimming, prefixes, decimal conversion, time arithmetic that saturates at the
  64-bit range, slices used as maps), the generic lemmas about them, the collection
  \<open>go_defs\<close> of their definitions, and the two interfaces several components implement:
  a history that is appended to and trimmed to a bound, and a store whose failed operations
  leave its durable part untouched.

  A Go \<open>string\<close> is its list of bytes.  A \<open>time.Time\<close> is the number of nanoseconds
  since Go's zero time, as an \<open>int\<close>, so the zero value of a time field is \<open>0\<close>.
\<close>

named_theorems go_defs \<open>definitions of the modelled Go library functions\<close>

type_synonym time = int
type_synonym duration = int

section \<open>Durations and times\<close>

abbreviation second :: duration where "second \<equiv> 1000000000"
abbreviation minute :: duration where "minute \<equiv> 60000000000"
abbreviation hour :: duration where "hour \<equiv> 3600000000000"

definition max_int64 :: int where "max_int64 = 9223372036854775807"
definition min_int64 :: int where "min_int64 = -9223372036854775808"

text \<open>\<open>Time.Sub\<close> saturates at the range of an \<open>int64\<close>; \<open>Time.Add\<close> does not.\<close>

definition time_sub :: "time \<Rightarrow> time \<Rightarrow> duration" where
  "time_sub a b = max min_int64 (min max_int64 (a - b))"

text \<open>\<open>int64\<close> arithmetic wraps.\<close>

definition wrap64 :: "int \<Rightarrow> int" where
  "wrap64 x = (x + 9223372036854775808) mod 18446744073709551616 - 9223372036854775808"

text \<open>Go's integer division truncates towards zero.\<close>

definition go_div :: "int \<Rightarrow> int \<Rightarrow> int" where
  "go_div a b = sgn a * sgn b * (\<bar>a\<bar> div \<bar>b\<bar>)"

lemmas time_defs [go_defs] = time_sub_def wrap64_def go_div_def max_int64_def min_int64_def

lemma time_sub_less_iff:
  "min_int64 < d \<Longrightarrow> d \<le> max_int64 \<Longrightarrow> time_sub a b < d \<longleftrightarrow> a - b < d"
  by (auto simp: time_sub_def min_def max_def)

lemma time_sub_le_iff:
  "min_int64 \<le> d \<Longrightarrow> d < max_int64 \<Longrightarrow> time_sub a b \<le> d \<longleftrightarrow> a - b \<le> d"
  by (auto simp: time_sub_def min_def max_def)

lemma wrap64_id: "min_int64 \<le> x \<Longrightarrow> x \<le> max_int64 \<Longrightarrow> wrap64 x = x"
  by (simp add: wrap64_def min_int64_def max_int64_def)

section \<open>Strings\<close>

definition has_prefix :: "string \<Rightarrow> string \<Rightarrow> bool" where
  "has_prefix s p \<longleftrightarrow> take (length p) s = p"

definition trim_prefix :: "string \<Rightarrow> string \<Rightarrow> string" where
  "trim_prefix s p = (if has_prefix s p then drop (length p) s else s)"

definition has_suffix :: "string \<Rightarrow> string \<Rightarrow> bool" where
  "has_suffix s p \<longleftrightarrow> length p \<le> length s \<and> drop (length s - length p) s = p"

definition trim_suffix :: "string \<Rightarrow> string \<Rightarrow> string" where
  "trim_suffix s p = (if has_suffix s p then take (length s - length p) s else s)"

lemmas prefix_defs [go_defs] = has_prefix_def trim_prefix_def has_suffix_def trim_suffix_def

lemma has_prefix_append [simp]: "has_prefix (p @ s) p"
  by (simp add: has_prefix_def)

lemma trim_prefix_append [simp]: "trim_prefix (p @ s) p = s"
  by (simp add: trim_prefix_def)

lemma has_prefixE:
  assumes "has_prefix s p"
  obtains t where "s = p @ t"
  using assms by (metis append_take_drop_id has_prefix_def)

text \<open>
  \<open>strings.TrimSpace\<close> removes the code points of \<open>unicode.IsSpace\<close> from both ends.
  They are listed here by their UTF-8 encodings, so the function is exact on byte strings.
\<close>

definition space_encodings :: "string list" where
  "space_encodings =
     map (\<lambda>c. [c]) [CHR 0x09, CHR 0x0A, CHR 0x0B, CHR 0x0C, CHR 0x0D, CHR 0x20]
   @ [[CHR 0xC2, CHR 0x85], [CHR 0xC2, CHR 0xA0], [CHR 0xE1, CHR 0x9A, CHR 0x80]]
   @ map (\<lambda>n. [CHR 0xE2, CHR 0x80, char_of n]) [0x80 ..< 0x8B]
   @ [[CHR 0xE2, CHR 0x80, CHR 0xA8], [CHR 0xE2, CHR 0x80, CHR 0xA9],
      [CHR 0xE2, CHR 0x80, CHR 0xAF], [CHR 0xE2, CHR 0x81, CHR 0x9F],
      [CHR 0xE3, CHR 0x80, CHR 0x80]]"

fun strip_with :: "string list \<Rightarrow> string \<Rightarrow> nat \<Rightarrow> string" where
  "strip_with encs s 0 = s"
| "strip_with encs s (Suc n) =
     (case find (\<lambda>e. has_prefix s e) encs of
        None \<Rightarrow> s
      | Some e \<Rightarrow> strip_with encs (drop (length e) s) n)"

definition trim_left :: "string \<Rightarrow> string" where
  "trim_left s = strip_with space_encodings s (length s)"

definition trim_right :: "string \<Rightarrow> string" where
  "trim_right s = rev (strip_with (map rev space_encodings) (rev s) (length s))"

definition trim_space :: "string \<Rightarrow> string" where
  "trim_space s = trim_right (trim_left s)"

lemmas trim_defs [go_defs] = trim_space_def trim_left_def trim_right_def

lemma trim_space_empty [simp]: "trim_space [] = []"
  by (simp add: trim_space_def trim_left_def trim_right_def)

lemma strip_with_length: "length (strip_with encs s n) \<le> length s"
  by (induction encs s n rule: strip_with.induct) (auto split: option.splits intro: le_trans)

lemma trim_space_length: "length (trim_space s) \<le> length s"
  by (simp add: trim_space_def trim_right_def trim_left_def)
     (metis length_rev order.trans strip_with_length)

text \<open>\<open>strings.Fields\<close>: the maximal runs without white space; the fuel is the length of the string.\<close>

fun fields_from :: "nat \<Rightarrow> string \<Rightarrow> string \<Rightarrow> string list" where
  "fields_from 0 acc s = (if acc = [] then [] else [acc])"
| "fields_from (Suc n) acc s =
     (if s = [] then (if acc = [] then [] else [acc])
      else case find (\<lambda>e. has_prefix s e) space_encodings of
             Some e \<Rightarrow> (if acc = [] then [] else [acc]) @ fields_from n [] (drop (length e) s)
           | None \<Rightarrow> fields_from n (acc @ [hd s]) (tl s))"

definition fields :: "string \<Rightarrow> string list" where
  "fields s = fields_from (length s) [] s"

text \<open>\<open>strings.Join\<close>.\<close>

fun join_strings :: "string \<Rightarrow> string list \<Rightarrow> string" where
  "join_strings sep [] = []"
| "join_strings sep [x] = x"
| "join_strings sep (x # xs) = x @ sep @ join_strings sep xs"

definition squeeze_spaces :: "string \<Rightarrow> string" where
  "squeeze_spaces s = join_strings '' '' (fields s)"

lemmas fields_defs [go_defs] = fields_def squeeze_spaces_def

lemma fields_from_nonempty: "x \<in> set (fields_from n acc s) \<Longrightarrow> x \<noteq> []"
  by (induction n acc s rule: fields_from.induct) (auto split: if_splits option.splits)

text \<open>ASCII case mapping; on ASCII input it is \<open>strings.ToLower\<close> and \<open>strings.ToUpper\<close>.\<close>

definition lower_char :: "char \<Rightarrow> char" where
  "lower_char c = (if (65::nat) \<le> of_char c \<and> of_char c \<le> (90::nat) then char_of (of_char c + (32::nat)) else c)"

definition upper_char :: "char \<Rightarrow> char" where
  "upper_char c = (if (97::nat) \<le> of_char c \<and> of_char c \<le> (122::nat) then char_of (of_char c - (32::nat)) else c)"

definition to_lower :: "string \<Rightarrow> string" where "to_lower = map lower_char"
definition to_upper :: "string \<Rightarrow> string" where "to_upper = map upper_char"

lemmas case_defs [go_defs] = to_lower_def to_upper_def lower_char_def upper_char_def

section \<open>Decimal conversion\<close>

definition is_digit :: "char \<Rightarrow> bool" where
  "is_digit c \<longleftrightarrow> (48::nat) \<le> of_char c \<and> of_char c \<le> (57::nat)"

definition digit_val :: "char \<Rightarrow> nat" where
  "digit_val c = of_char c - 48"

definition digits_val :: "string \<Rightarrow> nat" where
  "digits_val s = foldl (\<lambda>n c. 10 * n + digit_val c) 0 s"

text \<open>\<open>strconv.ParseUint(s, 10, 64)\<close>: a syntax or a range error is \<open>None\<close>.\<close>

definition parse_uint :: "string \<Rightarrow> nat option" where
  "parse_uint s = (if s \<noteq> [] \<and> list_all is_digit s \<and> digits_val s < 2 ^ 64
                   then Some (digits_val s) else None)"

text \<open>\<open>strconv.Atoi\<close>: an optional sign, digits, and the range of a 64-bit \<open>int\<close>.\<close>

definition atoi :: "string \<Rightarrow> int option" where
  "atoi s =
     (let neg = has_prefix s ''-'';
          body = (if neg \<or> has_prefix s ''+'' then tl s else s);
          v = int (digits_val body);
          r = (if neg then - v else v)
      in if body \<noteq> [] \<and> list_all is_digit body \<and> min_int64 \<le> r \<and> r \<le> max_int64
         then Some r else None)"

fun show_nat :: "nat \<Rightarrow> string" where
  "show_nat n = (if n < 10 then [char_of (48 + n)]
                 else show_nat (n div 10) @ [char_of (48 + n mod 10)])"

declare show_nat.simps [simp del]

definition itoa :: "int \<Rightarrow> string" where
  "itoa i = (if i < 0 then CHR ''-'' # show_nat (nat (- i)) else show_nat (nat i))"

lemmas decimal_defs [go_defs] =
  is_digit_def digit_val_def digits_val_def parse_uint_def atoi_def itoa_def

lemma digits_val_snoc: "digits_val (s @ [c]) = 10 * digits_val s + digit_val c"
  by (simp add: digits_val_def)

lemma digit_char [simp]:
  "n < 10 \<Longrightarrow> is_digit (char_of (48 + n))"
  "n < 10 \<Longrightarrow> digit_val (char_of (48 + n)) = n"
  by (simp_all add: is_digit_def digit_val_def of_char_of)

lemma show_nat_nonempty: "show_nat n \<noteq> []"
  by (subst show_nat.simps) simp

lemma digits_val_show: "digits_val (show_nat n) = n"
proof (induction n rule: less_induct)
  case (less n)
  show ?case
  proof (cases "n < 10")
    case True
    then show ?thesis by (subst show_nat.simps) (simp add: digits_val_def)
  next
    case False
    with less.IH [of "n div 10"] have "digits_val (show_nat (n div 10)) = n div 10" by simp
    with False show ?thesis by (subst show_nat.simps) (simp add: digits_val_snoc)
  qed
qed

lemma show_nat_digits: "list_all is_digit (show_nat n)"
proof (induction n rule: less_induct)
  case (less n)
  show ?case
  proof (cases "n < 10")
    case True
    then show ?thesis by (subst show_nat.simps) simp
  next
    case False
    with less.IH [of "n div 10"] show ?thesis by (subst show_nat.simps) simp
  qed
qed

lemma atoi_itoa:
  assumes "0 \<le> i" "i \<le> max_int64"
  shows "atoi (itoa i) = Some i"
proof -
  let ?s = "show_nat (nat i)"
  obtain c t where s: "?s = c # t" using show_nat_nonempty by (cases ?s) auto
  then have "is_digit c" using show_nat_digits [of "nat i"] by simp
  then have "c \<noteq> CHR ''-''" "c \<noteq> CHR ''+''" by (auto simp: is_digit_def)
  then have "\<not> has_prefix ?s ''-''" "\<not> has_prefix ?s ''+''"
    by (auto simp: s has_prefix_def)
  with assms show ?thesis
    by (simp add: atoi_def itoa_def show_nat_nonempty show_nat_digits digits_val_show
        min_int64_def Let_def)
qed

section \<open>Slices used as tables\<close>

text \<open>The position of the first element that satisfies a predicate (the code's index loops).\<close>

fun index_of :: "('a \<Rightarrow> bool) \<Rightarrow> 'a list \<Rightarrow> nat option" where
  "index_of p [] = None"
| "index_of p (x # xs) = (if p x then Some 0 else map_option Suc (index_of p xs))"

lemma index_of_Some:
  "index_of p xs = Some i \<Longrightarrow> i < length xs \<and> p (xs ! i) \<and> (\<forall>j<i. \<not> p (xs ! j))"
  by (induction xs arbitrary: i) (auto split: if_splits simp: nth_Cons split: nat.splits)

lemma index_of_None: "index_of p xs = None \<longleftrightarrow> (\<forall>x\<in>set xs. \<not> p x)"
  by (induction xs) auto

lemma find_SomeD: "find p xs = Some x \<Longrightarrow> x \<in> set xs \<and> p x"
  by (induction xs) (auto split: if_splits)

text \<open>Update the first element that satisfies a predicate.\<close>

fun update_first :: "('a \<Rightarrow> bool) \<Rightarrow> ('a \<Rightarrow> 'a) \<Rightarrow> 'a list \<Rightarrow> 'a list" where
  "update_first p f [] = []"
| "update_first p f (x # xs) = (if p x then f x # xs else x # update_first p f xs)"

lemma length_update_first [simp]: "length (update_first p f xs) = length xs"
  by (induction xs) auto

lemma update_first_none: "\<forall>x\<in>set xs. \<not> p x \<Longrightarrow> update_first p f xs = xs"
  by (induction xs) auto

lemma set_update_first: "set (update_first p f xs) \<subseteq> set xs \<union> f ` {x \<in> set xs. p x}"
  by (induction xs) auto

lemma map_update_first: "(\<And>x. g (f x) = g x) \<Longrightarrow> map g (update_first p f xs) = map g xs"
  by (induction xs) auto

lemma nth_updated: "j < length xs \<Longrightarrow> xs[i := x] ! j = (if i = j then x else xs ! j)"
  by (cases "i = j") simp_all

text \<open>Keep the last \<open>n\<close> elements.\<close>

definition take_last :: "nat \<Rightarrow> 'a list \<Rightarrow> 'a list" where
  "take_last n xs = drop (length xs - n) xs"

lemma length_take_last [simp]: "length (take_last n xs) = min n (length xs)"
  by (simp add: take_last_def min_def)

lemma take_last_id: "length xs \<le> n \<Longrightarrow> take_last n xs = xs"
  by (simp add: take_last_def)

lemma take_last_rev: "take_last n xs = rev (take n (rev xs))"
  by (simp add: take_last_def take_rev)

lemma take_last_append: "take_last n (take_last n xs @ ys) = take_last n (xs @ ys)"
  by (simp add: take_last_rev min_def)

lemma last_take_last: "take_last n xs \<noteq> [] \<Longrightarrow> last (take_last n xs) = last xs"
  by (simp add: take_last_def)

lemma set_take_last: "set (take_last n xs) \<subseteq> set xs"
  by (simp add: take_last_def set_drop_subset)

text \<open>What a loop over a slice keeps.\<close>

lemma foldl_keeps: "P a \<Longrightarrow> (\<And>a x. P a \<Longrightarrow> P (f a x)) \<Longrightarrow> P (foldl f a xs)"
  by (induction xs arbitrary: a) simp_all

section \<open>Go maps as association lists\<close>

text \<open>Where the code counts or ranges over a map, the map is the list of its entries.\<close>

definition put :: "'k \<Rightarrow> 'v \<Rightarrow> ('k \<times> 'v) list \<Rightarrow> ('k \<times> 'v) list" where
  "put k v m = (k, v) # filter (\<lambda>x. fst x \<noteq> k) m"

definition remove_key :: "'k \<Rightarrow> ('k \<times> 'v) list \<Rightarrow> ('k \<times> 'v) list" where
  "remove_key k m = filter (\<lambda>x. fst x \<noteq> k) m"

lemma map_of_filter_key: "map_of (filter (\<lambda>x. fst x \<noteq> k) m) i = (if i = k then None else map_of m i)"
  by (induction m) auto

lemma map_of_put [simp]: "map_of (put k v m) i = (if i = k then Some v else map_of m i)"
  by (simp add: put_def map_of_filter_key)

lemma map_of_remove_key [simp]: "map_of (remove_key k m) i = (if i = k then None else map_of m i)"
  by (simp add: remove_key_def map_of_filter_key)

lemma keys_filter: "distinct (map fst m) \<Longrightarrow> distinct (map fst (filter p m))"
  by (induction m) auto

lemma keys_put: "distinct (map fst m) \<Longrightarrow> distinct (map fst (put k v m))"
  by (auto simp: put_def keys_filter)

lemma keys_remove: "distinct (map fst m) \<Longrightarrow> distinct (map fst (remove_key k m))"
  by (simp add: remove_key_def keys_filter)

lemma set_put: "set (put k v m) \<subseteq> insert (k, v) (set m)"
  by (auto simp: put_def)

lemma set_remove_key: "set (remove_key k m) \<subseteq> set m"
  by (auto simp: remove_key_def)

section \<open>Interface: a history trimmed to a bound\<close>

text \<open>
  Several components append to a slice and then drop its oldest entries.  The provider promises
  that one push of a history within the bound keeps its last \<open>cap\<close> entries; the client
  learns what any sequence of pushes retains.
\<close>

locale bounded_history =
  fixes push :: "'a list \<Rightarrow> 'a \<Rightarrow> 'a list"
    and cap :: nat
  assumes push_law: "length xs \<le> cap \<Longrightarrow> push xs x = take_last cap (xs @ [x])"
begin

lemma push_bound: "length xs \<le> cap \<Longrightarrow> length (push xs x) \<le> cap"
  by (simp add: push_law)

lemma push_newest: "length xs \<le> cap \<Longrightarrow> 0 < cap \<Longrightarrow> x \<in> set (push xs x)"
  by (simp add: push_law take_last_def Suc_diff_le)

lemma push_room: "length xs < cap \<Longrightarrow> push xs x = xs @ [x]"
  by (simp add: push_law take_last_def)

lemma push_subset: "length xs \<le> cap \<Longrightarrow> set (push xs x) \<subseteq> insert x (set xs)"
  using set_take_last [of cap "xs @ [x]"] by (auto simp: push_law)

lemma pushes_bound: "length xs \<le> cap \<Longrightarrow> length (foldl push xs ys) \<le> cap"
  by (induction ys arbitrary: xs) (simp_all add: push_bound)

lemma pushes_retain: "length xs \<le> cap \<Longrightarrow> foldl push xs ys = take_last cap (xs @ ys)"
proof (induction ys arbitrary: xs)
  case Nil
  then show ?case by (simp add: take_last_id)
next
  case (Cons y ys)
  then have "foldl push xs (y # ys) = take_last cap (take_last cap (xs @ [y]) @ ys)"
    by (simp add: push_law)
  also have "\<dots> = take_last cap (xs @ y # ys)"
    using take_last_append [of cap "xs @ [y]" ys] by simp
  finally show ?case .
qed

end

section \<open>Interface: operations that fail atomically\<close>

text \<open>
  The stores of the program copy their state, change the copy, and install it only after it was
  written.  The contract: an operation that reports an error leaves the durable part as it was,
  and every operation keeps the well-formedness invariant.  The client runs whole sequences.
\<close>

fun run_all :: "('r \<Rightarrow> 's \<Rightarrow> 'x \<times> 's) \<Rightarrow> 'r list \<Rightarrow> 's \<Rightarrow> 'x list \<times> 's" where
  "run_all step [] s = ([], s)"
| "run_all step (r # rs) s =
     (let (x, s1) = step r s; (xs, s2) = run_all step rs s1 in (x # xs, s2))"

locale atomic_store =
  fixes step :: "'r \<Rightarrow> 's \<Rightarrow> ('e + 'a) \<times> 's"
    and durable :: "'s \<Rightarrow> 'd"
    and good :: "'s \<Rightarrow> bool"
  assumes failed_step: "step r s = (Inl e, t) \<Longrightarrow> durable t = durable s"
    and good_step: "good s \<Longrightarrow> good (snd (step r s))"
begin

lemma good_run: "good s \<Longrightarrow> good (snd (run_all step rs s))"
proof (induction rs arbitrary: s)
  case (Cons r rs)
  from good_step [OF Cons.prems] have "good (snd (run_all step rs (snd (step r s))))"
    by (rule Cons.IH)
  then show ?case by (simp add: split_beta Let_def)
qed simp

lemma failed_run:
  "list_all (\<lambda>x. \<exists>e. x = Inl e) (fst (run_all step rs s)) \<Longrightarrow>
   durable (snd (run_all step rs s)) = durable s"
proof (induction rs arbitrary: s)
  case (Cons r rs)
  obtain x t where st: "step r s = (x, t)" by (cases "step r s")
  with Cons.prems obtain e where "x = Inl e"
    by (auto simp: split_beta Let_def)
  with st failed_step have "durable t = durable s" by simp
  moreover have "durable (snd (run_all step rs t)) = durable t"
    using Cons.prems st by (intro Cons.IH) (simp add: split_beta Let_def)
  ultimately show ?case using st by (simp add: split_beta Let_def)
qed simp

end

section \<open>Interface: an implementation that follows a specification\<close>

text \<open>
  The provider proves one step: an operation on a well-formed state gives the answer of the
  specification on the abstraction of the state.  The client gets it for every sequence.
\<close>

locale implementation =
  fixes cstep :: "'r \<Rightarrow> 's \<Rightarrow> 'x \<times> 's"
    and astep :: "'r \<Rightarrow> 'a \<Rightarrow> 'x \<times> 'a"
    and abs :: "'s \<Rightarrow> 'a"
    and good :: "'s \<Rightarrow> bool"
  assumes good_step: "good s \<Longrightarrow> good (snd (cstep r s))"
    and step_sim: "good s \<Longrightarrow> astep r (abs s) = (fst (cstep r s), abs (snd (cstep r s)))"
begin

lemma good_run: "good s \<Longrightarrow> good (snd (run_all cstep rs s))"
proof (induction rs arbitrary: s)
  case (Cons r rs)
  from good_step [OF Cons.prems] have "good (snd (run_all cstep rs (snd (cstep r s))))"
    by (rule Cons.IH)
  then show ?case by (simp add: split_beta Let_def)
qed simp

lemma run_sim:
  "good s \<Longrightarrow> run_all astep rs (abs s) = (fst (run_all cstep rs s), abs (snd (run_all cstep rs s)))"
proof (induction rs arbitrary: s)
  case (Cons r rs)
  from good_step [OF Cons.prems]
  have "run_all astep rs (abs (snd (cstep r s))) = (fst (run_all cstep rs (snd (cstep r s))),
      abs (snd (run_all cstep rs (snd (cstep r s)))))" by (rule Cons.IH)
  then show ?case by (simp add: step_sim [OF Cons.prems] split_beta Let_def)
qed simp

end

end
