(* ===== verification/Rate_Limit.thy ===== *)
theory Rate_Limit
  imports Mo_Prelude
begin

text \<open>
  The shared host cooldowns of the research broker, \<^verbatim>\<open>internal/research/rate_limit.go\<close>:
  one \<open>hostRateLimit\<close> per host (its gate, its consecutive failures, the time before which
  no request may be sent), the \<open>Retry-After\<close> computation, and \<open>RoundTrip\<close>, split at
  the points where it gives up the processor: \<open>admit\<close> before the request is sent and
  \<open>settle\<close> when the transport returns.  A step relation interleaves the round trips of any
  number of callers.  The transport, the clock and the random jitter are inputs of the steps;
  \<open>http.ParseTime\<close> is the parameter \<open>parse_http_time\<close>.
\<close>

section \<open>State and constants\<close>

definition rateLimitBackoff :: duration where "rateLimitBackoff = 30 * second"
definition rateLimitFailures :: int where "rateLimitFailures = 3"
definition rateLimitPause :: duration where "rateLimitPause = 5 * minute"

lemmas rate_consts = rateLimitBackoff_def rateLimitFailures_def rateLimitPause_def

record host_rate_limit =
  gate :: bool
  failures :: int
  retry_at :: time

type_synonym rate_limits = "string \<Rightarrow> host_rate_limit option"

record rate_limit_error =
  err_host :: string
  err_retry_at :: time
  err_exhausted :: bool
  err_suppressed :: bool

definition new_host :: host_rate_limit where
  "new_host = \<lparr>gate = False, failures = 0, retry_at = 0\<rparr>"

text \<open>\<open>rateLimits.host\<close>: the state of a host, created on first use.\<close>

definition host :: "rate_limits \<Rightarrow> string \<Rightarrow> host_rate_limit" where
  "host l name = (case l name of None \<Rightarrow> new_host | Some st \<Rightarrow> st)"

definition host_name :: "string \<Rightarrow> string" where
  "host_name url_host = to_lower (trim_suffix url_host ''.'')"

section \<open>The Retry-After deadline\<close>

text \<open>9999-12-31T23:59:59 UTC.\<close>

definition far_future :: time where
  "far_future = 315537897599 * second"

definition retry_after :: "(string \<Rightarrow> time option) \<Rightarrow> string \<Rightarrow> time \<Rightarrow> duration \<Rightarrow> time" where
  "retry_after parse_http_time hdr now minimum =
     (let retryAt = now + minimum; v = trim_space hdr
      in if v = [] then retryAt
         else if list_all is_digit v then
           (case parse_uint v of
              None \<Rightarrow> far_future
            | Some seconds \<Rightarrow>
                if int seconds > max_int64 div second then far_future
                else let candidate = now + int seconds * second
                     in if candidate > retryAt then candidate else retryAt)
         else (case parse_http_time v of
                 None \<Rightarrow> retryAt
               | Some candidate \<Rightarrow> if candidate > retryAt then candidate else retryAt))"

section \<open>The round trip\<close>

datatype response = TransportError | Response int string

datatype outcome = Failed | Passed int | Limited rate_limit_error

text \<open>Before sending: an active cooldown suppresses the request.\<close>

definition admit :: "string \<Rightarrow> time \<Rightarrow> host_rate_limit \<Rightarrow> rate_limit_error option" where
  "admit h now st =
     (if now < retry_at st
      then Some \<lparr>err_host = h, err_retry_at = retry_at st,
                 err_exhausted = failures st \<ge> rateLimitFailures, err_suppressed = True\<rparr>
      else None)"

definition backoff :: "int \<Rightarrow> duration" where
  "backoff n = (if n \<ge> rateLimitFailures then rateLimitPause
                else push_bit (nat (n - 1)) rateLimitBackoff)"

text \<open>After the transport returned: \<open>now\<close> is read a second time, \<open>jitter\<close> is the
  random value below five seconds.\<close>

definition settle ::
  "(string \<Rightarrow> time option) \<Rightarrow> string \<Rightarrow> time \<Rightarrow> duration \<Rightarrow> response \<Rightarrow> host_rate_limit \<Rightarrow>
   outcome \<times> host_rate_limit" where
  "settle parse_http_time h now jitter resp st =
     (case resp of
        TransportError \<Rightarrow> (Failed, st)
      | Response status header \<Rightarrow>
          if status \<noteq> 429 then
            (Passed status,
             if 200 \<le> status \<and> status < 400 then st\<lparr>failures := 0, retry_at := 0\<rparr> else st)
          else
            let n = min (failures st + 1) rateLimitFailures;
                r = retry_after parse_http_time header now (backoff n + jitter)
            in (Limited \<lparr>err_host = h, err_retry_at = r, err_exhausted = n \<ge> rateLimitFailures,
                         err_suppressed = False\<rparr>,
                st\<lparr>failures := n, retry_at := r\<rparr>))"

text \<open>One whole call of \<open>RoundTrip\<close> that the gate admits at once.\<close>

definition round_trip ::
  "(string \<Rightarrow> time option) \<Rightarrow> string \<Rightarrow> time \<Rightarrow> response \<Rightarrow> time \<Rightarrow> duration \<Rightarrow> rate_limits \<Rightarrow>
   outcome \<times> rate_limits" where
  "round_trip parse_http_time url_host now resp now2 jitter l =
     (let h = host_name url_host; st = host l h
      in case admit h now st of
           Some e \<Rightarrow> (Limited e, l(h \<mapsto> st))
         | None \<Rightarrow> (let (out, st') = settle parse_http_time h now2 jitter resp st
                   in (out, l(h \<mapsto> st'))))"

section \<open>Interleaved callers\<close>

datatype rl_event =
    Sent string time
  | Suppressed string time
  | Cooled string time
  | Cleared string
  | Ended string

record rl_system =
  limits :: rate_limits
  trace :: "rl_event list"

definition take_gate :: "bool \<Rightarrow> string \<Rightarrow> rate_limits \<Rightarrow> rate_limits" where
  "take_gate b h l = l(h \<mapsto> (host l h)\<lparr>gate := b\<rparr>)"

text \<open>What a finished round trip adds to the trace.\<close>

definition outcome_event :: "string \<Rightarrow> outcome \<Rightarrow> rl_event" where
  "outcome_event h out =
     (case out of
        Failed \<Rightarrow> Ended h
      | Passed status \<Rightarrow> if 200 \<le> status \<and> status < 400 then Cleared h else Ended h
      | Limited e \<Rightarrow> Cooled h (err_retry_at e))"

text \<open>
  A caller enters when the gate of its host is free.  It is suppressed at once, or its request is
  sent and the gate stays taken until the transport has returned.
\<close>

inductive rl_step :: "(string \<Rightarrow> time option) \<Rightarrow> rl_system \<Rightarrow> rl_system \<Rightarrow> bool"
  for parse_http_time :: "string \<Rightarrow> time option" where
  suppress: "\<not> gate (host (limits s) h) \<Longrightarrow> admit h now (host (limits s) h) = Some e \<Longrightarrow>
     rl_step parse_http_time s
       (s\<lparr>limits := take_gate False h (limits s), trace := trace s @ [Suppressed h now]\<rparr>)"
| send: "\<not> gate (host (limits s) h) \<Longrightarrow> admit h now (host (limits s) h) = None \<Longrightarrow>
     rl_step parse_http_time s
       (s\<lparr>limits := take_gate True h (limits s), trace := trace s @ [Sent h now]\<rparr>)"
| finish: "gate (host (limits s) h) \<Longrightarrow> 0 \<le> jitter \<Longrightarrow> jitter < 5 * second \<Longrightarrow>
     settle parse_http_time h now jitter resp (host (limits s) h) = (out, st) \<Longrightarrow>
     rl_step parse_http_time s
       (s\<lparr>limits := (limits s)(h \<mapsto> st\<lparr>gate := False\<rparr>), trace := trace s @ [outcome_event h out]\<rparr>)"

inductive rl_reachable :: "(string \<Rightarrow> time option) \<Rightarrow> rl_system \<Rightarrow> bool"
  for parse_http_time :: "string \<Rightarrow> time option" where
  rl_start: "rl_reachable parse_http_time \<lparr>limits = Map.empty, trace = []\<rparr>"
| rl_next: "rl_reachable parse_http_time s \<Longrightarrow> rl_step parse_http_time s t \<Longrightarrow>
     rl_reachable parse_http_time t"

inductive_cases rl_stepE: "rl_step p s t"

text \<open>
  The abstract history of one host: the deadline its last unanswered 429 set, and whether a
  request is in flight.
\<close>

fun cooldown_step :: "string \<Rightarrow> time \<Rightarrow> rl_event \<Rightarrow> time" where
  "cooldown_step h d (Cooled k r) = (if k = h then r else d)"
| "cooldown_step h d (Cleared k) = (if k = h then 0 else d)"
| "cooldown_step h d _ = d"

definition cooldown :: "string \<Rightarrow> rl_event list \<Rightarrow> time" where
  "cooldown h evs = foldl (cooldown_step h) 0 evs"

fun flight_step :: "string \<Rightarrow> bool \<Rightarrow> rl_event \<Rightarrow> bool" where
  "flight_step h b (Sent k t) = (if k = h then True else b)"
| "flight_step h b (Suppressed k t) = b"
| "flight_step h b (Cooled k t) = (if k = h then False else b)"
| "flight_step h b (Cleared k) = (if k = h then False else b)"
| "flight_step h b (Ended k) = (if k = h then False else b)"

definition in_flight :: "string \<Rightarrow> rl_event list \<Rightarrow> bool" where
  "in_flight h evs = foldl (flight_step h) False evs"

text \<open>Every request of the trace went out after its host's deadline and with no other one open.\<close>

definition disciplined :: "rl_event list \<Rightarrow> bool" where
  "disciplined evs \<longleftrightarrow>
     (\<forall>xs h t ys. evs = xs @ Sent h t # ys \<longrightarrow> cooldown h xs \<le> t \<and> \<not> in_flight h xs)"

section \<open>Lemmas\<close>

lemma cooldown_snoc [simp]: "cooldown h (evs @ [e]) = cooldown_step h (cooldown h evs) e"
  by (simp add: cooldown_def)

lemma in_flight_snoc [simp]: "in_flight h (evs @ [e]) = flight_step h (in_flight h evs) e"
  by (simp add: in_flight_def)

lemma host_upd [simp]: "host (l(h \<mapsto> st)) k = (if k = h then st else host l k)"
  by (simp add: host_def)

lemma host_take_gate [simp]:
  "host (take_gate b h l) k = (if k = h then (host l h)\<lparr>gate := b\<rparr> else host l k)"
  by (simp add: take_gate_def)

lemma disciplined_Nil: "disciplined []"
  by (simp add: disciplined_def)

lemma disciplined_snoc:
  assumes "disciplined evs" and "\<And>h t. e = Sent h t \<Longrightarrow> cooldown h evs \<le> t \<and> \<not> in_flight h evs"
  shows "disciplined (evs @ [e])"
  unfolding disciplined_def
proof (intro allI impI)
  fix xs h t ys
  assume eq: "evs @ [e] = xs @ Sent h t # ys"
  show "cooldown h xs \<le> t \<and> \<not> in_flight h xs"
  proof (cases ys rule: rev_cases)
    case Nil
    with eq assms(2) show ?thesis by simp
  next
    case (snoc zs z)
    with eq have "evs = xs @ Sent h t # zs" by (metis append_Cons append_assoc butlast_snoc)
    with assms(1) show ?thesis unfolding disciplined_def by blast
  qed
qed

text \<open>The invariant: each host's record is what its history says, and the trace is disciplined.\<close>

definition rl_inv :: "rl_system \<Rightarrow> bool" where
  "rl_inv s \<longleftrightarrow>
     (\<forall>h. retry_at (host (limits s) h) = cooldown h (trace s)
        \<and> gate (host (limits s) h) = in_flight h (trace s)
        \<and> 0 \<le> failures (host (limits s) h) \<and> failures (host (limits s) h) \<le> rateLimitFailures)
     \<and> disciplined (trace s)"

lemma settle_facts:
  assumes "settle p h now jitter resp st = (out, st')"
    and "0 \<le> failures st" "failures st \<le> rateLimitFailures"
  shows "cooldown_step h (retry_at st) (outcome_event h out) = retry_at st'"
    and "k \<noteq> h \<Longrightarrow> cooldown_step k d (outcome_event h out) = d"
    and "flight_step h b (outcome_event h out) = False"
    and "k \<noteq> h \<Longrightarrow> flight_step k b (outcome_event h out) = b"
    and "\<exists>e. outcome_event h out = e \<and> (\<forall>k t. e \<noteq> Sent k t)"
    and "0 \<le> failures st' \<and> failures st' \<le> rateLimitFailures"
  using assms
  by (auto simp: settle_def outcome_event_def Let_def rate_consts
      split: response.splits if_splits)

lemma rl_step_inv:
  assumes "rl_step p s t" "rl_inv s"
  shows "rl_inv t"
  using assms(1)
proof cases
  case (suppress h now e)
  have "disciplined (trace s @ [Suppressed h now])"
    using assms(2) by (intro disciplined_snoc) (auto simp: rl_inv_def)
  with suppress assms(2) show ?thesis by (auto simp: rl_inv_def)
next
  case (send h now)
  then have "retry_at (host (limits s) h) \<le> now"
    by (simp add: admit_def split: if_splits)
  with send(2) assms(2) have "disciplined (trace s @ [Sent h now])"
    by (intro disciplined_snoc) (auto simp: rl_inv_def)
  with send assms(2) show ?thesis by (auto simp: rl_inv_def)
next
  case (finish h jitter now resp out st)
  note inv = assms(2) [unfolded rl_inv_def]
  have f: "0 \<le> failures (host (limits s) h)" "failures (host (limits s) h) \<le> rateLimitFailures"
    using inv by auto
  note facts = settle_facts [OF finish(5) f]
  have "disciplined (trace s @ [outcome_event h out])"
    using inv facts(5) by (intro disciplined_snoc) auto
  with finish(1) inv facts show ?thesis by (simp add: rl_inv_def)
qed

lemma rl_reachable_inv: "rl_reachable p s \<Longrightarrow> rl_inv s"
proof (induction rule: rl_reachable.induct)
  case rl_start
  show ?case
    by (simp add: rl_inv_def host_def new_host_def cooldown_def in_flight_def disciplined_Nil
        rate_consts)
next
  case (rl_next s t)
  then show ?case by (blast intro: rl_step_inv)
qed

lemma retry_after_not_before:
  assumes "now + minimum \<le> far_future"
  shows "now + minimum \<le> retry_after p hdr now minimum"
  using assms by (simp add: retry_after_def Let_def split: option.splits)

lemma backoff_bounds: "1 \<le> n \<Longrightarrow> rateLimitBackoff \<le> backoff n \<and> backoff n \<le> rateLimitPause"
proof -
  assume "1 \<le> n"
  then consider "n = 1" | "n = 2" | "n \<ge> 3" by linarith
  then show ?thesis
    by cases (simp_all add: backoff_def rate_consts push_bit_eq_mult)
qed

lemma settle_limited:
  assumes "settle p h now jitter (Response 429 hdr) st = (out, st')"
    and "0 \<le> failures st" "failures st \<le> rateLimitFailures" "0 \<le> jitter"
    and "now + rateLimitPause + jitter \<le> far_future"
  shows "failures st' = min (failures st + 1) rateLimitFailures"
    and "now + backoff (failures st') + jitter \<le> retry_at st'"
    and "out = Limited \<lparr>err_host = h, err_retry_at = retry_at st',
           err_exhausted = failures st' \<ge> rateLimitFailures, err_suppressed = False\<rparr>"
proof -
  let ?n = "min (failures st + 1) rateLimitFailures"
  have "1 \<le> ?n" using assms(2) by (simp add: rate_consts)
  then have "now + (backoff ?n + jitter) \<le> far_future"
    using backoff_bounds [of ?n] assms(5) by simp
  from retry_after_not_before [OF this, of p hdr] assms(1)
  show "failures st' = ?n" "now + backoff (failures st') + jitter \<le> retry_at st'"
    "out = Limited \<lparr>err_host = h, err_retry_at = retry_at st',
       err_exhausted = failures st' \<ge> rateLimitFailures, err_suppressed = False\<rparr>"
    by (auto simp: settle_def Let_def add.assoc)
qed

section \<open>Properties\<close>

text \<open>
  C33. However the callers interleave, a request for a host is sent only at or after the deadline
  its last unanswered 429 set, and never while another request for that host is in flight: the
  shared cooldown is not bypassed, and one recovery probe at a time is out.
\<close>

theorem cooldown_respected:
  assumes "rl_reachable parse_http_time s"
    and "trace s = xs @ Sent h t # ys"
  shows "cooldown h xs \<le> t \<and> \<not> in_flight h xs"
  using rl_reachable_inv [OF assms(1)] assms(2) by (auto simp: rl_inv_def disciplined_def)

theorem cooldown_respected_witness:
  "\<exists>s. rl_reachable (\<lambda>_. None) s \<and>
     trace s = [Sent ''a'' 7, Cooled ''a'' 30000000010] @ Sent ''a'' 30000000010 # [] \<and>
     cooldown ''a'' [Sent ''a'' 7, Cooled ''a'' 30000000010] \<le> 30000000010"
proof -
  let ?p = "\<lambda>_::string. None :: time option"
  let ?h = "''a''"
  let ?s0 = "\<lparr>limits = Map.empty, trace = []\<rparr>"
  let ?s1 = "?s0\<lparr>limits := take_gate True ?h (limits ?s0), trace := trace ?s0 @ [Sent ?h 7]\<rparr>"
  let ?c = "\<lparr>gate = True, failures = 1, retry_at = 30000000010\<rparr>"
  let ?e = "Limited \<lparr>err_host = ?h, err_retry_at = 30000000010, err_exhausted = False,
              err_suppressed = False\<rparr>"
  let ?s2 = "?s1\<lparr>limits := (limits ?s1)(?h \<mapsto> ?c\<lparr>gate := False\<rparr>),
                 trace := trace ?s1 @ [outcome_event ?h ?e]\<rparr>"
  let ?s3 = "?s2\<lparr>limits := take_gate True ?h (limits ?s2),
                 trace := trace ?s2 @ [Sent ?h 30000000010]\<rparr>"
  have r0: "rl_reachable ?p ?s0" by (rule rl_start)
  have r1: "rl_reachable ?p ?s1"
    by (rule rl_next [OF r0], rule rl_step.send) (simp_all add: host_def new_host_def admit_def)
  have settled: "settle ?p ?h 10 0 (Response 429 []) (host (limits ?s1) ?h) = (?e, ?c)"
    by (simp add: settle_def host_def new_host_def take_gate_def backoff_def rate_consts
        retry_after_def Let_def push_bit_eq_mult)
  have r2: "rl_reachable ?p ?s2"
    by (rule rl_next [OF r1], rule rl_step.finish [OF _ _ _ settled])
       (simp_all add: host_def new_host_def take_gate_def)
  have r3: "rl_reachable ?p ?s3"
    by (rule rl_next [OF r2], rule rl_step.send) (simp_all add: host_def admit_def)
  have tr: "trace ?s3 = [Sent ?h 7, Cooled ?h 30000000010] @ Sent ?h 30000000010 # []"
    by (simp add: outcome_event_def)
  from cooldown_respected [OF r3 tr] r3 tr show ?thesis by blast
qed

text \<open>
  A 429 always opens a cooldown: whatever the \<open>Retry-After\<close> header says (absent,
  malformed, in the past, zero, or a number whose nanoseconds overflow 64 bits), the new deadline
  is at least the back-off of the consecutive failure count (30s, 60s, then 5 minutes) plus the
  jitter after the response, and from the third failure on the error reports exhausted retries.
\<close>

theorem rate_limited_backs_off:
  assumes "settle p h now jitter (Response 429 hdr) st = (out, st')"
    and "0 \<le> failures st" "failures st \<le> rateLimitFailures" "0 \<le> jitter"
    and "now + rateLimitPause + jitter \<le> far_future"
  shows "failures st' = min (failures st + 1) 3
     \<and> now + backoff (failures st') + jitter \<le> retry_at st'
     \<and> 30 * second \<le> backoff (failures st')
     \<and> (2 \<le> failures st \<longrightarrow> backoff (failures st') = 5 * minute)
     \<and> (\<exists>e. out = Limited e \<and> err_retry_at e = retry_at st' \<and>
            err_exhausted e = (failures st' = 3))"
proof -
  note f = settle_limited [OF assms]
  have "1 \<le> failures st'" "failures st' \<le> 3" using f(1) assms(2) by (auto simp: rate_consts)
  moreover from this have "30 * second \<le> backoff (failures st')"
    using backoff_bounds [of "failures st'"] by (simp add: rate_consts)
  moreover have "2 \<le> failures st \<Longrightarrow> backoff (failures st') = 5 * minute"
    using f(1) by (simp add: backoff_def rate_consts)
  ultimately show ?thesis using f by (auto simp: rate_consts min_def)
qed

theorem rate_limited_backs_off_witness:
  "failures (snd (settle (\<lambda>_. None) ''h'' 5 1 (Response 429 ''99999999999999999999'')
      \<lparr>gate = True, failures = 2, retry_at = 0\<rparr>)) = 3"
proof -
  let ?st = "\<lparr>gate = True, failures = 2, retry_at = 0\<rparr>"
  obtain out st' where
    eq: "settle (\<lambda>_. None) ''h'' 5 1 (Response 429 ''99999999999999999999'') ?st = (out, st')"
    by (cases "settle (\<lambda>_. None) ''h'' 5 1 (Response 429 ''99999999999999999999'') ?st")
  from rate_limited_backs_off [OF eq] eq show ?thesis
    by (simp add: rate_consts far_future_def)
qed

end
