(* ===== verification/Participants.thy ===== *)
theory Participants
  imports Mo_Prelude "HOL-Library.Product_Lexorder" "HOL-Library.Multiset"
begin

text \<open>
  Room identities and the core policy, \<^verbatim>\<open>internal/chat/types.go\<close>: a participant is a
  string; the four providers are the primary agents, \<open>codex-1\<close>, \<open>claude-2\<close>, \dots are
  auxiliaries of a provider.  \<open>CorePolicy\<close> names the preferred and the fallback core peers;
  \<open>WithDefaults\<close> repairs any policy and \<open>Validate\<close> refuses a bad one.
\<close>

section \<open>Identities\<close>

type_synonym participant = string

abbreviation User :: participant where "User \<equiv> ''user''"
abbreviation Codex :: participant where "Codex \<equiv> ''codex''"
abbreviation Claude :: participant where "Claude \<equiv> ''claude''"
abbreviation Agy :: participant where "Agy \<equiv> ''agy''"
abbreviation Copilot :: participant where "Copilot \<equiv> ''copilot''"
abbreviation ChatGPT :: participant where "ChatGPT \<equiv> ''chatgpt''"
abbreviation System :: participant where "System \<equiv> ''system''"

definition agent_order :: "participant list" where
  "agent_order = [Codex, Claude, Agy, Copilot]"

definition default_agents :: "participant list" where
  "default_agents = [Codex, Claude]"

text \<open>The test of the loop in \<open>Provider\<close>: prefix, decimal index, canonical spelling.\<close>

definition auxiliary_of :: "participant \<Rightarrow> participant \<Rightarrow> bool" where
  "auxiliary_of p pr \<longleftrightarrow> has_prefix p (pr @ ''-'') \<and>
     (case atoi (trim_prefix p (pr @ ''-'')) of
        None \<Rightarrow> False
      | Some index \<Rightarrow> index > 0 \<and> itoa index = trim_prefix p (pr @ ''-''))"

definition provider :: "participant \<Rightarrow> participant" where
  "provider p =
     (if p \<in> set agent_order then p
      else case find (auxiliary_of p) agent_order of None \<Rightarrow> '''' | Some pr \<Rightarrow> pr)"

definition valid_agent :: "participant \<Rightarrow> bool" where
  "valid_agent p \<longleftrightarrow> provider p \<noteq> ''''"

definition is_primary_agent :: "participant \<Rightarrow> bool" where
  "is_primary_agent p \<longleftrightarrow> valid_agent p \<and> provider p = p"

definition is_auxiliary :: "participant \<Rightarrow> bool" where
  "is_auxiliary p \<longleftrightarrow> valid_agent p \<and> \<not> is_primary_agent p"

definition auxiliary_index :: "participant \<Rightarrow> int" where
  "auxiliary_index p =
     (if \<not> is_auxiliary p then 0
      else case atoi (trim_prefix p (provider p @ ''-'')) of None \<Rightarrow> 0 | Some i \<Rightarrow> i)"

definition auxiliary_participant :: "participant \<Rightarrow> int \<Rightarrow> participant option" where
  "auxiliary_participant pr index =
     (if \<not> is_primary_agent pr \<or> index < 1 then None else Some (pr @ ''-'' @ itoa index))"

section \<open>The canonical order\<close>

text \<open>The position of a provider in \<open>agentOrder\<close>; the zero of a missing map key otherwise.\<close>

definition provider_order :: "participant \<Rightarrow> nat" where
  "provider_order p = (case index_of (\<lambda>q. q = p) agent_order of None \<Rightarrow> 0 | Some i \<Rightarrow> i)"

definition participant_key :: "participant \<Rightarrow> nat \<times> int \<times> string" where
  "participant_key p = (provider_order (provider p), auxiliary_index p, p)"

definition ordered_participants :: "participant list \<Rightarrow> participant list" where
  "ordered_participants values = sort_key participant_key values"

section \<open>Permissions\<close>

abbreviation PermissionReadOnly :: string where "PermissionReadOnly \<equiv> ''read-only''"
abbreviation PermissionWorkspace :: string where "PermissionWorkspace \<equiv> ''workspace''"
abbreviation PermissionFull :: string where "PermissionFull \<equiv> ''full''"

definition valid_permission :: "string \<Rightarrow> bool" where
  "valid_permission p \<longleftrightarrow> p = PermissionReadOnly \<or> p = PermissionWorkspace \<or> p = PermissionFull"

definition default_permissions :: "participant \<Rightarrow> string" where
  "default_permissions p =
     (if is_auxiliary p \<or> provider p = Agy \<or> provider p = Copilot
      then PermissionReadOnly else PermissionWorkspace)"

section \<open>The core policy\<close>

abbreviation CoreFailoverOff :: string where "CoreFailoverOff \<equiv> ''off''"
abbreviation CoreFailoverPrompt :: string where "CoreFailoverPrompt \<equiv> ''prompt''"
abbreviation CoreFailoverAuto :: string where "CoreFailoverAuto \<equiv> ''auto''"
abbreviation CoreRestoreManual :: string where "CoreRestoreManual \<equiv> ''manual''"
abbreviation CoreRestorePrompt :: string where "CoreRestorePrompt \<equiv> ''prompt''"
abbreviation CoreRestoreAuto :: string where "CoreRestoreAuto \<equiv> ''auto''"

definition valid_failover :: "string \<Rightarrow> bool" where
  "valid_failover m \<longleftrightarrow> m = CoreFailoverOff \<or> m = CoreFailoverPrompt \<or> m = CoreFailoverAuto"

definition valid_restore :: "string \<Rightarrow> bool" where
  "valid_restore m \<longleftrightarrow> m = CoreRestoreManual \<or> m = CoreRestorePrompt \<or> m = CoreRestoreAuto"

text \<open>\<open>Fallbacks\<close> is an option because the code tells a nil slice from an empty one.\<close>

record core_policy =
  preferred :: "participant list"
  fallbacks :: "participant list option"
  failover :: string
  restore :: string

definition built_in_core_policy :: core_policy where
  "built_in_core_policy =
     \<lparr>preferred = [Codex, Claude], fallbacks = Some [Agy, Copilot],
      failover = CoreFailoverAuto, restore = CoreRestoreAuto\<rparr>"

definition slice :: "'a list option \<Rightarrow> 'a list" where
  "slice xs = (case xs of None \<Rightarrow> [] | Some ys \<Rightarrow> ys)"

fun unique_valid :: "participant list \<Rightarrow> participant set \<Rightarrow> participant set \<Rightarrow> participant list" where
  "unique_valid [] seen excluded = []"
| "unique_valid (p # ps) seen excluded =
     (if \<not> is_primary_agent p \<or> p \<in> seen \<or> p \<in> excluded then unique_valid ps seen excluded
      else p # unique_valid ps (insert p seen) excluded)"

definition unique_valid_participants :: "participant list \<Rightarrow> participant set \<Rightarrow> participant list" where
  "unique_valid_participants values excluded = unique_valid values {} excluded"

definition fill_preferred :: "core_policy \<Rightarrow> core_policy" where
  "fill_preferred p =
     (if preferred p = []
      then p\<lparr>preferred := preferred built_in_core_policy,
             fallbacks := (if fallbacks p = None then fallbacks built_in_core_policy
                           else fallbacks p)\<rparr>
      else p)"

definition with_defaults :: "core_policy \<Rightarrow> core_policy" where
  "with_defaults p0 =
     (let p1 = fill_preferred p0;
          p2 = fill_preferred (p1\<lparr>preferred := unique_valid_participants (preferred p1) {}\<rparr>);
          p3 = p2\<lparr>fallbacks := Some (unique_valid_participants (slice (fallbacks p2))
                                       (set (preferred p2)))\<rparr>;
          p4 = (if valid_failover (failover p3) then p3
                else p3\<lparr>failover := failover built_in_core_policy\<rparr>)
      in if valid_restore (restore p4) then p4
         else p4\<lparr>restore := restore built_in_core_policy\<rparr>)"

datatype policy_error =
    NoPreferred
  | InvalidFailover string
  | InvalidRestore string
  | InvalidPreferred participant
  | RepeatedPreferred participant
  | InvalidFallback participant
  | RepeatedFallback participant string

fun validate_preferred :: "participant list \<Rightarrow> (participant \<Rightarrow> string option) \<Rightarrow>
    policy_error + (participant \<Rightarrow> string option)" where
  "validate_preferred [] seen = Inr seen"
| "validate_preferred (p # ps) seen =
     (if \<not> is_primary_agent p then Inl (InvalidPreferred p)
      else if seen p \<noteq> None then Inl (RepeatedPreferred p)
      else validate_preferred ps (seen(p \<mapsto> ''preferred'')))"

fun validate_fallbacks :: "participant list \<Rightarrow> (participant \<Rightarrow> string option) \<Rightarrow>
    policy_error option" where
  "validate_fallbacks [] seen = None"
| "validate_fallbacks (p # ps) seen =
     (if \<not> is_primary_agent p then Some (InvalidFallback p)
      else case seen p of
             Some prior \<Rightarrow> Some (RepeatedFallback p prior)
           | None \<Rightarrow> validate_fallbacks ps (seen(p \<mapsto> ''fallback'')))"

definition validate_policy :: "core_policy \<Rightarrow> policy_error option" where
  "validate_policy p =
     (if preferred p = [] then Some NoPreferred
      else if \<not> valid_failover (failover p) then Some (InvalidFailover (failover p))
      else if \<not> valid_restore (restore p) then Some (InvalidRestore (restore p))
      else case validate_preferred (preferred p) Map.empty of
             Inl e \<Rightarrow> Some e
           | Inr seen \<Rightarrow> validate_fallbacks (slice (fallbacks p)) seen)"

section \<open>Lemmas on identities\<close>

lemma agent_order_primary: "p \<in> set agent_order \<Longrightarrow> provider p = p \<and> valid_agent p"
  by (auto simp: agent_order_def provider_def valid_agent_def)

lemma provider_cases: "provider p = '''' \<or> provider p \<in> set agent_order"
  by (auto simp: provider_def find_Some_iff split: option.splits)

lemma is_primary_agent_iff: "is_primary_agent p \<longleftrightarrow> p \<in> set agent_order"
  using provider_cases [of p] agent_order_primary [of p]
  by (auto simp: is_primary_agent_def valid_agent_def)

lemma provider_primary: "valid_agent p \<Longrightarrow> is_primary_agent (provider p)"
  using provider_cases [of p] by (auto simp: is_primary_agent_iff valid_agent_def)

lemma is_primary_simps [simp]:
  "is_primary_agent Codex" "is_primary_agent Claude" "is_primary_agent Agy"
  "is_primary_agent Copilot" "\<not> is_primary_agent ''''"
  by (simp_all add: is_primary_agent_iff agent_order_def)

lemma primary_valid: "is_primary_agent p \<Longrightarrow> valid_agent p"
  by (simp add: is_primary_agent_def)

text \<open>No provider name followed by a dash is a prefix of another's.\<close>

lemma aux_prefix_unique:
  assumes "pr \<in> set agent_order" "q \<in> set agent_order" "has_prefix (pr @ ''-'' @ t) (q @ ''-'')"
  shows "q = pr"
  using assms by (auto simp: agent_order_def has_prefix_def)

lemma auxiliary_of_aux:
  assumes "1 \<le> i" "i \<le> max_int64"
  shows "auxiliary_of (pr @ ''-'' @ itoa i) pr"
proof -
  have "trim_prefix (pr @ ''-'' @ itoa i) (pr @ ''-'') = itoa i"
    by (metis append_assoc trim_prefix_append)
  moreover have "has_prefix (pr @ ''-'' @ itoa i) (pr @ ''-'')"
    by (metis append_assoc has_prefix_append)
  ultimately show ?thesis using assms by (simp add: auxiliary_of_def atoi_itoa)
qed

lemma provider_aux:
  assumes "pr \<in> set agent_order" "1 \<le> i" "i \<le> max_int64"
  shows "provider (pr @ ''-'' @ itoa i) = pr"
proof -
  let ?p = "pr @ ''-'' @ itoa i"
  have notin: "?p \<notin> set agent_order"
    using assms(1) by (auto simp: agent_order_def)
  have a: "auxiliary_of ?p pr" by (rule auxiliary_of_aux [OF assms(2,3)])
  have "find (auxiliary_of ?p) agent_order \<noteq> None"
    using a assms(1) by (auto simp: find_None_iff)
  then obtain q where q: "find (auxiliary_of ?p) agent_order = Some q" by auto
  then have "q \<in> set agent_order" "auxiliary_of ?p q"
    by (auto simp: find_Some_iff)
  then have "q = pr"
    using aux_prefix_unique [OF assms(1)] by (auto simp: auxiliary_of_def)
  with notin q show ?thesis by (simp add: provider_def)
qed

lemma auxiliary_form:
  assumes "is_auxiliary p"
  obtains i where "1 \<le> i" "i \<le> max_int64" "p = provider p @ ''-'' @ itoa i"
    "auxiliary_index p = i" "is_primary_agent (provider p)"
proof -
  have "p \<notin> set agent_order" using assms by (simp add: is_auxiliary_def is_primary_agent_iff)
  moreover have "provider p \<noteq> ''''" using assms by (simp add: is_auxiliary_def valid_agent_def)
  ultimately obtain q where "find (auxiliary_of p) agent_order = Some q" "provider p = q"
    by (auto simp: provider_def split: option.splits)
  then have a: "auxiliary_of p (provider p)" by (auto simp: find_Some_iff)
  then obtain i where i: "atoi (trim_prefix p (provider p @ ''-'')) = Some i" "i > 0"
    "itoa i = trim_prefix p (provider p @ ''-'')" and pre: "has_prefix p (provider p @ ''-'')"
    by (auto simp: auxiliary_of_def split: option.splits)
  from pre obtain t where t: "p = (provider p @ ''-'') @ t" by (rule has_prefixE)
  with i(3) have "t = itoa i" by (metis trim_prefix_append)
  with t have "p = provider p @ ''-'' @ itoa i" by simp
  moreover have "i \<le> max_int64" using i(1) by (auto simp: atoi_def Let_def split: if_splits)
  moreover have "auxiliary_index p = i" using i(1) assms by (simp add: auxiliary_index_def)
  ultimately show thesis
    using that i(2) provider_primary assms by (simp add: is_auxiliary_def)
qed

lemma inj_participant_key: "inj_on participant_key A"
  by (auto simp: inj_on_def participant_key_def)

section \<open>Lemmas on the core policy\<close>

lemma unique_valid_set:
  "set (unique_valid ps seen ex) = {p \<in> set ps. is_primary_agent p} - seen - ex"
  by (induction ps seen ex rule: unique_valid.induct) auto

lemma unique_valid_distinct: "distinct (unique_valid ps seen ex)"
  by (induction ps seen ex rule: unique_valid.induct) (auto simp: unique_valid_set)

lemma unique_valid_id:
  "distinct ps \<Longrightarrow> \<forall>p\<in>set ps. is_primary_agent p \<and> p \<notin> seen \<and> p \<notin> ex \<Longrightarrow> unique_valid ps seen ex = ps"
  by (induction ps seen ex rule: unique_valid.induct) auto

lemma validate_preferred_ok:
  "validate_preferred ps seen = Inr s \<longleftrightarrow>
     distinct ps \<and> (\<forall>p\<in>set ps. is_primary_agent p \<and> seen p = None) \<and>
     s = (\<lambda>p. if p \<in> set ps then Some ''preferred'' else seen p)"
proof (induction ps seen rule: validate_preferred.induct)
  case (2 p ps seen)
  show ?case
  proof (cases "is_primary_agent p \<and> seen p = None")
    case True
    have "validate_preferred ps (seen(p \<mapsto> ''preferred'')) = Inr s \<longleftrightarrow>
        distinct ps \<and> (\<forall>q\<in>set ps. is_primary_agent q \<and> (seen(p \<mapsto> ''preferred'')) q = None) \<and>
        s = (\<lambda>q. if q \<in> set ps then Some ''preferred'' else (seen(p \<mapsto> ''preferred'')) q)"
      by (rule 2) (use True in simp_all)
    moreover have "validate_preferred (p # ps) seen = validate_preferred ps (seen(p \<mapsto> ''preferred''))"
      using True by simp
    moreover have "(\<lambda>q. if q \<in> set ps then Some ''preferred'' else (seen(p \<mapsto> ''preferred'')) q)
        = (\<lambda>q. if q \<in> set (p # ps) then Some ''preferred'' else seen q)"
      by (simp add: fun_eq_iff)
    ultimately show ?thesis using True by (simp only: distinct.simps list.set) auto
  next
    case False
    then show ?thesis by auto
  qed
qed auto

lemma validate_fallbacks_ok:
  "validate_fallbacks ps seen = None \<longleftrightarrow>
     distinct ps \<and> (\<forall>p\<in>set ps. is_primary_agent p \<and> seen p = None)"
proof (induction ps seen rule: validate_fallbacks.induct)
  case (2 p ps seen)
  show ?case
  proof (cases "is_primary_agent p \<and> seen p = None")
    case True
    have "validate_fallbacks ps (seen(p \<mapsto> ''fallback'')) = None \<longleftrightarrow>
        distinct ps \<and> (\<forall>q\<in>set ps. is_primary_agent q \<and> (seen(p \<mapsto> ''fallback'')) q = None)"
      by (rule 2) (use True in simp_all)
    moreover have "validate_fallbacks (p # ps) seen = validate_fallbacks ps (seen(p \<mapsto> ''fallback''))"
      using True by simp
    ultimately show ?thesis using True by (simp only: distinct.simps list.set) auto
  next
    case False
    then show ?thesis by (auto split: option.split)
  qed
qed simp

text \<open>What the code accepts as a policy, stated without the loops.\<close>

definition policy_ok :: "core_policy \<Rightarrow> bool" where
  "policy_ok p \<longleftrightarrow>
     preferred p \<noteq> [] \<and> valid_failover (failover p) \<and> valid_restore (restore p) \<and>
     distinct (preferred p @ slice (fallbacks p)) \<and>
     list_all is_primary_agent (preferred p @ slice (fallbacks p))"

lemma validate_policy_iff: "validate_policy p = None \<longleftrightarrow> policy_ok p"
proof (cases "validate_preferred (preferred p) Map.empty")
  case (Inl e)
  then have "\<not> (distinct (preferred p) \<and> list_all is_primary_agent (preferred p))"
    using validate_preferred_ok [of "preferred p" Map.empty] by (auto simp: list_all_iff)
  with Inl show ?thesis by (auto simp: validate_policy_def policy_ok_def)
next
  case (Inr s)
  with validate_preferred_ok [of "preferred p" Map.empty s] show ?thesis
    by (auto simp: validate_policy_def policy_ok_def validate_fallbacks_ok list_all_iff)
qed

lemma fill_preferred_nonempty: "preferred (fill_preferred p) \<noteq> []"
  by (simp add: fill_preferred_def built_in_core_policy_def)

lemma fill_preferred_set:
  "distinct (preferred p) \<Longrightarrow> list_all is_primary_agent (preferred p) \<Longrightarrow>
   distinct (preferred (fill_preferred p)) \<and> list_all is_primary_agent (preferred (fill_preferred p))"
  by (simp add: fill_preferred_def built_in_core_policy_def)

lemma with_defaults_ok: "policy_ok (with_defaults p)"
proof -
  let ?p1 = "fill_preferred p"
  let ?q = "?p1\<lparr>preferred := unique_valid_participants (preferred ?p1) {}\<rparr>"
  have "distinct (preferred ?q)" "list_all is_primary_agent (preferred ?q)"
    by (auto simp: unique_valid_participants_def unique_valid_distinct unique_valid_set list_all_iff)
  from fill_preferred_set [OF this] show ?thesis
    by (auto simp: policy_ok_def with_defaults_def Let_def slice_def fill_preferred_nonempty
        unique_valid_participants_def unique_valid_distinct unique_valid_set list_all_iff
        valid_failover_def valid_restore_def built_in_core_policy_def)
qed

lemma with_defaults_id:
  assumes "policy_ok p"
  shows "with_defaults p = p\<lparr>fallbacks := Some (slice (fallbacks p))\<rparr>"
proof -
  have "fill_preferred p = p" using assms by (simp add: policy_ok_def fill_preferred_def)
  moreover have "unique_valid_participants (preferred p) {} = preferred p"
    using assms by (auto simp: policy_ok_def unique_valid_participants_def list_all_iff
        intro!: unique_valid_id)
  moreover have "unique_valid_participants (slice (fallbacks p)) (set (preferred p)) = slice (fallbacks p)"
    using assms by (auto simp: policy_ok_def unique_valid_participants_def list_all_iff
        intro!: unique_valid_id)
  ultimately show ?thesis using assms by (simp add: with_defaults_def Let_def policy_ok_def)
qed

section \<open>Properties\<close>

text \<open>
  \<open>OrderedParticipants\<close> is a canonical form: it only permutes its input, sorts it by
  provider, auxiliary index and name, and any two lists with the same members (the same map
  iterated in any order) give the same result.
\<close>

theorem ordered_participants_canonical:
  "mset (ordered_participants xs) = mset xs
   \<and> sorted (map participant_key (ordered_participants xs))
   \<and> (mset xs = mset ys \<longrightarrow> ordered_participants xs = ordered_participants ys)"
proof -
  have "ordered_participants xs = ordered_participants ys" if "mset xs = mset ys"
    unfolding ordered_participants_def
  proof (rule properties_for_sort_key)
    show "mset (sort_key participant_key ys) = mset xs" by (simp add: that)
    fix k
    show "filter (\<lambda>x. participant_key k = participant_key x) (sort_key participant_key ys)
        = filter (\<lambda>x. participant_key k = participant_key x) xs"
    proof -
      have "(\<lambda>x. participant_key k = participant_key x) = (\<lambda>x. k = x)"
        by (auto simp: participant_key_def fun_eq_iff)
      moreover have "filter (\<lambda>x. k = x) zs = replicate (count (mset zs) k) k" for zs
        by (induction zs) auto
      ultimately show ?thesis by (simp add: that)
    qed
  qed (simp add: sorted_sort_key)
  then show ?thesis by (simp add: ordered_participants_def)
qed

theorem ordered_participants_canonical_witness:
  "ordered_participants [Agy, ''codex-2'', Codex] = ordered_participants [Codex, Agy, ''codex-2'']"
  using ordered_participants_canonical [of "[Agy, ''codex-2'', Codex]" "[Codex, Agy, ''codex-2'']"]
  by simp

text \<open>
  C39. The spelling of auxiliary identities is a bijection: a participant is auxiliary exactly
  when it is what \<open>AuxiliaryParticipant\<close> builds from a primary provider and a positive 64-bit
  index, and \<open>Provider\<close> and \<open>AuxiliaryIndex\<close> read both back.
\<close>

theorem auxiliary_round_trip:
  "is_auxiliary p \<longleftrightarrow>
     (\<exists>pr i. is_primary_agent pr \<and> 1 \<le> i \<and> i \<le> max_int64 \<and> auxiliary_participant pr i = Some p
        \<and> provider p = pr \<and> auxiliary_index p = i)"
proof
  assume aux: "is_auxiliary p"
  then obtain i where "1 \<le> i" "i \<le> max_int64" "p = provider p @ ''-'' @ itoa i"
    "auxiliary_index p = i" "is_primary_agent (provider p)"
    by (rule auxiliary_form)
  then show "\<exists>pr i. is_primary_agent pr \<and> 1 \<le> i \<and> i \<le> max_int64
      \<and> auxiliary_participant pr i = Some p \<and> provider p = pr \<and> auxiliary_index p = i"
    by (auto simp: auxiliary_participant_def)
next
  assume "\<exists>pr i. is_primary_agent pr \<and> 1 \<le> i \<and> i \<le> max_int64
      \<and> auxiliary_participant pr i = Some p \<and> provider p = pr \<and> auxiliary_index p = i"
  then obtain pr i where "is_primary_agent pr" "1 \<le> i" "p = pr @ ''-'' @ itoa i" "provider p = pr"
    by (auto simp: auxiliary_participant_def split: if_splits)
  then show "is_auxiliary p"
    by (auto simp: is_auxiliary_def is_primary_agent_def valid_agent_def)
qed

text \<open>
  \<open>WithDefaults\<close> repairs every policy into one \<open>Validate\<close> accepts, and it leaves an
  accepted policy as it is (up to a nil fallback slice becoming an empty one); so it is
  idempotent.
\<close>

theorem with_defaults_repairs:
  "validate_policy (with_defaults p) = None
   \<and> with_defaults (with_defaults p) = with_defaults p
   \<and> (validate_policy p = None \<longrightarrow> with_defaults p = p\<lparr>fallbacks := Some (slice (fallbacks p))\<rparr>)"
proof -
  have "fallbacks (with_defaults p) = Some (slice (fallbacks (with_defaults p)))"
    by (simp add: with_defaults_def Let_def slice_def)
  then have "with_defaults (with_defaults p) = with_defaults p"
    using with_defaults_id [OF with_defaults_ok [of p]] by simp
  then show ?thesis by (simp add: validate_policy_iff with_defaults_ok with_defaults_id)
qed

theorem with_defaults_repairs_witness:
  "validate_policy built_in_core_policy = None
   \<and> with_defaults built_in_core_policy = built_in_core_policy"
proof -
  have "validate_policy built_in_core_policy = None"
    by (simp add: validate_policy_iff policy_ok_def built_in_core_policy_def slice_def
        valid_failover_def valid_restore_def)
  moreover from with_defaults_repairs [of built_in_core_policy] this
  have "with_defaults built_in_core_policy = built_in_core_policy"
    by (simp add: built_in_core_policy_def slice_def)
  ultimately show ?thesis by simp
qed

end
