(* ===== verification/Messages.thy ===== *)
theory Messages
  imports Participants
begin

text \<open>
  The transcript records of \<^verbatim>\<open>internal/chat/types.go\<close> and
  \<^verbatim>\<open>internal/chat/handoff.go\<close> that several components read: a message with its
  correction events, its route and its coordination envelope.  A \<open>uint64\<close> sequence number is a
  \<open>nat\<close>: numbers are handed out one by one from 1, so 64 bits are never exhausted.  The fields
  of \<open>Message\<close> that no modelled operation reads (attachments, round, plan, modes) are
  left out.
\<close>

abbreviation MessageText :: string where "MessageText \<equiv> ''message''"
abbreviation InputWork :: string where "InputWork \<equiv> ''work''"

abbreviation CorrectionOffered :: string where "CorrectionOffered \<equiv> ''offered''"
abbreviation CorrectionDisputed :: string where "CorrectionDisputed \<equiv> ''disputed''"
abbreviation CorrectionAccepted :: string where "CorrectionAccepted \<equiv> ''accepted''"
abbreviation CorrectionRetracted :: string where "CorrectionRetracted \<equiv> ''retracted''"

definition valid_correction_event_type :: "string \<Rightarrow> bool" where
  "valid_correction_event_type t \<longleftrightarrow>
     t = CorrectionOffered \<or> t = CorrectionDisputed \<or> t = CorrectionAccepted \<or> t = CorrectionRetracted"

record correction_event =
  ev_type :: string
  ev_correction_sequence :: nat
  ev_corrected_sequence :: nat
  ev_proposer :: participant
  ev_target :: participant

record route_metadata =
  route_message_id :: string
  route_origin_instance :: string
  route_origin_client :: string
  route_hops :: "string list"

record continuation_spec =
  spec_target :: participant
  spec_text :: string
  spec_effort :: string
  spec_reply_class :: string

record coordination_dispatch =
  run_id :: string
  handoff_id :: string
  dispatch_continuation :: "continuation_spec option"

text \<open>
  \<open>EffortSelection\<close>: the levels are a Go map, here the list of its entries; \<open>same_effort\<close> is \<open>Equal\<close>,
  with \<open>maps.Equal\<close> as the library defines it (as many entries, and each one in the other map).
\<close>

record effort_selection =
  effort_levels :: "(participant \<times> string) list"
  effort_reason :: string

definition no_effort :: effort_selection where "no_effort = \<lparr>effort_levels = [], effort_reason = []\<rparr>"

definition same_effort :: "effort_selection \<Rightarrow> effort_selection \<Rightarrow> bool" where
  "same_effort a b \<longleftrightarrow>
     effort_reason a = effort_reason b \<and> length (effort_levels a) = length (effort_levels b) \<and>
     list_all (\<lambda>(p, l). map_of (effort_levels b) p = Some l) (effort_levels a)"

lemma same_effort_refl: "distinct (map fst (effort_levels e)) \<Longrightarrow> same_effort e e"
  by (auto simp: same_effort_def list_all_iff)

record message =
  message_effort :: effort_selection
  coordination :: "coordination_dispatch option"
  msg_id :: string
  sequence :: nat
  turn_id :: string
  workflow_id :: string
  author :: participant
  target :: participant
  kind :: string
  input_intent :: string
  conversation_id :: string
  reply_to :: nat
  reply_class :: string
  requested_replies :: "participant list"
  msg_text :: string
  correction_events :: "correction_event list"
  route :: "route_metadata option"
  created_at :: time

text \<open>The zero \<open>Message\<close>, from which examples are built.\<close>

definition empty_message :: message where
  "empty_message =
     \<lparr>message_effort = no_effort, coordination = None, msg_id = [], sequence = 0, turn_id = [], workflow_id = [], author = [],
      target = [], kind = [], input_intent = [], conversation_id = [], reply_to = 0,
      reply_class = [], requested_replies = [],
      msg_text = [], correction_events = [], route = None, created_at = 0\<rparr>"

text \<open>\<open>Message.IsWorkflowSource\<close>.\<close>

definition is_workflow_source :: "message \<Rightarrow> bool" where
  "is_workflow_source m \<longleftrightarrow>
     author m = User \<or>
     (author m = ChatGPT \<and> kind m = MessageText \<and> input_intent m = InputWork \<and>
      workflow_id m \<noteq> '''' \<and> route m \<noteq> None)"

end
