(* ===== verification/Corrections.thy ===== *)
theory Corrections
  imports Messages
begin

text \<open>
  The correction ledger of \<^verbatim>\<open>internal/chat/types.go\<close>: \<open>CorrectionLedger\<close> replays the
  correction events of a transcript in message order, ignoring the invalid ones, and
  \<open>CorrectionStatistics\<close> derives the room's and every agent's totals from it.
\<close>

section \<open>The ledger\<close>

abbreviation CorrectionPendingStatus :: string where "CorrectionPendingStatus \<equiv> ''pending''"
abbreviation CorrectionDisputedStatus :: string where "CorrectionDisputedStatus \<equiv> ''disputed''"
abbreviation CorrectionAcceptedStatus :: string where "CorrectionAcceptedStatus \<equiv> ''accepted''"
abbreviation CorrectionRetractedStatus :: string where "CorrectionRetractedStatus \<equiv> ''retracted''"

record correction =
  correction_sequence :: nat
  corrected_sequence :: nat
  proposer :: participant
  corr_target :: participant
  status :: string
  status_sequence :: nat
  corr_created_at :: time
  corr_updated_at :: time

text \<open>How many messages carry a non-zero sequence number, and the unambiguous message of one.\<close>

definition sequence_count :: "message list \<Rightarrow> nat \<Rightarrow> nat" where
  "sequence_count ms n = length (filter (\<lambda>m. sequence m \<noteq> 0 \<and> sequence m = n) ms)"

definition by_sequence :: "message list \<Rightarrow> nat \<Rightarrow> message option" where
  "by_sequence ms n =
     (if n \<noteq> 0 \<and> sequence_count ms n = 1 then find (\<lambda>m. sequence m = n) ms else None)"

definition public_text :: "message \<Rightarrow> bool" where
  "public_text m \<longleftrightarrow> kind m = MessageText \<and> valid_agent (author m) \<and> trim_space (msg_text m) \<noteq> ''''"

definition replayable :: "message list \<Rightarrow> message \<Rightarrow> bool" where
  "replayable ms m \<longleftrightarrow> sequence m \<noteq> 0 \<and> sequence_count ms (sequence m) = 1 \<and> public_text m"

text \<open>The events of one message: a lone valid offer, and a lone valid lifecycle action.\<close>

definition lone_event :: "(correction_event \<Rightarrow> bool) \<Rightarrow> message \<Rightarrow> correction_event option" where
  "lone_event p m =
     (case filter (\<lambda>e. valid_correction_event_type (ev_type e) \<and> p e) (correction_events m) of
        [e] \<Rightarrow> Some e
      | _ \<Rightarrow> None)"

definition lone_offer :: "message \<Rightarrow> correction_event option" where
  "lone_offer = lone_event (\<lambda>e. ev_type e = CorrectionOffered)"

definition lone_resolution :: "message \<Rightarrow> correction_event option" where
  "lone_resolution = lone_event (\<lambda>e. ev_type e \<noteq> CorrectionOffered)"

text \<open>The state of the replay: the ledger and the position of each correction in it.\<close>

type_synonym replay = "correction list \<times> (nat \<rightharpoonup> nat)"

definition resolve_correction :: "message \<Rightarrow> correction_event \<Rightarrow> correction \<Rightarrow> correction" where
  "resolve_correction m e c =
     (if status c = CorrectionAcceptedStatus \<or> status c = CorrectionRetractedStatus then c
      else let stamp = (\<lambda>s. c\<lparr>status := s, status_sequence := sequence m,
                              corr_updated_at := created_at m\<rparr>)
           in if ev_type e = CorrectionAccepted then
                (if author m = corr_target c then stamp CorrectionAcceptedStatus else c)
              else if ev_type e = CorrectionDisputed then
                (if author m = corr_target c \<and> status c \<noteq> CorrectionDisputedStatus
                 then stamp CorrectionDisputedStatus else c)
              else if ev_type e = CorrectionRetracted then
                (if author m = proposer c then stamp CorrectionRetractedStatus else c)
              else c)"

definition apply_resolution :: "message \<Rightarrow> replay \<Rightarrow> replay" where
  "apply_resolution m r =
     (case lone_resolution m of
        None \<Rightarrow> r
      | Some e \<Rightarrow>
          (case snd r (ev_correction_sequence e) of
             None \<Rightarrow> r
           | Some i \<Rightarrow>
               if ev_correction_sequence e \<ge> sequence m then r
               else ((fst r)[i := resolve_correction m e (fst r ! i)], snd r)))"

definition offer_ok :: "message list \<Rightarrow> message \<Rightarrow> correction_event \<Rightarrow> bool" where
  "offer_ok ms m e \<longleftrightarrow>
     (case by_sequence ms (ev_corrected_sequence e) of
        None \<Rightarrow> False
      | Some corrected \<Rightarrow>
          \<not> (ev_correction_sequence e \<noteq> sequence m \<or> ev_corrected_sequence e \<ge> sequence m
             \<or> \<not> public_text corrected \<or> author corrected = author m
             \<or> ev_proposer e \<noteq> author m \<or> ev_target e \<noteq> author corrected))"

definition new_correction :: "message \<Rightarrow> correction_event \<Rightarrow> correction" where
  "new_correction m e =
     \<lparr>correction_sequence = ev_correction_sequence e,
      corrected_sequence = ev_corrected_sequence e,
      proposer = ev_proposer e, corr_target = ev_target e,
      status = CorrectionPendingStatus, status_sequence = 0,
      corr_created_at = created_at m, corr_updated_at = created_at m\<rparr>"

definition apply_offer :: "message list \<Rightarrow> message \<Rightarrow> replay \<Rightarrow> replay" where
  "apply_offer ms m r =
     (case lone_offer m of
        None \<Rightarrow> r
      | Some e \<Rightarrow>
          if \<not> offer_ok ms m e \<or> snd r (ev_correction_sequence e) \<noteq> None then r
          else (fst r @ [new_correction m e], (snd r)(ev_correction_sequence e \<mapsto> length (fst r))))"

definition replay_message :: "message list \<Rightarrow> replay \<Rightarrow> message \<Rightarrow> replay" where
  "replay_message ms r m =
     (if replayable ms m then apply_offer ms m (apply_resolution m r) else r)"

definition correction_ledger :: "message list \<Rightarrow> correction list" where
  "correction_ledger messages =
     (let ordered = sort_key sequence messages
      in fst (foldl (replay_message ordered) ([], Map.empty) ordered))"

section \<open>Statistics\<close>

record correction_counts =
  offered :: nat
  accepted :: nat
  retracted :: nat
  pending :: nat
  accepted_received :: nat

definition no_counts :: correction_counts where
  "no_counts = \<lparr>offered = 0, accepted = 0, retracted = 0, pending = 0, accepted_received = 0\<rparr>"

type_synonym statistics = "correction_counts \<times> (participant \<Rightarrow> correction_counts option)"

text \<open>Reading a missing key of the Go map gives the zero counts.\<close>

definition counts_of :: "(participant \<Rightarrow> correction_counts option) \<Rightarrow> participant \<Rightarrow> correction_counts" where
  "counts_of m p = (case m p of None \<Rightarrow> no_counts | Some c \<Rightarrow> c)"

definition count_correction :: "statistics \<Rightarrow> correction \<Rightarrow> statistics" where
  "count_correction st c =
     (let room = fst st; by = snd st;
          room = room\<lparr>offered := offered room + 1\<rparr>;
          p = counts_of by (proposer c);
          p = p\<lparr>offered := offered p + 1\<rparr>
      in if status c = CorrectionAcceptedStatus then
           let room = room\<lparr>accepted := accepted room + 1,
                           accepted_received := accepted_received room + 1\<rparr>;
               p = p\<lparr>accepted := accepted p + 1\<rparr>;
               t = counts_of by (corr_target c);
               by = by(corr_target c \<mapsto> t\<lparr>accepted_received := accepted_received t + 1\<rparr>)
           in (room, by(proposer c \<mapsto> p))
         else if status c = CorrectionRetractedStatus then
           (room\<lparr>retracted := retracted room + 1\<rparr>,
            by(proposer c \<mapsto> p\<lparr>retracted := retracted p + 1\<rparr>))
         else if status c = CorrectionPendingStatus \<or> status c = CorrectionDisputedStatus then
           (room\<lparr>pending := pending room + 1\<rparr>,
            by(proposer c \<mapsto> p\<lparr>pending := pending p + 1\<rparr>))
         else (room, by(proposer c \<mapsto> p)))"

definition correction_statistics :: "message list \<Rightarrow> statistics" where
  "correction_statistics messages =
     foldl count_correction
       (no_counts, \<lambda>p. if p \<in> set agent_order then Some no_counts else None)
       (correction_ledger messages)"

section \<open>Lemmas\<close>

lemma find_unique:
  assumes "length (filter p xs) = 1" "x \<in> set xs" "p x"
  shows "find p xs = Some x"
proof -
  from assms(1) obtain y where "filter p xs = [y]"
    by (auto simp: length_Suc_conv)
  moreover from this assms(2,3) have "y = x"
    by (metis (mono_tags, lifting) filter_eq_Cons_iff in_set_conv_decomp list.set_intros(1)
        mem_Collect_eq set_ConsD set_filter empty_iff list.set(1))
  moreover have "find p xs = (case filter p xs of [] \<Rightarrow> None | z # zs \<Rightarrow> Some z)"
    by (induction xs) auto
  ultimately show ?thesis by simp
qed

lemma by_sequence_self:
  assumes "replayable ms m" "m \<in> set ms"
  shows "by_sequence ms (sequence m) = Some m"
proof -
  have "length (filter (\<lambda>x. sequence x = sequence m) ms) = 1"
    using assms(1) by (simp add: replayable_def sequence_count_def)
      (metis (mono_tags, lifting) filter_cong)
  with assms find_unique [of "\<lambda>x. sequence x = sequence m" ms m] show ?thesis
    by (auto simp: replayable_def by_sequence_def)
qed

lemma by_sequence_Some:
  "by_sequence ms n = Some m \<Longrightarrow> m \<in> set ms \<and> sequence m = n \<and> n \<noteq> 0 \<and> sequence_count ms n = 1"
  by (auto simp: by_sequence_def find_Some_iff split: if_splits)

subsection \<open>Soundness of entries\<close>

text \<open>The event is the one offer of the message, and the one valid action on an offer.\<close>

definition only_offer :: "message \<Rightarrow> correction_event \<Rightarrow> bool" where
  "only_offer m e \<longleftrightarrow> filter (\<lambda>x. ev_type x = CorrectionOffered) (correction_events m) = [e]"

definition only_action :: "message \<Rightarrow> correction_event \<Rightarrow> bool" where
  "only_action m e \<longleftrightarrow>
     filter (\<lambda>x. ev_type x \<in> {CorrectionAccepted, CorrectionDisputed, CorrectionRetracted}) (correction_events m) = [e]"

lemma lone_offer_only: "lone_offer m = Some e \<Longrightarrow> only_offer m e"
proof -
  assume "lone_offer m = Some e"
  then have "filter (\<lambda>x. valid_correction_event_type (ev_type x) \<and> ev_type x = CorrectionOffered) (correction_events m) = [e]"
    by (auto simp: lone_offer_def lone_event_def split: list.splits)
  moreover have "valid_correction_event_type t \<and> t = CorrectionOffered \<longleftrightarrow> t = CorrectionOffered" for t
    by (auto simp: valid_correction_event_type_def)
  ultimately show ?thesis by (simp only: only_offer_def)
qed

lemma lone_resolution_only: "lone_resolution m = Some e \<Longrightarrow> only_action m e"
proof -
  assume "lone_resolution m = Some e"
  then have "filter (\<lambda>x. valid_correction_event_type (ev_type x) \<and> ev_type x \<noteq> CorrectionOffered) (correction_events m) = [e]"
    by (auto simp: lone_resolution_def lone_event_def split: list.splits)
  moreover have "valid_correction_event_type t \<and> t \<noteq> CorrectionOffered \<longleftrightarrow>
      t \<in> {CorrectionAccepted, CorrectionDisputed, CorrectionRetracted}" for t
    by (auto simp: valid_correction_event_type_def)
  ultimately show ?thesis by (simp only: only_action_def)
qed

text \<open>An entry was offered by one agent, against an earlier public message of another, and says what
  the offer said.\<close>

definition entry_sound :: "message list \<Rightarrow> correction \<Rightarrow> bool" where
  "entry_sound ms c \<longleftrightarrow>
     (\<exists>m d e. by_sequence ms (correction_sequence c) = Some m \<and> public_text m \<and>
        by_sequence ms (corrected_sequence c) = Some d \<and> public_text d \<and>
        only_offer m e \<and> ev_correction_sequence e = correction_sequence c \<and>
        ev_corrected_sequence e = corrected_sequence c \<and> ev_proposer e = proposer c \<and> ev_target e = corr_target c \<and>
        corr_created_at c = created_at m \<and>
        author m = proposer c \<and> author d = corr_target c \<and> proposer c \<noteq> corr_target c \<and>
        corrected_sequence c < correction_sequence c)"

text \<open>A status other than pending was set by a later message of the one who may set it.\<close>

definition may_set :: "correction \<Rightarrow> string \<Rightarrow> participant" where
  "may_set c event = (if event = CorrectionRetracted then proposer c else corr_target c)"

definition status_sound :: "message list \<Rightarrow> correction \<Rightarrow> bool" where
  "status_sound ms c \<longleftrightarrow>
     status c = CorrectionPendingStatus \<or>
     (\<exists>m e. by_sequence ms (status_sequence c) = Some m \<and> public_text m \<and> only_action m e \<and>
        ev_type e = status c \<and> ev_type e \<in> {CorrectionAccepted, CorrectionDisputed, CorrectionRetracted} \<and>
        ev_correction_sequence e = correction_sequence c \<and>
        correction_sequence c < status_sequence c \<and> author m = may_set c (ev_type e))"

definition ledger_inv :: "message list \<Rightarrow> replay \<Rightarrow> bool" where
  "ledger_inv ms r \<longleftrightarrow>
     (\<forall>n i. snd r n = Some i \<longleftrightarrow> i < length (fst r) \<and> correction_sequence (fst r ! i) = n) \<and>
     (\<forall>c\<in>set (fst r). entry_sound ms c \<and> status_sound ms c)"

lemma resolve_identity [simp]:
  "correction_sequence (resolve_correction m e c) = correction_sequence c"
  "corrected_sequence (resolve_correction m e c) = corrected_sequence c"
  "proposer (resolve_correction m e c) = proposer c"
  "corr_target (resolve_correction m e c) = corr_target c"
  "corr_created_at (resolve_correction m e c) = corr_created_at c"
  by (simp_all add: resolve_correction_def Let_def)

lemma resolve_cases:
  "resolve_correction m e c = c \<or>
   (resolve_correction m e c =
      c\<lparr>status := ev_type e, status_sequence := sequence m, corr_updated_at := created_at m\<rparr> \<and>
    ev_type e \<in> {CorrectionAccepted, CorrectionDisputed, CorrectionRetracted} \<and>
    author m = may_set c (ev_type e))"
  by (simp add: resolve_correction_def Let_def may_set_def)

lemma resolve_status_sound:
  assumes "status_sound ms c" "by_sequence ms (sequence m) = Some m" "public_text m \<and> only_action m e"
    "ev_correction_sequence e = correction_sequence c" "correction_sequence c < sequence m"
  shows "status_sound ms (resolve_correction m e c)"
  using resolve_cases [of m e c]
proof
  assume "resolve_correction m e c = c"
  then show ?thesis using assms(1) by simp
next
  assume r: "resolve_correction m e c =
      c\<lparr>status := ev_type e, status_sequence := sequence m, corr_updated_at := created_at m\<rparr> \<and>
      ev_type e \<in> {CorrectionAccepted, CorrectionDisputed, CorrectionRetracted} \<and>
      author m = may_set c (ev_type e)"
  let ?c = "c\<lparr>status := ev_type e, status_sequence := sequence m, corr_updated_at := created_at m\<rparr>"
  have "status_sound ms ?c"
    unfolding status_sound_def using r assms(2-5)
    by (intro disjI2 exI [of _ m] exI [of _ e]) (simp add: may_set_def)
  then show ?thesis using r by simp
qed

lemma entry_sound_resolve: "entry_sound ms (resolve_correction m e c) = entry_sound ms c"
  by (simp add: entry_sound_def)

lemma ledger_inv_update:
  assumes inv: "ledger_inv ms r" and i: "i < length (fst r)"
    and c: "correction_sequence c = correction_sequence (fst r ! i)" "entry_sound ms c" "status_sound ms c"
  shows "ledger_inv ms ((fst r)[i := c], snd r)"
proof -
  have "correction_sequence ((fst r)[i := c] ! j) = correction_sequence (fst r ! j)"
    if "j < length (fst r)" for j
    using that c(1) i by (simp add: nth_list_update)
  moreover have "entry_sound ms d \<and> status_sound ms d" if "d \<in> set ((fst r)[i := c])" for d
    using set_update_subset_insert [of "fst r" i c] that c inv by (auto simp: ledger_inv_def)
  ultimately show ?thesis
    using inv unfolding ledger_inv_def by (simp cong: conj_cong)
qed

lemma apply_resolution_inv:
  assumes "ledger_inv ms r" "by_sequence ms (sequence m) = Some m" "public_text m"
  shows "ledger_inv ms (apply_resolution m r)"
proof (cases "lone_resolution m")
  case None
  then show ?thesis using assms(1) by (simp add: apply_resolution_def)
next
  case (Some e)
  show ?thesis
  proof (cases "snd r (ev_correction_sequence e)")
    case None
    then show ?thesis using Some assms(1) by (simp add: apply_resolution_def)
  next
    case idx: (Some i)
    show ?thesis
    proof (cases "ev_correction_sequence e \<ge> sequence m")
      case True
      then show ?thesis using Some idx assms(1) by (simp add: apply_resolution_def)
    next
      case False
      have i: "i < length (fst r)" "correction_sequence (fst r ! i) = ev_correction_sequence e"
        using assms(1) idx by (auto simp: ledger_inv_def)
      let ?c = "resolve_correction m e (fst r ! i)"
      have "entry_sound ms (fst r ! i) \<and> status_sound ms (fst r ! i)"
        using assms(1) i(1) by (auto simp: ledger_inv_def)
      then have "entry_sound ms ?c \<and> status_sound ms ?c"
        using resolve_status_sound [OF _ assms(2)] assms(3) lone_resolution_only [OF Some] i False
        by (simp add: entry_sound_resolve)
      then have "ledger_inv ms ((fst r)[i := ?c], snd r)"
        using i by (intro ledger_inv_update [OF assms(1)]) simp_all
      then show ?thesis using Some idx False by (simp add: apply_resolution_def)
    qed
  qed
qed

lemma ledger_inv_append:
  assumes inv: "ledger_inv ms r" and fresh: "snd r (correction_sequence c) = None"
    and c: "entry_sound ms c" "status_sound ms c"
  shows "ledger_inv ms (fst r @ [c], (snd r)(correction_sequence c \<mapsto> length (fst r)))"
proof -
  have idx: "snd r n = Some i \<longleftrightarrow> i < length (fst r) \<and> correction_sequence (fst r ! i) = n" for n i
    using inv by (simp add: ledger_inv_def)
  have old: "correction_sequence (fst r ! i) \<noteq> correction_sequence c" if "i < length (fst r)" for i
    using idx [of "correction_sequence c" i] fresh that by auto
  have "((snd r)(correction_sequence c \<mapsto> length (fst r))) n = Some i \<longleftrightarrow>
      i < length (fst r @ [c]) \<and> correction_sequence ((fst r @ [c]) ! i) = n" for n i
    using idx [of n i] old [of i] by (auto simp: nth_append less_Suc_eq)
  then show ?thesis using inv c by (auto simp: ledger_inv_def)
qed

lemma apply_offer_inv:
  assumes "ledger_inv ms r" "by_sequence ms (sequence m) = Some m" "public_text m"
  shows "ledger_inv ms (apply_offer ms m r)"
proof (cases "\<exists>e. lone_offer m = Some e \<and> offer_ok ms m e \<and> snd r (ev_correction_sequence e) = None")
  case False
  then have "apply_offer ms m r = r"
    by (auto simp: apply_offer_def split: option.splits)
  with assms(1) show ?thesis by simp
next
  case True
  then obtain e where e: "lone_offer m = Some e" "offer_ok ms m e"
    "snd r (ev_correction_sequence e) = None" by blast
  let ?c = "new_correction m e"
  have "entry_sound ms ?c"
    using e(2) assms(2,3) lone_offer_only [OF e(1)]
    by (auto simp: offer_ok_def entry_sound_def new_correction_def split: option.splits)
  moreover have "status_sound ms ?c" by (simp add: status_sound_def new_correction_def)
  moreover have "apply_offer ms m r =
      (fst r @ [?c], (snd r)(ev_correction_sequence e \<mapsto> length (fst r)))"
    using e by (simp add: apply_offer_def)
  ultimately show ?thesis
    using ledger_inv_append [OF assms(1), of ?c] e(3) by (simp add: new_correction_def)
qed

lemma replay_message_inv:
  assumes "ledger_inv ms r" "m \<in> set ms"
  shows "ledger_inv ms (replay_message ms r m)"
  using assms by_sequence_self [of ms m]
  by (auto simp: replay_message_def replayable_def intro!: apply_offer_inv apply_resolution_inv)

lemma replay_all_inv: "set xs \<subseteq> set ms \<Longrightarrow> ledger_inv ms r \<Longrightarrow> ledger_inv ms (foldl (replay_message ms) r xs)"
proof (induction xs arbitrary: r)
  case (Cons x xs)
  then have "ledger_inv ms (replay_message ms r x)" by (intro replay_message_inv) auto
  then show ?case using Cons.IH Cons.prems by simp
qed simp

lemma ledger_inv_start: "ledger_inv ms ([], Map.empty)"
  by (simp add: ledger_inv_def)

lemma ledger_inv_final:
  "ledger_inv (sort_key sequence ms)
     (foldl (replay_message (sort_key sequence ms)) ([], Map.empty) (sort_key sequence ms))"
  by (rule replay_all_inv [OF subset_refl ledger_inv_start])

lemma ledger_inv_distinct:
  "ledger_inv ms r \<Longrightarrow> distinct (map correction_sequence (fst r))"
  unfolding ledger_inv_def distinct_conv_nth by auto (metis option.inject)


lemma correction_ledger_inv:
  assumes "c \<in> set (correction_ledger ms)"
  shows "entry_sound (sort_key sequence ms) c \<and> status_sound (sort_key sequence ms) c"
  using ledger_inv_final [of ms] assms
  by (auto simp: ledger_inv_def correction_ledger_def Let_def)

lemma by_sequence_sorted: "by_sequence (sort_key sequence ms) n = Some m \<Longrightarrow>
    by_sequence ms n = Some m"
proof -
  have c: "sequence_count (sort_key sequence ms) n = sequence_count ms n" for n
  proof -
    have "mset (filter (\<lambda>m. sequence m \<noteq> 0 \<and> sequence m = n) (sort_key sequence ms)) =
          mset (filter (\<lambda>m. sequence m \<noteq> 0 \<and> sequence m = n) ms)"
      by simp
    then show ?thesis unfolding sequence_count_def by (rule mset_eq_length)
  qed
  assume "by_sequence (sort_key sequence ms) n = Some m"
  from by_sequence_Some [OF this]
  have m: "m \<in> set ms" "sequence m = n" "n \<noteq> 0" "sequence_count ms n = 1"
    by (simp_all add: c)
  then have "length (filter (\<lambda>m. sequence m = n) ms) = 1"
    unfolding sequence_count_def by (metis (mono_tags, lifting) filter_cong)
  from find_unique [OF this m(1)] m show ?thesis by (simp add: by_sequence_def)
qed

lemma entry_sound_sorted: "entry_sound (sort_key sequence ms) c \<Longrightarrow> entry_sound ms c"
  unfolding entry_sound_def using by_sequence_sorted by blast

lemma status_sound_sorted: "status_sound (sort_key sequence ms) c \<Longrightarrow> status_sound ms c"
  unfolding status_sound_def using by_sequence_sorted by blast

subsection \<open>Appending later messages\<close>

lemma sort_key_append_later:
  fixes ms new :: "message list"
  assumes "\<forall>m\<in>set ms. \<forall>n\<in>set new. sequence m < sequence n"
  shows "sort_key sequence (ms @ new) = sort_key sequence ms @ sort_key sequence new"
proof (rule properties_for_sort_key)
  show "sorted (map sequence (sort_key sequence ms @ sort_key sequence new))"
    using assms by (auto simp: sorted_append intro: less_imp_le)
  fix k :: message
  have "filter (\<lambda>x. sequence k = sequence x) (sort_key sequence xs) =
        filter (\<lambda>x. sequence k = sequence x) xs" for xs :: "message list"
    using sort_key_stable [of sequence "sequence k" xs] by (metis (mono_tags, lifting) filter_cong)
  then show "filter (\<lambda>x. sequence k = sequence x) (sort_key sequence ms @ sort_key sequence new) =
        filter (\<lambda>x. sequence k = sequence x) (ms @ new)" by simp
qed simp

lemma sequence_count_append_later:
  "\<forall>x\<in>set new. n < sequence x \<Longrightarrow> sequence_count (ms @ new) n = sequence_count ms n"
  unfolding sequence_count_def by (auto simp: filter_empty_conv)

lemma by_sequence_append_later:
  assumes "\<forall>x\<in>set new. n < sequence x"
  shows "by_sequence (ms @ new) n = by_sequence ms n"
proof -
  have "find (\<lambda>m. sequence m = n) new = None"
    using assms by (auto simp: find_None_iff)
  then have "find (\<lambda>m. sequence m = n) (ms @ new) = find (\<lambda>m. sequence m = n) ms"
    by (induction ms) auto
  with sequence_count_append_later [OF assms] show ?thesis by (simp add: by_sequence_def)
qed

lemma offer_ok_append_later:
  assumes "\<forall>x\<in>set new. sequence m < sequence x"
  shows "offer_ok (ms @ new) m e = offer_ok ms m e"
proof (cases "ev_corrected_sequence e < sequence m")
  case True
  then have "by_sequence (ms @ new) (ev_corrected_sequence e) = by_sequence ms (ev_corrected_sequence e)"
    using assms by (intro by_sequence_append_later) auto
  then show ?thesis by (simp add: offer_ok_def)
qed (auto simp: offer_ok_def split: option.splits)

lemma replay_message_append_later:
  assumes "\<forall>x\<in>set new. sequence m < sequence x"
  shows "replay_message (ms @ new) r m = replay_message ms r m"
  using assms by (auto simp: replay_message_def replayable_def apply_offer_def
      sequence_count_append_later offer_ok_append_later split: option.split)

lemma replay_prefix:
  assumes "\<forall>m\<in>set xs. \<forall>x\<in>set new. sequence m < sequence x"
  shows "foldl (replay_message (ms @ new)) r xs = foldl (replay_message ms) r xs"
  using assms by (induction xs arbitrary: r) (simp_all add: replay_message_append_later)

text \<open>One ledger extends another: entries keep their place and identity, final ones their value.\<close>

definition final :: "correction \<Rightarrow> bool" where
  "final c \<longleftrightarrow> status c = CorrectionAcceptedStatus \<or> status c = CorrectionRetractedStatus"

definition same_offer :: "correction \<Rightarrow> correction \<Rightarrow> bool" where
  "same_offer c d \<longleftrightarrow>
     correction_sequence c = correction_sequence d \<and> corrected_sequence c = corrected_sequence d \<and>
     proposer c = proposer d \<and> corr_target c = corr_target d \<and> corr_created_at c = corr_created_at d"

definition extends :: "correction list \<Rightarrow> correction list \<Rightarrow> bool" where
  "extends old now \<longleftrightarrow> length old \<le> length now \<and>
     (\<forall>i<length old. same_offer (now ! i) (old ! i) \<and> (final (old ! i) \<longrightarrow> now ! i = old ! i))"

lemma extends_refl: "extends c c"
  by (simp add: extends_def same_offer_def)

lemma extends_trans: "extends a b \<Longrightarrow> extends b c \<Longrightarrow> extends a c"
  by (simp add: extends_def same_offer_def)

lemma resolve_extends:
  "same_offer (resolve_correction m e c) c \<and> (final c \<longrightarrow> resolve_correction m e c = c)"
  by (auto simp: resolve_correction_def final_def same_offer_def Let_def)

lemma apply_resolution_extends: "extends (fst r) (fst (apply_resolution m r))"
  using resolve_extends
  by (auto simp: apply_resolution_def extends_def nth_updated same_offer_def split: option.split)

lemma apply_offer_extends: "extends (fst r) (fst (apply_offer ms m r))"
  by (auto simp: apply_offer_def extends_def nth_append same_offer_def split: option.split)

lemma replay_extends: "extends (fst r) (fst (foldl (replay_message ms) r xs))"
proof (induction xs arbitrary: r)
  case (Cons x xs)
  have "extends (fst r) (fst (replay_message ms r x))"
    using extends_trans [OF apply_resolution_extends apply_offer_extends]
    by (simp add: replay_message_def extends_refl)
  moreover have "extends (fst (replay_message ms r x)) (fst (foldl (replay_message ms) r (x # xs)))"
    using Cons.IH [of "replay_message ms r x"] by simp
  ultimately show ?case by (rule extends_trans)
qed (simp add: extends_refl)

lemma ledger_extends:
  assumes "\<forall>m\<in>set ms. \<forall>n\<in>set new. sequence m < sequence n"
  shows "extends (correction_ledger ms) (correction_ledger (ms @ new))"
proof -
  have "\<forall>m\<in>set (sort_key sequence ms). \<forall>x\<in>set (sort_key sequence new). sequence m < sequence x"
    using assms by simp
  note pre = replay_prefix [OF this]
  show ?thesis
    unfolding correction_ledger_def Let_def sort_key_append_later [OF assms] foldl_append pre
    by (rule replay_extends)
qed

subsection \<open>Statistics\<close>

definition tally :: "(correction \<Rightarrow> bool) \<Rightarrow> correction list \<Rightarrow> nat" where
  "tally p cs = length (filter p cs)"

lemma tally_simps [simp]:
  "tally p [] = 0"
  "tally p (cs @ [c]) = tally p cs + (if p c then 1 else 0)"
  by (simp_all add: tally_def)

definition open_status :: "correction \<Rightarrow> bool" where
  "open_status c \<longleftrightarrow> status c = CorrectionPendingStatus \<or> status c = CorrectionDisputedStatus"

text \<open>The totals a ledger should give for the entries of one proposer and one target.\<close>

definition totals :: "(correction \<Rightarrow> bool) \<Rightarrow> (correction \<Rightarrow> bool) \<Rightarrow> correction list \<Rightarrow> correction_counts" where
  "totals mine received cs =
     \<lparr>offered = tally mine cs,
      accepted = tally (\<lambda>c. mine c \<and> status c = CorrectionAcceptedStatus) cs,
      retracted = tally (\<lambda>c. mine c \<and> status c = CorrectionRetractedStatus) cs,
      pending = tally (\<lambda>c. mine c \<and> open_status c) cs,
      accepted_received = tally (\<lambda>c. received c \<and> status c = CorrectionAcceptedStatus) cs\<rparr>"

lemma count_correction_totals:
  assumes "proposer c \<noteq> corr_target c"
    and "fst st = totals (\<lambda>_. True) (\<lambda>_. True) cs"
    and "\<And>p. counts_of (snd st) p = totals (\<lambda>c. proposer c = p) (\<lambda>c. corr_target c = p) cs"
  shows "fst (count_correction st c) = totals (\<lambda>_. True) (\<lambda>_. True) (cs @ [c]) \<and>
    counts_of (snd (count_correction st c)) p =
      totals (\<lambda>c. proposer c = p) (\<lambda>c. corr_target c = p) (cs @ [c])"
proof -
  have upd: "counts_of (m(q \<mapsto> x)) p = (if q = p then x else counts_of m p)" for m q x p
    by (simp add: counts_of_def)
  consider (acc) "status c = CorrectionAcceptedStatus" | (ret) "status c = CorrectionRetractedStatus"
    | (op) "open_status c"
    | (other) "status c \<noteq> CorrectionAcceptedStatus" "status c \<noteq> CorrectionRetractedStatus" "\<not> open_status c"
    by blast
  then show ?thesis
    by cases (use assms(1) in \<open>auto simp: count_correction_def open_status_def Let_def upd
        assms(2,3) totals_def\<close>)
qed

lemma statistics_fold:
  assumes "\<And>c. c \<in> set cs \<Longrightarrow> proposer c \<noteq> corr_target c"
  shows "fst (foldl count_correction
      (no_counts, \<lambda>p. if p \<in> set agent_order then Some no_counts else None) cs) =
      totals (\<lambda>_. True) (\<lambda>_. True) cs \<and>
    (\<forall>p. counts_of (snd (foldl count_correction
      (no_counts, \<lambda>p. if p \<in> set agent_order then Some no_counts else None) cs)) p =
      totals (\<lambda>c. proposer c = p) (\<lambda>c. corr_target c = p) cs)"
  using assms
proof (induction cs rule: rev_induct)
  case Nil
  then show ?case by (simp add: totals_def no_counts_def counts_of_def)
next
  case (snoc c cs)
  then show ?case using count_correction_totals [of c _ cs] by simp
qed

section \<open>Properties\<close>

text \<open>C29. Every entry of the ledger has its own sequence number, was offered by one agent in a
  public message against an earlier public message of another agent (it repeats the one event of that
  message that has the type of an offer), and carries a status other than pending only because a later
  public message of the one entitled to set it (the target for accept and dispute, the proposer for
  retract) has the matching event as its one action.\<close>

theorem ledger_sound:
  assumes "c \<in> set (correction_ledger ms)"
  shows "distinct (map correction_sequence (correction_ledger ms)) \<and>
    entry_sound ms c \<and> status_sound ms c"
  using correction_ledger_inv [OF assms] entry_sound_sorted status_sound_sorted
    ledger_inv_distinct [OF ledger_inv_final [of ms]]
  by (simp add: correction_ledger_def Let_def)

text \<open>C38. A message that arrives later (with a greater sequence number than every message of the
  transcript) never removes or reorders a ledger entry, never changes who offered it to whom, and
  never changes an entry that was accepted or retracted.\<close>

theorem ledger_final:
  assumes "\<forall>m\<in>set ms. \<forall>n\<in>set new. sequence m < sequence n"
    and "i < length (correction_ledger ms)"
  shows "i < length (correction_ledger (ms @ new)) \<and>
    same_offer (correction_ledger (ms @ new) ! i) (correction_ledger ms ! i) \<and>
    (final (correction_ledger ms ! i) \<longrightarrow>
       correction_ledger (ms @ new) ! i = correction_ledger ms ! i)"
  using ledger_extends [OF assms(1)] assms(2) by (auto simp: extends_def)

text \<open>The statistics are exactly the ledger's totals: every correction is counted once as
  offered and once as accepted, retracted or pending, in the room and for its proposer, and once as
  received by its target when accepted.\<close>

theorem statistics_exact:
  "let (room, agents) = correction_statistics ms; cs = correction_ledger ms
   in room = totals (\<lambda>_. True) (\<lambda>_. True) cs \<and>
      (\<forall>p. counts_of agents p = totals (\<lambda>c. proposer c = p) (\<lambda>c. corr_target c = p) cs) \<and>
      offered room = accepted room + retracted room + pending room \<and>
      offered room = length cs"
proof -
  let ?cs = "correction_ledger ms"
  have "proposer c \<noteq> corr_target c" if "c \<in> set ?cs" for c
    using correction_ledger_inv [OF that] by (auto simp: entry_sound_def)
  from statistics_fold [OF this] have f: "fst (correction_statistics ms) = totals (\<lambda>_. True) (\<lambda>_. True) ?cs"
    "\<forall>p. counts_of (snd (correction_statistics ms)) p =
       totals (\<lambda>c. proposer c = p) (\<lambda>c. corr_target c = p) ?cs"
    by (simp_all add: correction_statistics_def)
  have "status c = CorrectionAcceptedStatus \<or> status c = CorrectionRetractedStatus \<or> open_status c"
    if "c \<in> set ?cs" for c
    using correction_ledger_inv [OF that] by (auto simp: status_sound_def open_status_def)
  then have "length cs = tally (\<lambda>c. status c = CorrectionAcceptedStatus) cs +
      tally (\<lambda>c. status c = CorrectionRetractedStatus) cs + tally open_status cs"
    if "set cs \<subseteq> set ?cs" for cs
    using that by (induction cs rule: rev_induct) (auto simp: open_status_def)
  from this [of ?cs] have "length ?cs = tally (\<lambda>c. status c = CorrectionAcceptedStatus) ?cs +
      tally (\<lambda>c. status c = CorrectionRetractedStatus) ?cs + tally open_status ?cs" by simp
  with f show ?thesis
    by (simp add: split_beta Let_def totals_def tally_def)
qed

section \<open>Witnesses\<close>

text \<open>Claude writes a statement, Codex offers a correction of it, Claude accepts.\<close>

definition sample_transcript :: "message list" where
  "sample_transcript =
     [empty_message\<lparr>sequence := 1, author := Claude, kind := MessageText, msg_text := ''a''\<rparr>,
      empty_message\<lparr>sequence := 2, author := Codex, kind := MessageText, msg_text := ''b'',
        correction_events := [\<lparr>ev_type = CorrectionOffered, ev_correction_sequence = 2,
          ev_corrected_sequence = 1, ev_proposer = Codex, ev_target = Claude\<rparr>]\<rparr>,
      empty_message\<lparr>sequence := 3, author := Claude, kind := MessageText, msg_text := ''c'',
        correction_events := [\<lparr>ev_type = CorrectionAccepted, ev_correction_sequence = 2,
          ev_corrected_sequence = 1, ev_proposer = Codex, ev_target = Claude\<rparr>]\<rparr>]"

definition sample_entry :: correction where
  "sample_entry = \<lparr>correction_sequence = 2, corrected_sequence = 1, proposer = Codex,
     corr_target = Claude, status = CorrectionAcceptedStatus, status_sequence = 3,
     corr_created_at = 0, corr_updated_at = 0\<rparr>"

lemma sample_ledger: "correction_ledger sample_transcript = [sample_entry]"
  by code_simp

lemma ledger_sound_witness: "entry_sound sample_transcript sample_entry"
  using ledger_sound [of sample_entry sample_transcript] by (simp add: sample_ledger)

lemma ledger_final_witness:
  "correction_ledger (sample_transcript @
     [empty_message\<lparr>sequence := 4, author := Codex, kind := MessageText, msg_text := ''d'',
        correction_events := [\<lparr>ev_type = CorrectionRetracted, ev_correction_sequence = 2,
          ev_corrected_sequence = 1, ev_proposer = Codex, ev_target = Claude\<rparr>]\<rparr>]) ! 0 = sample_entry"
  (is "correction_ledger (_ @ [?m]) ! 0 = _")
proof -
  have "\<forall>m\<in>set sample_transcript. \<forall>n\<in>set [?m]. sequence m < sequence n"
    by (simp add: sample_transcript_def empty_message_def)
  from ledger_final [OF this, of 0] show ?thesis
    by (simp add: sample_ledger final_def sample_entry_def)
qed

end
