(* ===== verification/Event_Hub.thy ===== *)
theory Event_Hub
  imports Mo_Prelude
begin

text \<open>
  The replay hub of the remote API, \<^verbatim>\<open>internal/remote/events/hub.go\<close>: a bounded history of
  published events, an atomic replay cut for a resuming consumer, and one bounded live queue with
  its delivery goroutine per subscriber.

  The JSON codec is an argument (\<open>codec\<close>): how an event is copied, how a record is encoded and
  decoded, and how long an encoding is.  \<open>Publish\<close>, \<open>Invalidate\<close>, \<open>Subscribe\<close>, \<open>cancel\<close> and
  \<open>Close\<close> run under the hub's lock and are single steps; the delivery goroutine of a subscriber
  is a phase machine whose steps interleave with them.  An enqueue and the \<open>wake\<close> after it are
  one step (the goroutine can only see a spurious wake-up in between).  The last delivery a
  cancelled subscriber may still hold is not followed.
\<close>

section \<open>Data\<close>

record cursor =
  boot_id :: string
  event_sequence :: nat
  message_sequence :: nat

definition is_zero :: "cursor \<Rightarrow> bool" where
  "is_zero c \<longleftrightarrow> boot_id c = '''' \<and> event_sequence c = 0 \<and> message_sequence c = 0"

abbreviation GapBootMismatch :: string where "GapBootMismatch \<equiv> ''boot_mismatch''"
abbreviation GapCursorExpired :: string where "GapCursorExpired \<equiv> ''cursor_expired''"
abbreviation GapSubscriberOverflow :: string where "GapSubscriberOverflow \<equiv> ''subscriber_overflow''"

record gap =
  gap_reason :: string
  requested :: cursor
  oldest_available :: cursor
  gap_current :: cursor

record 'e event_record =
  rec_cursor :: cursor
  rec_event :: 'e

datatype 'e delivery = RecordDelivery "'e event_record" | GapDelivery gap

record ('e, 'd) codec =
  copy_event :: "'e \<Rightarrow> 'e option"
  payload_message :: "'e \<Rightarrow> nat option"
  encode_record :: "'e event_record \<Rightarrow> 'd option"
  decode_record :: "'d \<Rightarrow> 'e event_record"
  data_length :: "'d \<Rightarrow> nat"
  gap_length :: "gap \<Rightarrow> nat"

record ('e, 'd) retained_record =
  ret_record :: "'e event_record"
  ret_data :: 'd
  ret_bytes :: int

datatype 'e runner = Waiting | Draining | Holding "'e delivery" | Sent "'e delivery"

record 'e subscriber =
  capacity :: int
  sub_max_bytes :: int
  queue :: "('e delivery \<times> int) list"
  queue_bytes :: int
  delivered :: cursor
  notified :: bool
  sub_closed :: bool
  runner :: "'e runner"

record ('e, 'd) hub =
  hub_boot :: string
  hub_sequence :: nat
  hub_message :: nat
  max_records :: int
  max_bytes :: int
  record_bytes :: int
  records :: "('e, 'd) retained_record list"
  next_subscriber :: nat
  subscribers :: "nat \<Rightarrow> 'e subscriber option"
  hub_closed :: bool

datatype hub_error =
  EncodeFailed | ErrClosed | ReasonRequired | RandFailed | CapacityNotPositive | LimitsNotPositive

section \<open>The hub\<close>

definition defaultMaxRecords :: int where "defaultMaxRecords = 4096"
definition defaultMaxBytes :: int where "defaultMaxBytes = 8388608"

definition new_hub :: "string option \<Rightarrow> string \<Rightarrow> nat \<Rightarrow> int \<Rightarrow> int \<Rightarrow> hub_error + ('e, 'd) hub" where
  "new_hub random boot initial maxr maxb =
     (case (if boot = '''' then random else Some boot) of
        None \<Rightarrow> Inl RandFailed
      | Some b \<Rightarrow>
          let r = (if maxr = 0 then defaultMaxRecords else maxr);
              n = (if maxb = 0 then defaultMaxBytes else maxb)
          in if r < 1 \<or> n < 1 then Inl LimitsNotPositive
             else Inr \<lparr>hub_boot = b, hub_sequence = 0, hub_message = initial, max_records = r,
                       max_bytes = n, record_bytes = 0, records = [], next_subscriber = 0,
                       subscribers = Map.empty, hub_closed = False\<rparr>)"

definition current :: "('e, 'd) hub \<Rightarrow> cursor" where
  "current h = \<lparr>boot_id = hub_boot h, event_sequence = hub_sequence h, message_sequence = hub_message h\<rparr>"

definition oldest :: "('e, 'd) hub \<Rightarrow> cursor" where
  "oldest h = (case records h of [] \<Rightarrow> current h | r # _ \<Rightarrow> rec_cursor (ret_record r))"

fun trim_records :: "int \<Rightarrow> int \<Rightarrow> ('e, 'd) retained_record list \<Rightarrow> int \<Rightarrow>
    ('e, 'd) retained_record list \<times> int" where
  "trim_records maxr maxb [] n = ([], n)"
| "trim_records maxr maxb (r # rs) n =
     (if int (length (r # rs)) > maxr \<or> n > maxb
      then trim_records maxr maxb rs (n - ret_bytes r) else (r # rs, n))"

definition trim :: "('e, 'd) hub \<Rightarrow> ('e, 'd) hub" where
  "trim h = (let (rs, n) = trim_records (max_records h) (max_bytes h) (records h) (record_bytes h)
             in h\<lparr>records := rs, record_bytes := n\<rparr>)"

subsection \<open>Subscribers\<close>

definition new_subscriber :: "int \<Rightarrow> int \<Rightarrow> cursor \<Rightarrow> 'e subscriber" where
  "new_subscriber cap maxb cur =
     \<lparr>capacity = cap, sub_max_bytes = maxb, queue = [], queue_bytes = 0, delivered = cur,
      notified = False, sub_closed = False, runner = Waiting\<rparr>"

definition replace_with_gap :: "('e, 'd) codec \<Rightarrow> string \<Rightarrow> cursor \<Rightarrow> cursor \<Rightarrow> 'e subscriber \<Rightarrow> 'e subscriber" where
  "replace_with_gap C why old cur s =
     (let g = \<lparr>gap_reason = why, requested = delivered s, oldest_available = old, gap_current = cur\<rparr>;
          n = int (gap_length C g)
      in s\<lparr>queue := [(GapDelivery g, n)], queue_bytes := n\<rparr>)"

definition wake :: "'e subscriber \<Rightarrow> 'e subscriber" where
  "wake s = s\<lparr>notified := True\<rparr>"

definition enqueue_record :: "('e, 'd) codec \<Rightarrow> 'e event_record \<Rightarrow> int \<Rightarrow> cursor \<Rightarrow> cursor \<Rightarrow>
    'e subscriber \<Rightarrow> 'e subscriber" where
  "enqueue_record C r n old cur s =
     (if sub_closed s then s
      else wake (if int (length (queue s)) \<ge> capacity s \<or> queue_bytes s + n > sub_max_bytes s
                 then replace_with_gap C GapSubscriberOverflow old cur s
                 else s\<lparr>queue := queue s @ [(RecordDelivery r, n)], queue_bytes := queue_bytes s + n\<rparr>))"

definition enqueue_gap :: "('e, 'd) codec \<Rightarrow> string \<Rightarrow> cursor \<Rightarrow> cursor \<Rightarrow> 'e subscriber \<Rightarrow> 'e subscriber" where
  "enqueue_gap C why old cur s =
     (if sub_closed s then s else wake (replace_with_gap C why old cur s))"

text \<open>
  One step of \<open>run\<close>: wait for a notification, take the next queued delivery or go back to
  waiting, hand the delivery to the consumer, record that it was delivered.
\<close>

definition delivered_cursor :: "'e delivery \<Rightarrow> cursor" where
  "delivered_cursor d = (case d of RecordDelivery r \<Rightarrow> rec_cursor r | GapDelivery g \<Rightarrow> gap_current g)"

definition run_subscriber :: "'e subscriber \<Rightarrow> 'e subscriber option" where
  "run_subscriber s =
     (case runner s of
        Waiting \<Rightarrow> if notified s then Some (s\<lparr>notified := False, runner := Draining\<rparr>) else None
      | Draining \<Rightarrow>
          (case queue s of
             [] \<Rightarrow> Some (s\<lparr>runner := Waiting\<rparr>)
           | q # qs \<Rightarrow> Some (s\<lparr>queue := qs, queue_bytes := queue_bytes s - snd q, runner := Holding (fst q)\<rparr>))
      | Holding d \<Rightarrow> Some (s\<lparr>runner := Sent d\<rparr>)
      | Sent d \<Rightarrow> Some (s\<lparr>delivered := delivered_cursor d, runner := Draining\<rparr>))"

text \<open>What the consumer receives in that step.\<close>

definition emits :: "'e subscriber \<Rightarrow> 'e delivery list" where
  "emits s = (case runner s of Holding d \<Rightarrow> [d] | _ \<Rightarrow> [])"

subsection \<open>Operations under the lock\<close>

definition note_message :: "('e, 'd) codec \<Rightarrow> 'e \<Rightarrow> ('e, 'd) hub \<Rightarrow> ('e, 'd) hub" where
  "note_message C e h =
     (case payload_message C e of
        None \<Rightarrow> h
      | Some n \<Rightarrow> if n > hub_message h then h\<lparr>hub_message := n\<rparr> else h)"

definition publish :: "('e, 'd) codec \<Rightarrow> 'e \<Rightarrow> ('e, 'd) hub \<Rightarrow> (hub_error + cursor) \<times> ('e, 'd) hub" where
  "publish C e h =
     (case copy_event C e of
        None \<Rightarrow> (Inl EncodeFailed, h)
      | Some copied \<Rightarrow>
          if hub_closed h then (Inl ErrClosed, h)
          else
            let h = note_message C copied (h\<lparr>hub_sequence := hub_sequence h + 1\<rparr>);
                cur = current h;
                r = \<lparr>rec_cursor = cur, rec_event = copied\<rparr>
            in case encode_record C r of
                 None \<Rightarrow> (Inl EncodeFailed, h)
               | Some data \<Rightarrow>
                   let n = int (data_length C data);
                       h = h\<lparr>records := records h @ [\<lparr>ret_record = r, ret_data = data, ret_bytes = n\<rparr>],
                             record_bytes := record_bytes h + n\<rparr>;
                       h = trim h;
                       old = oldest h
                   in (Inr cur,
                       h\<lparr>subscribers := (\<lambda>i. map_option
                          (enqueue_record C (decode_record C data) n old cur) (subscribers h i))\<rparr>))"

definition invalidate :: "('e, 'd) codec \<Rightarrow> string \<Rightarrow> string option \<Rightarrow> ('e, 'd) hub \<Rightarrow>
    (hub_error + cursor) \<times> ('e, 'd) hub" where
  "invalidate C why random h =
     (if why = '''' then (Inl ReasonRequired, h)
      else case random of
        None \<Rightarrow> (Inl RandFailed, h)
      | Some b \<Rightarrow>
          if hub_closed h then (Inl ErrClosed, h)
          else let h = h\<lparr>hub_boot := b, hub_sequence := 0, record_bytes := 0, records := []\<rparr>;
                   cur = current h
               in (Inr cur,
                   h\<lparr>subscribers := (\<lambda>i. map_option (enqueue_gap C why cur cur) (subscribers h i))\<rparr>))"

definition replay :: "('e, 'd) codec \<Rightarrow> cursor \<Rightarrow> ('e, 'd) hub \<Rightarrow> 'e event_record list \<times> gap option" where
  "replay C after h =
     (let old = oldest h; cur = current h;
          gap = (\<lambda>why. \<lparr>gap_reason = why, requested = after, oldest_available = old, gap_current = cur\<rparr>)
      in if is_zero after then ([], None)
         else if boot_id after \<noteq> hub_boot h then ([], Some (gap GapBootMismatch))
         else if event_sequence after > event_sequence cur then ([], Some (gap GapCursorExpired))
         else if event_sequence after < event_sequence cur \<and>
                 (records h = [] \<or> event_sequence after + 1 < event_sequence old)
              then ([], Some (gap GapCursorExpired))
         else (map (\<lambda>v. decode_record C (ret_data v))
                 (filter (\<lambda>v. event_sequence (rec_cursor (ret_record v)) > event_sequence after) (records h)),
               None))"

record 'e subscription =
  sub_id :: nat
  sub_replay :: "'e event_record list"
  sub_current :: cursor
  sub_gap :: "gap option"

definition subscribe :: "('e, 'd) codec \<Rightarrow> cursor \<Rightarrow> int \<Rightarrow> ('e, 'd) hub \<Rightarrow>
    (hub_error + 'e subscription) \<times> ('e, 'd) hub" where
  "subscribe C after cap h =
     (if cap < 1 then (Inl CapacityNotPositive, h)
      else if hub_closed h then (Inl ErrClosed, h)
      else let (rs, g) = replay C after h; i = next_subscriber h + 1
           in (Inr \<lparr>sub_id = i, sub_replay = rs, sub_current = current h, sub_gap = g\<rparr>,
               h\<lparr>next_subscriber := i,
                 subscribers := (subscribers h)(i \<mapsto> new_subscriber cap (max_bytes h) (current h))\<rparr>))"

text \<open>A cancelled subscriber leaves the map; its queue is emptied and its goroutine ends.\<close>

definition close_subscriber :: "'e subscriber \<Rightarrow> 'e subscriber" where
  "close_subscriber s = s\<lparr>sub_closed := True, queue := [], queue_bytes := 0\<rparr>"

definition cancel :: "nat \<Rightarrow> ('e, 'd) hub \<Rightarrow> 'e subscriber option \<times> ('e, 'd) hub" where
  "cancel i h = (map_option close_subscriber (subscribers h i),
                 h\<lparr>subscribers := (subscribers h)(i := None)\<rparr>)"

definition close :: "('e, 'd) hub \<Rightarrow> ('e, 'd) hub" where
  "close h = (if hub_closed h then h else h\<lparr>hub_closed := True, subscribers := Map.empty\<rparr>)"

section \<open>The running system\<close>

text \<open>
  The log is what was announced so far, in order: a published record or a rotated epoch.  A
  registered subscriber has the log position at which it started and what its consumer received.
\<close>

datatype 'e entry = Published "'e event_record" | Rotated cursor

definition entry_cursor :: "'e entry \<Rightarrow> cursor" where
  "entry_cursor x = (case x of Published r \<Rightarrow> rec_cursor r | Rotated c \<Rightarrow> c)"

record ('e, 'd) hub_system =
  the_hub :: "('e, 'd) hub"
  log :: "'e entry list"
  begun :: "nat \<Rightarrow> nat"
  got :: "nat \<Rightarrow> 'e delivery list"

text \<open>Random boot identifiers do not repeat (\<open>crypto/rand\<close>, 128 bits) and are not empty.\<close>

definition fresh_boot :: "string \<Rightarrow> ('e, 'd) hub_system \<Rightarrow> bool" where
  "fresh_boot b s \<longleftrightarrow> b \<noteq> '''' \<and> b \<noteq> hub_boot (the_hub s) \<and> (\<forall>x\<in>set (log s). boot_id (entry_cursor x) \<noteq> b)"

inductive hub_step :: "('e, 'd) codec \<Rightarrow> ('e, 'd) hub_system \<Rightarrow> ('e, 'd) hub_system \<Rightarrow> bool"
  for C :: "('e, 'd) codec" where
  published: "publish C e (the_hub s) = (Inr c, h) \<Longrightarrow> copy_event C e = Some copied \<Longrightarrow>
    hub_step C s (s\<lparr>the_hub := h, log := log s @ [Published \<lparr>rec_cursor = c, rec_event = copied\<rparr>]\<rparr>)"
| publish_failed: "publish C e (the_hub s) = (Inl x, h) \<Longrightarrow> hub_step C s (s\<lparr>the_hub := h\<rparr>)"
| invalidated: "invalidate C why (Some b) (the_hub s) = (Inr c, h) \<Longrightarrow> fresh_boot b s \<Longrightarrow>
    hub_step C s (s\<lparr>the_hub := h, log := log s @ [Rotated c]\<rparr>)"
| subscribed: "subscribe C after cap (the_hub s) = (Inr p, h) \<Longrightarrow>
    hub_step C s (s\<lparr>the_hub := h, begun := (begun s)(sub_id p := length (log s)),
                    got := (got s)(sub_id p := [])\<rparr>)"
| cancelled: "cancel i (the_hub s) = (x, h) \<Longrightarrow> hub_step C s (s\<lparr>the_hub := h\<rparr>)"
| closed: "hub_step C s (s\<lparr>the_hub := close (the_hub s)\<rparr>)"
| delivery: "subscribers (the_hub s) i = Some u \<Longrightarrow> run_subscriber u = Some u' \<Longrightarrow>
    hub_step C s (s\<lparr>the_hub := (the_hub s)\<lparr>subscribers := (subscribers (the_hub s))(i \<mapsto> u')\<rparr>,
                    got := (got s)(i := got s i @ emits u)\<rparr>)"

inductive hub_reachable :: "('e, 'd) codec \<Rightarrow> ('e, 'd) hub_system \<Rightarrow> bool"
  for C :: "('e, 'd) codec" where
  hub_start: "new_hub random boot initial maxr maxb = Inr h \<Longrightarrow> random \<noteq> Some '''' \<Longrightarrow>
    hub_reachable C \<lparr>the_hub = h, log = [], begun = (\<lambda>_. 0), got = (\<lambda>_. [])\<rparr>"
| hub_next: "hub_reachable C s \<Longrightarrow> hub_step C s t \<Longrightarrow> hub_reachable C t"

section \<open>What a stream of deliveries explains\<close>

text \<open>
  The codec decodes what it encoded of a copied event: decoding a JSON encoding of an event that
  came out of a JSON round trip gives that event back.
\<close>

definition codec_ok :: "('e, 'd) codec \<Rightarrow> bool" where
  "codec_ok C \<longleftrightarrow> (\<forall>c e e' d. copy_event C e = Some e' \<longrightarrow>
     encode_record C \<lparr>rec_cursor = c, rec_event = e'\<rparr> = Some d \<longrightarrow>
     decode_record C d = \<lparr>rec_cursor = c, rec_event = e'\<rparr>)"

text \<open>
  A stream takes a consumer from one log position to another: a record delivers the very next
  entry, and every stretch of the log that is skipped is announced by a gap whose \<open>Current\<close>
  cursor is that of the last entry skipped.
\<close>

inductive explains :: "'e entry list \<Rightarrow> nat \<Rightarrow> 'e delivery list \<Rightarrow> nat \<Rightarrow> bool"
  for l :: "'e entry list" where
  nothing: "explains l i [] i"
| "next": "i < length l \<Longrightarrow> l ! i = Published r \<Longrightarrow> explains l (Suc i) ds j \<Longrightarrow>
    explains l i (RecordDelivery r # ds) j"
| skip: "i < k \<Longrightarrow> k \<le> length l \<Longrightarrow> entry_cursor (l ! (k - 1)) = gap_current g \<Longrightarrow>
    explains l k ds j \<Longrightarrow> explains l i (GapDelivery g # ds) j"

inductive_simps explains_simps: "explains l i [] j" "explains l i (RecordDelivery r # ds) j"
  "explains l i (GapDelivery g # ds) j"

lemma explains_append: "explains l i ds j \<Longrightarrow> explains l j es k \<Longrightarrow> explains l i (ds @ es) k"
  by (induction rule: explains.induct) (auto intro: explains.intros)

lemma explains_split: "explains l i (ds @ es) k \<Longrightarrow> \<exists>j. explains l i ds j \<and> explains l j es k"
proof (induction ds arbitrary: i)
  case Nil
  then show ?case by (auto intro: explains.intros)
next
  case (Cons d ds)
  then show ?case by (cases d) (auto simp: explains_simps, blast+)
qed

lemma explains_log: "explains l i ds j \<Longrightarrow> explains (l @ m) i ds j"
  by (induction rule: explains.induct) (auto intro!: explains.intros simp: nth_append)

lemma explains_le: "explains l i ds j \<Longrightarrow> i \<le> j"
  by (induction rule: explains.induct) auto

lemma explains_bound: "explains l i ds j \<Longrightarrow> i \<le> length l \<Longrightarrow> j \<le> length l"
  by (induction rule: explains.induct) auto

section \<open>Invariants\<close>

subsection \<open>The retained history\<close>

abbreviation seq_of :: "'e event_record \<Rightarrow> nat" where
  "seq_of r \<equiv> event_sequence (rec_cursor r)"

lemma trim_records_drop:
  "trim_records a b rs n = (rs', n') \<Longrightarrow> \<exists>k. k \<le> length rs \<and> rs' = drop k rs"
proof (induction a b rs n arbitrary: rs' n' rule: trim_records.induct)
  case (2 a b r rs n)
  show ?case
  proof (cases "int (length (r # rs)) > a \<or> n > b")
    case True
    with 2 obtain k where "k \<le> length rs" "rs' = drop k rs" by auto
    then show ?thesis by (intro exI [of _ "Suc k"]) simp
  next
    case False
    with 2(2) show ?thesis by (intro exI [of _ 0]) auto
  qed
qed simp

lemma trim_records_bounds:
  "trim_records a b rs n = (rs', n') \<Longrightarrow> n = sum_list (map ret_bytes rs) \<Longrightarrow> 0 \<le> a \<Longrightarrow> 0 \<le> b \<Longrightarrow>
   n' = sum_list (map ret_bytes rs') \<and> int (length rs') \<le> a \<and> n' \<le> b"
proof (induction a b rs n arbitrary: rs' n' rule: trim_records.induct)
  case (2 a b r rs n)
  show ?case
  proof (cases "int (length (r # rs)) > a \<or> n > b")
    case True
    with 2 show ?thesis by simp
  next
    case False
    with 2 show ?thesis by auto
  qed
qed simp

text \<open>
  The log ends with the records \<open>mid\<close> of the current epoch, in increasing order of their
  sequence numbers; the hub retains a suffix of them.
\<close>

definition epoch :: "('e, 'd) codec \<Rightarrow> ('e, 'd) hub \<Rightarrow> 'e entry list \<Rightarrow> 'e event_record list \<Rightarrow> bool" where
  "epoch C h pre mid \<longleftrightarrow>
     hub_boot h \<noteq> '''' \<and>
     (pre = [] \<or> (\<exists>p c. pre = p @ [Rotated c] \<and> event_sequence c = 0 \<and>
                    (\<forall>x\<in>set p. boot_id (entry_cursor x) \<noteq> hub_boot h))) \<and>
     (\<forall>r\<in>set mid. boot_id (rec_cursor r) = hub_boot h \<and> 0 < seq_of r \<and> seq_of r \<le> hub_sequence h) \<and>
     sorted_wrt (<) (map seq_of mid) \<and>
     (\<exists>n\<le>length mid. map ret_record (records h) = drop n mid) \<and>
     (\<forall>v\<in>set (records h). decode_record C (ret_data v) = ret_record v)"

definition history_inv :: "('e, 'd) codec \<Rightarrow> ('e, 'd) hub \<Rightarrow> 'e entry list \<Rightarrow> bool" where
  "history_inv C h l \<longleftrightarrow> (\<exists>pre mid. l = pre @ map Published mid \<and> epoch C h pre mid)"

lemma epoch_cong:
  assumes "hub_boot h' = hub_boot h" "records h' = records h" "hub_sequence h \<le> hub_sequence h'"
    and e: "epoch C h pre mid"
  shows "epoch C h' pre mid"
proof -
  have "\<forall>r\<in>set mid. boot_id (rec_cursor r) = hub_boot h \<and> 0 < seq_of r \<and> seq_of r \<le> hub_sequence h'"
    using e assms(3) by (auto simp: epoch_def)
  with e show ?thesis unfolding epoch_def assms(1,2) by blast
qed

lemma history_inv_cong:
  "hub_boot h' = hub_boot h \<Longrightarrow> records h' = records h \<Longrightarrow> hub_sequence h \<le> hub_sequence h' \<Longrightarrow>
   history_inv C h l \<Longrightarrow> history_inv C h' l"
  unfolding history_inv_def using epoch_cong by blast

definition bounds_inv :: "('e, 'd) hub \<Rightarrow> bool" where
  "bounds_inv h \<longleftrightarrow> 1 \<le> max_records h \<and> 1 \<le> max_bytes h \<and>
     record_bytes h = sum_list (map ret_bytes (records h)) \<and>
     int (length (records h)) \<le> max_records h \<and> record_bytes h \<le> max_bytes h"

text \<open>A successful publish, with the record it announced and the hub before the fan-out.\<close>

definition append_record :: "('e, 'd) codec \<Rightarrow> cursor \<Rightarrow> 'e \<Rightarrow> 'd \<Rightarrow> ('e, 'd) hub \<Rightarrow> ('e, 'd) hub" where
  "append_record C c e data h =
     h\<lparr>hub_sequence := event_sequence c, hub_message := message_sequence c,
       records := records h @ [\<lparr>ret_record = \<lparr>rec_cursor = c, rec_event = e\<rparr>, ret_data = data,
                               ret_bytes = int (data_length C data)\<rparr>],
       record_bytes := record_bytes h + int (data_length C data)\<rparr>"

definition fan_out :: "('e subscriber \<Rightarrow> 'e subscriber) \<Rightarrow> ('e, 'd) hub \<Rightarrow> ('e, 'd) hub" where
  "fan_out f h = h\<lparr>subscribers := (\<lambda>i. map_option f (subscribers h i))\<rparr>"

lemma note_message:
  obtains m where "note_message C e h = h\<lparr>hub_message := m\<rparr>"
proof (cases "payload_message C e")
  case None
  with that [of "hub_message h"] show ?thesis by (simp add: note_message_def)
next
  case (Some n)
  with that [of "max n (hub_message h)"] show ?thesis by (simp add: note_message_def max_def)
qed

lemma publish_ok:
  assumes "publish C e h = (Inr c, h')"
  obtains copied data old where "copy_event C e = Some copied"
    "encode_record C \<lparr>rec_cursor = c, rec_event = copied\<rparr> = Some data"
    "h' = fan_out (enqueue_record C (decode_record C data) (int (data_length C data)) old c)
            (trim (append_record C c copied data h))"
    "boot_id c = hub_boot h" "event_sequence c = hub_sequence h + 1" "\<not> hub_closed h"
proof -
  obtain copied where copied: "copy_event C e = Some copied" and open_: "\<not> hub_closed h"
    using assms by (auto simp: publish_def split: option.splits if_splits)
  let ?h0 = "h\<lparr>hub_sequence := Suc (hub_sequence h)\<rparr>"
  obtain m where m: "note_message C copied ?h0 = ?h0\<lparr>hub_message := m\<rparr>" by (rule note_message)
  let ?c = "current (?h0\<lparr>hub_message := m\<rparr>)"
  show thesis
  proof (cases "encode_record C \<lparr>rec_cursor = ?c, rec_event = copied\<rparr>")
    case None
    with assms copied open_ show thesis by (simp add: publish_def Let_def m)
  next
    case (Some data)
    with assms copied open_ have "c = ?c" and "h' = fan_out (enqueue_record C (decode_record C data)
        (int (data_length C data)) (oldest (trim (append_record C c copied data h))) c)
        (trim (append_record C c copied data h))"
      by (auto simp: publish_def Let_def m fan_out_def append_record_def current_def)
    with that [OF copied _ this(2)] Some open_ show thesis by (simp add: current_def)
  qed
qed

lemma trim_same [simp]:
  "hub_boot (trim h) = hub_boot h" "hub_sequence (trim h) = hub_sequence h"
  "subscribers (trim h) = subscribers h" "max_records (trim h) = max_records h"
  "max_bytes (trim h) = max_bytes h" "hub_closed (trim h) = hub_closed h"
  "hub_message (trim h) = hub_message h"
  by (simp_all add: trim_def split_beta Let_def)

lemma trim_keeps_suffix: "\<exists>k\<le>length (records h). records (trim h) = drop k (records h)"
proof -
  obtain rs n where t: "trim_records (max_records h) (max_bytes h) (records h) (record_bytes h) = (rs, n)"
    by (cases "trim_records (max_records h) (max_bytes h) (records h) (record_bytes h)")
  from trim_records_drop [OF t] show ?thesis by (simp add: trim_def t)
qed

lemma trim_bounds:
  assumes "record_bytes h = sum_list (map ret_bytes (records h))" "1 \<le> max_records h" "1 \<le> max_bytes h"
  shows "bounds_inv (trim h)"
proof -
  obtain rs n where t: "trim_records (max_records h) (max_bytes h) (records h) (record_bytes h) = (rs, n)"
    by (cases "trim_records (max_records h) (max_bytes h) (records h) (record_bytes h)")
  from trim_records_bounds [OF t assms(1)] assms(2,3) show ?thesis
    by (simp add: trim_def t bounds_inv_def)
qed

lemma history_publish:
  assumes inv: "history_inv C h l"
    and c: "boot_id c = hub_boot h" "event_sequence c = hub_sequence h + 1"
    and dec: "decode_record C data = \<lparr>rec_cursor = c, rec_event = e\<rparr>"
  shows "history_inv C (fan_out f (trim (append_record C c e data h)))
           (l @ [Published \<lparr>rec_cursor = c, rec_event = e\<rparr>])"
proof -
  let ?r = "\<lparr>rec_cursor = c, rec_event = e\<rparr>"
  let ?a = "append_record C c e data h"
  obtain pre mid where l: "l = pre @ map Published mid" and e: "epoch C h pre mid"
    using inv by (auto simp: history_inv_def)
  then obtain n where n: "n \<le> length mid" "map ret_record (records h) = drop n mid"
    by (auto simp: epoch_def)
  obtain k where k: "k \<le> length (records ?a)" "records (trim ?a) = drop k (records ?a)"
    using trim_keeps_suffix [of ?a] by blast
  have "map ret_record (records ?a) = drop n (mid @ [?r])"
    using n by (simp add: append_record_def)
  then have "map ret_record (records (trim ?a)) = drop (n + k) (mid @ [?r])"
    by (simp only: k(2) drop_map [symmetric] drop_drop add.commute)
  moreover have "n + k \<le> length (mid @ [?r])"
  proof -
    have "length (records h) = length mid - n" using n(2) by (metis length_drop length_map)
    then have "length (records ?a) = length mid - n + 1" by (simp add: append_record_def)
    with k(1) n(1) show ?thesis by simp
  qed
  moreover have "\<forall>v\<in>set (records (trim ?a)). decode_record C (ret_data v) = ret_record v"
  proof
    fix v assume "v \<in> set (records (trim ?a))"
    then have "v \<in> set (records ?a)" by (simp add: k(2) in_set_dropD)
    with e dec show "decode_record C (ret_data v) = ret_record v"
      by (auto simp: append_record_def epoch_def)
  qed
  ultimately have "epoch C (fan_out f (trim ?a)) pre (mid @ [?r])"
    using e c by (auto simp: epoch_def fan_out_def append_record_def sorted_wrt_append)
  with l show ?thesis
    unfolding history_inv_def by (intro exI [of _ pre] exI [of _ "mid @ [?r]"]) simp
qed

lemma history_rotate:
  assumes "b \<noteq> ''''" "\<forall>x\<in>set l. boot_id (entry_cursor x) \<noteq> b"
  shows "history_inv C (h\<lparr>hub_boot := b, hub_sequence := 0, record_bytes := 0, records := [],
           subscribers := f\<rparr>) (l @ [Rotated \<lparr>boot_id = b, event_sequence = 0, message_sequence = m\<rparr>])"
  using assms unfolding history_inv_def
  by (intro exI [of _ "l @ [Rotated \<lparr>boot_id = b, event_sequence = 0, message_sequence = m\<rparr>]"] exI [of _ "[]"])
    (auto simp: epoch_def)

lemma bounds_publish:
  "bounds_inv h \<Longrightarrow> bounds_inv (fan_out f (trim (append_record C c e data h)))"
  using trim_bounds [of "append_record C c e data h"]
  by (simp add: bounds_inv_def append_record_def fan_out_def)

subsection \<open>Subscribers\<close>

definition inflight :: "'e subscriber \<Rightarrow> 'e delivery list" where
  "inflight s = (case runner s of Holding d \<Rightarrow> [d] | _ \<Rightarrow> [])"

definition sub_bounds :: "'e subscriber \<Rightarrow> bool" where
  "sub_bounds s \<longleftrightarrow> 1 \<le> capacity s \<and> int (length (queue s)) \<le> capacity s \<and>
     queue_bytes s = sum_list (map snd (queue s)) \<and> (\<forall>q\<in>set (queue s). 0 \<le> snd q) \<and>
     (queue_bytes s \<le> sub_max_bytes s \<or> length (queue s) = 1) \<and> 0 \<le> sub_max_bytes s"

definition awake :: "'e subscriber \<Rightarrow> bool" where
  "awake s \<longleftrightarrow> \<not> sub_closed s \<and> (runner s = Waiting \<and> queue s \<noteq> [] \<longrightarrow> notified s)"

definition stream_inv :: "'e entry list \<Rightarrow> nat \<Rightarrow> 'e delivery list \<Rightarrow> 'e subscriber \<Rightarrow> bool" where
  "stream_inv l i ds s \<longleftrightarrow> explains l i (ds @ inflight s @ map fst (queue s)) (length l)"

lemma stream_run:
  assumes "stream_inv l i ds s" "run_subscriber s = Some s'"
  shows "stream_inv l i (ds @ emits s) s'"
  using assms unfolding stream_inv_def
  by (cases "runner s")
    (auto simp: run_subscriber_def emits_def inflight_def split: if_splits list.splits)

lemma run_bounds: "run_subscriber s = Some s' \<Longrightarrow> sub_bounds s \<Longrightarrow> sub_bounds s'"
  by (cases "runner s")
    (auto simp: run_subscriber_def sub_bounds_def split: if_splits list.splits)

lemma run_awake: "run_subscriber s = Some s' \<Longrightarrow> awake s \<Longrightarrow> awake s'"
  by (cases "runner s")
    (auto simp: run_subscriber_def awake_def split: if_splits list.splits)

lemma stream_gap:
  assumes s: "stream_inv l i ds s" and i: "i \<le> length l" and c: "entry_cursor x = c"
  shows "stream_inv (l @ [x]) i ds (wake (replace_with_gap C why old c s))"
proof -
  obtain j where j: "explains l i (ds @ inflight s) j"
    using explains_split [of l i "ds @ inflight s" "map fst (queue s)"] s by (auto simp: stream_inv_def)
  from explains_bound [OF j i] have "j \<le> length l" .
  with c have "explains (l @ [x]) j [GapDelivery \<lparr>gap_reason = why, requested = delivered s,
      oldest_available = old, gap_current = c\<rparr>] (length (l @ [x]))"
    by (intro explains.skip [of _ "length (l @ [x])"]) (auto intro: explains.intros)
  from explains_append [OF explains_log [OF j] this] show ?thesis
    by (simp add: stream_inv_def wake_def replace_with_gap_def Let_def inflight_def)
qed

lemma stream_record:
  assumes "stream_inv l i ds s" "i \<le> length l" "\<not> sub_closed s"
  shows "stream_inv (l @ [Published r]) i ds (enqueue_record C r n old (rec_cursor r) s)"
proof -
  have "explains (l @ [Published r]) (length l) [RecordDelivery r] (length (l @ [Published r]))"
    by (rule explains.next) (auto intro: explains.intros)
  from explains_append [OF explains_log this, of i "ds @ inflight s @ map fst (queue s)"] assms
  have "stream_inv (l @ [Published r]) i ds
      (wake (s\<lparr>queue := queue s @ [(RecordDelivery r, n)], queue_bytes := queue_bytes s + n\<rparr>))"
    by (simp add: stream_inv_def wake_def inflight_def)
  with stream_gap [OF assms(1,2), of "Published r" "rec_cursor r" C] assms(3) show ?thesis
    by (simp add: enqueue_record_def entry_cursor_def)
qed

lemma gap_bounds: "sub_bounds s \<Longrightarrow> sub_bounds (wake (replace_with_gap C why old c s))"
  by (simp add: sub_bounds_def wake_def replace_with_gap_def Let_def)

lemma record_bounds: "sub_bounds s \<Longrightarrow> 0 \<le> n \<Longrightarrow> sub_bounds (enqueue_record C r n old c s)"
  using gap_bounds [of s C GapSubscriberOverflow old c]
  by (auto simp: enqueue_record_def) (simp add: sub_bounds_def wake_def)

lemma enqueue_gap_bounds: "sub_bounds s \<Longrightarrow> sub_bounds (enqueue_gap C why old c s)"
  using gap_bounds [of s C why old c] by (simp add: enqueue_gap_def)

lemma enqueue_awake:
  "awake s \<Longrightarrow> awake (enqueue_record C r n old c s)"
  "awake s \<Longrightarrow> awake (enqueue_gap C why old c s)"
  by (auto simp: enqueue_record_def enqueue_gap_def awake_def wake_def replace_with_gap_def Let_def)

section \<open>The system invariant\<close>

definition sub_inv :: "('e, 'd) hub_system \<Rightarrow> nat \<Rightarrow> 'e subscriber \<Rightarrow> bool" where
  "sub_inv s i u \<longleftrightarrow> sub_bounds u \<and> awake u \<and> begun s i \<le> length (log s) \<and>
     stream_inv (log s) (begun s i) (got s i) u"

definition hub_inv :: "('e, 'd) codec \<Rightarrow> ('e, 'd) hub_system \<Rightarrow> bool" where
  "hub_inv C s \<longleftrightarrow> history_inv C (the_hub s) (log s) \<and> bounds_inv (the_hub s) \<and>
     (\<forall>i u. subscribers (the_hub s) i = Some u \<longrightarrow> sub_inv s i u)"

lemma hub_inv_start:
  assumes "new_hub random boot initial maxr maxb = Inr h" "random \<noteq> Some ''''"
  shows "hub_inv C \<lparr>the_hub = h, log = [], begun = (\<lambda>_. 0), got = (\<lambda>_. [])\<rparr>"
proof -
  from assms have "hub_boot h \<noteq> []" and h: "records h = []" "subscribers h = Map.empty"
    "record_bytes h = 0" "1 \<le> max_records h" "1 \<le> max_bytes h"
    by (auto simp: new_hub_def Let_def split: if_splits option.splits)
  then have "history_inv C h []"
    unfolding history_inv_def by (intro exI [of _ "[]"]) (simp add: epoch_def)
  with h show ?thesis by (simp add: hub_inv_def bounds_inv_def)
qed

lemma hub_inv_publish:
  assumes inv: "hub_inv C s" and ok: "codec_ok C" and copied: "copy_event C e = Some copied"
    and pub: "publish C e (the_hub s) = (Inr c, h)"
  shows "hub_inv C (s\<lparr>the_hub := h, log := log s @ [Published \<lparr>rec_cursor = c, rec_event = copied\<rparr>]\<rparr>)"
proof -
  let ?r = "\<lparr>rec_cursor = c, rec_event = copied\<rparr>"
  obtain data old where p: "encode_record C ?r = Some data"
    "h = fan_out (enqueue_record C (decode_record C data) (int (data_length C data)) old c)
            (trim (append_record C c copied data (the_hub s)))"
    "boot_id c = hub_boot (the_hub s)" "event_sequence c = hub_sequence (the_hub s) + 1"
    using publish_ok [OF pub] copied by (metis option.inject)
  have dec: "decode_record C data = ?r" using ok copied p(1) by (auto simp: codec_ok_def)
  have "history_inv C h (log s @ [Published ?r])"
    using history_publish [OF _ p(3,4) dec] inv unfolding p(2) hub_inv_def by blast
  moreover have "bounds_inv h"
    unfolding p(2) using inv by (intro bounds_publish) (simp add: hub_inv_def)
  moreover have "sub_inv (s\<lparr>the_hub := h, log := log s @ [Published ?r]\<rparr>) i u"
    if u: "subscribers h i = Some u" for i u
  proof -
    from u obtain v where v: "subscribers (the_hub s) i = Some v"
      and u: "u = enqueue_record C ?r (int (data_length C data)) old (rec_cursor ?r) v"
      by (auto simp: p(2) dec fan_out_def append_record_def)
    from v inv have "sub_inv s i v" by (auto simp: hub_inv_def)
    then have iv: "sub_bounds v" "awake v" "begun s i \<le> length (log s)"
      "stream_inv (log s) (begun s i) (got s i) v" by (simp_all add: sub_inv_def)
    then have "stream_inv (log s @ [Published ?r]) (begun s i) (got s i) u"
      unfolding u by (intro stream_record) (simp_all add: awake_def)
    moreover have "sub_bounds u" "awake u"
      unfolding u using iv by (simp_all add: record_bounds enqueue_awake)
    ultimately show ?thesis using iv by (simp add: sub_inv_def)
  qed
  ultimately show ?thesis by (simp add: hub_inv_def)
qed

lemma hub_inv_invalidate:
  assumes inv: "hub_inv C s" and fresh: "fresh_boot b s"
    and rot: "invalidate C why (Some b) (the_hub s) = (Inr c, h)"
  shows "hub_inv C (s\<lparr>the_hub := h, log := log s @ [Rotated c]\<rparr>)"
proof -
  let ?g = "enqueue_gap C why c c"
  have c: "c = \<lparr>boot_id = b, event_sequence = 0, message_sequence = hub_message (the_hub s)\<rparr>"
    and h: "h = (the_hub s)\<lparr>hub_boot := b, hub_sequence := 0, record_bytes := 0, records := [],
      subscribers := (\<lambda>i. map_option ?g (subscribers (the_hub s) i))\<rparr>"
    using rot by (auto simp: invalidate_def Let_def current_def split: if_splits)
  have "history_inv C h (log s @ [Rotated c])"
    unfolding h c by (rule history_rotate) (use fresh in \<open>auto simp: fresh_boot_def\<close>)
  moreover have "bounds_inv h" using inv by (simp add: h hub_inv_def bounds_inv_def)
  moreover have "sub_inv (s\<lparr>the_hub := h, log := log s @ [Rotated c]\<rparr>) i u"
    if u: "subscribers h i = Some u" for i u
  proof -
    from u obtain v where v: "subscribers (the_hub s) i = Some v" and u: "u = ?g v"
      by (auto simp: h)
    from v inv have v: "sub_inv s i v" by (auto simp: hub_inv_def)
    then have g: "?g v = wake (replace_with_gap C why c c v)"
      by (simp add: enqueue_gap_def sub_inv_def awake_def)
    from v have "stream_inv (log s @ [Rotated c]) (begun s i) (got s i) (?g v)"
      using stream_gap [of "log s" "begun s i" "got s i" v "Rotated c" c C why c]
      by (simp add: g sub_inv_def entry_cursor_def)
    moreover have "sub_bounds (?g v)" "awake (?g v)"
      using v by (simp_all add: sub_inv_def enqueue_gap_bounds enqueue_awake)
    ultimately show ?thesis using v by (simp add: sub_inv_def u)
  qed
  ultimately show ?thesis by (simp add: hub_inv_def)
qed

lemma hub_inv_subscribe:
  assumes inv: "hub_inv C s" and sub: "subscribe C after cap (the_hub s) = (Inr p, h)"
  shows "hub_inv C (s\<lparr>the_hub := h, begun := (begun s)(sub_id p := length (log s)),
                    got := (got s)(sub_id p := [])\<rparr>)"
proof -
  have h: "h = (the_hub s)\<lparr>next_subscriber := sub_id p, subscribers := (subscribers (the_hub s))
      (sub_id p \<mapsto> new_subscriber cap (max_bytes (the_hub s)) (current (the_hub s)))\<rparr>" and "1 \<le> cap"
    using sub by (auto simp: subscribe_def Let_def split_beta split: if_splits)
  then have "history_inv C (the_hub s) (log s) \<Longrightarrow> history_inv C h (log s)"
    by (intro history_inv_cong [of h "the_hub s"]) simp_all
  with inv h have "history_inv C h (log s)" "bounds_inv h"
    by (auto simp: hub_inv_def bounds_inv_def)
  moreover have "sub_inv (s\<lparr>the_hub := h, begun := (begun s)(sub_id p := length (log s)),
      got := (got s)(sub_id p := [])\<rparr>) i u" if "subscribers h i = Some u" for i u
  proof (cases "i = sub_id p")
    case True
    with that have "u = new_subscriber cap (max_bytes (the_hub s)) (current (the_hub s))"
      by (simp add: h)
    with True \<open>1 \<le> cap\<close> inv show ?thesis
      by (simp add: sub_inv_def new_subscriber_def sub_bounds_def awake_def stream_inv_def
          inflight_def hub_inv_def bounds_inv_def explains.nothing)
  next
    case False
    with that inv have "sub_inv s i u" by (simp add: h hub_inv_def)
    with False show ?thesis by (simp add: sub_inv_def)
  qed
  ultimately show ?thesis by (simp add: hub_inv_def)
qed

lemma hub_inv_delivery:
  assumes inv: "hub_inv C s" and u: "subscribers (the_hub s) i = Some u" and run: "run_subscriber u = Some u'"
  shows "hub_inv C (s\<lparr>the_hub := (the_hub s)\<lparr>subscribers := (subscribers (the_hub s))(i \<mapsto> u')\<rparr>,
                    got := (got s)(i := got s i @ emits u)\<rparr>)" (is "hub_inv C ?t")
proof -
  have "sub_inv s i u" using inv u by (simp add: hub_inv_def)
  then have "sub_inv ?t i u'"
    using stream_run [OF _ run] run_bounds [OF run] run_awake [OF run] by (simp add: sub_inv_def)
  moreover have "sub_inv ?t j v" if "sub_inv s j v" "j \<noteq> i" for j v
    using that by (simp add: sub_inv_def)
  moreover have "history_inv C (the_hub ?t) (log s)"
    by (rule history_inv_cong [of _ "the_hub s"]) (use inv in \<open>simp_all add: hub_inv_def\<close>)
  ultimately show ?thesis using inv by (simp add: hub_inv_def bounds_inv_def)
qed

lemma hub_inv_frame:
  assumes "hub_inv C s" "hub_boot h = hub_boot (the_hub s)" "records h = records (the_hub s)"
    "hub_sequence (the_hub s) \<le> hub_sequence h" "max_records h = max_records (the_hub s)"
    "max_bytes h = max_bytes (the_hub s)" "record_bytes h = record_bytes (the_hub s)"
    "\<And>i u. subscribers h i = Some u \<Longrightarrow> subscribers (the_hub s) i = Some u"
  shows "hub_inv C (s\<lparr>the_hub := h\<rparr>)"
proof -
  have "history_inv C h (log s)"
    by (rule history_inv_cong [of _ "the_hub s"]) (use assms in \<open>simp_all add: hub_inv_def\<close>)
  moreover have "sub_inv (s\<lparr>the_hub := h\<rparr>) i u" if "subscribers h i = Some u" for i u
    using assms(1) assms(8) [OF that] by (simp add: hub_inv_def sub_inv_def)
  ultimately show ?thesis using assms by (simp add: hub_inv_def bounds_inv_def)
qed

lemma publish_error:
  assumes "publish C e h = (Inl x, h')"
  obtains n m where "h' = h\<lparr>hub_sequence := n, hub_message := m\<rparr>" "hub_sequence h \<le> n"
proof (cases "copy_event C e")
  case None
  with assms that [where n = "hub_sequence h" and m = "hub_message h"] show ?thesis by (simp add: publish_def)
next
  case (Some copied)
  obtain m where m: "note_message C copied (h\<lparr>hub_sequence := Suc (hub_sequence h)\<rparr>) =
      h\<lparr>hub_sequence := Suc (hub_sequence h), hub_message := m\<rparr>" by (rule note_message)
  show ?thesis
  proof (cases "hub_closed h")
    case True
    with Some assms that [where n = "hub_sequence h" and m = "hub_message h"] show ?thesis by (simp add: publish_def)
  next
    case False
    with Some assms that [where n = "Suc (hub_sequence h)" and m = m] show ?thesis
      by (auto simp: publish_def Let_def m split: option.splits)
  qed
qed

lemma hub_inv_step: "hub_step C s t \<Longrightarrow> codec_ok C \<Longrightarrow> hub_inv C s \<Longrightarrow> hub_inv C t"
proof (induction rule: hub_step.induct)
  case (published e s c h copied)
  then show ?case by (intro hub_inv_publish)
next
  case (publish_failed e s x h)
  obtain n m where "h = (the_hub s)\<lparr>hub_sequence := n, hub_message := m\<rparr>" "hub_sequence (the_hub s) \<le> n"
    by (rule publish_error [OF publish_failed(1)])
  with publish_failed show ?case by (intro hub_inv_frame) simp_all
next
  case (invalidated why b s c h)
  then show ?case by (intro hub_inv_invalidate)
next
  case (subscribed after cap s p h)
  then show ?case by (intro hub_inv_subscribe)
next
  case (cancelled i s x h)
  then have "h = (the_hub s)\<lparr>subscribers := (subscribers (the_hub s))(i := None)\<rparr>"
    by (simp add: cancel_def)
  with cancelled show ?case by (intro hub_inv_frame) (simp_all split: if_splits)
next
  case (closed s)
  then show ?case by (intro hub_inv_frame) (simp_all add: close_def split: if_splits)
next
  case (delivery s i u u')
  then show ?case by (intro hub_inv_delivery)
qed

lemma hub_inv_reachable: "hub_reachable C s \<Longrightarrow> codec_ok C \<Longrightarrow> hub_inv C s"
  by (induction rule: hub_reachable.induct) (auto intro: hub_inv_start hub_inv_step)

subsection \<open>A replay\<close>

lemma sorted_suffix:
  fixes f :: "'a \<Rightarrow> nat"
  assumes "sorted_wrt (<) (map f xs)" "k < length xs" "a = f (xs ! k)"
  shows "filter (\<lambda>x. a < f x) xs = drop (Suc k) (xs :: 'a list)"
proof -
  have "xs = take (Suc k) xs @ drop (Suc k) xs" by simp
  moreover have "filter (\<lambda>x. a < f x) (take (Suc k) xs) = []"
    using assms by (auto simp: filter_empty_conv in_set_conv_nth sorted_wrt_iff_nth_less less_Suc_eq)
      (metis not_less_iff_gr_or_eq order_less_trans)
  moreover have "filter (\<lambda>x. a < f x) (drop (Suc k) xs) = drop (Suc k) xs"
    using assms by (auto simp: filter_id_conv in_set_conv_nth sorted_wrt_iff_nth_less)
  ultimately show ?thesis by (metis append_Nil filter_append)
qed

lemma retained_enough:
  fixes f :: "'a \<Rightarrow> nat"
  assumes "sorted_wrt (<) (map f mid)" "n \<le> length mid"
    "n < length mid \<Longrightarrow> f (mid ! n) \<le> Suc a" "n = length mid \<Longrightarrow> \<forall>r\<in>set mid. f r \<le> a"
  shows "filter (\<lambda>r. a < f r) (drop n mid) = filter (\<lambda>r. a < f r) (mid :: 'a list)"
proof -
  have "f (mid ! i) \<le> a" if "i < n" for i
  proof (cases "n < length mid")
    case True
    then have "f (mid ! i) < f (mid ! n)"
      using assms(1) that by (simp add: sorted_wrt_iff_nth_less)
    with assms(3) [OF True] show ?thesis by simp
  next
    case False
    with assms(2,4) that show ?thesis by simp
  qed
  then have "filter (\<lambda>r. a < f r) (take n mid) = []"
    using assms(2) by (auto simp: filter_empty_conv in_set_conv_nth not_less)
  then show ?thesis by (metis append_Nil append_take_drop_id filter_append)
qed

lemma epoch_position:
  assumes e: "epoch C h pre mid" and k: "k < length (pre @ map Published mid)"
    and b: "boot_id (entry_cursor ((pre @ map Published mid) ! k)) = hub_boot h"
  shows "drop (Suc k) (pre @ map Published mid) =
    map Published (filter (\<lambda>r. event_sequence (entry_cursor ((pre @ map Published mid) ! k)) < seq_of r) mid)"
proof (cases "k < length pre")
  case True
  then obtain p c where pre: "pre = p @ [Rotated c]" "event_sequence c = 0"
    "\<forall>x\<in>set p. boot_id (entry_cursor x) \<noteq> hub_boot h"
    using e by (auto simp: epoch_def)
  have "k = length p"
  proof (rule ccontr)
    assume "k \<noteq> length p"
    with True pre(1) have "k < length p" by simp
    with pre(3) b show False by (simp add: pre(1) nth_append)
  qed
  moreover have "filter (\<lambda>r. 0 < seq_of r) mid = mid"
    using e by (simp add: epoch_def filter_id_conv)
  ultimately show ?thesis by (simp add: pre nth_append entry_cursor_def)
next
  case False
  define j where "j = k - length pre"
  have j: "j < length mid" "k = length pre + j" using False k by (simp_all add: j_def)
  have "filter (\<lambda>r. seq_of (mid ! j) < seq_of r) mid = drop (Suc j) mid"
    using e j(1) by (intro sorted_suffix) (simp_all add: epoch_def)
  with j show ?thesis by (simp add: nth_append entry_cursor_def drop_map)
qed

lemma replay_epoch:
  assumes e: "epoch C h pre mid" and z: "\<not> is_zero after" and r: "replay C after h = (rs, None)"
  shows "boot_id after = hub_boot h \<and> rs = filter (\<lambda>r. event_sequence after < seq_of r) mid"
proof -
  let ?a = "event_sequence after"
  have b: "boot_id after = hub_boot h" and le: "?a \<le> hub_sequence h"
    and ok: "?a < hub_sequence h \<longrightarrow> records h \<noteq> [] \<and> event_sequence (oldest h) \<le> Suc ?a"
    and rs: "rs = map (\<lambda>v. decode_record C (ret_data v))
      (filter (\<lambda>v. ?a < seq_of (ret_record v)) (records h))"
    using z r by (auto simp: replay_def Let_def current_def split: if_splits)
  obtain n where n: "n \<le> length mid" "map ret_record (records h) = drop n mid"
    using e by (auto simp: epoch_def)
  have len: "length (records h) = length mid - n" using n(2) by (metis length_drop length_map)
  have "rs = map ret_record (filter (\<lambda>v. ?a < seq_of (ret_record v)) (records h))"
    using e unfolding rs by (auto simp: epoch_def)
  also have "\<dots> = filter (\<lambda>r. ?a < seq_of r) (drop n mid)"
    unfolding n(2) [symmetric] by (simp add: filter_map comp_def)
  also have "\<dots> = filter (\<lambda>r. ?a < seq_of r) mid"
  proof (rule retained_enough)
    show "sorted_wrt (<) (map seq_of mid)" using e by (simp add: epoch_def)
    show "n \<le> length mid" by (rule n)
    assume "n < length mid"
    then have "records h \<noteq> []" using len by auto
    then obtain v vs where v: "records h = v # vs" by (cases "records h") auto
    then have "ret_record v = mid ! n" using n \<open>n < length mid\<close> by (simp add: Cons_nth_drop_Suc [symmetric])
    then have old: "event_sequence (oldest h) = seq_of (mid ! n)" by (simp add: oldest_def v)
    show "seq_of (mid ! n) \<le> Suc ?a"
    proof (cases "?a < hub_sequence h")
      case True
      with ok old show ?thesis by simp
    next
      case False
      have "mid ! n \<in> set mid" using \<open>n < length mid\<close> by simp
      with e have "seq_of (mid ! n) \<le> hub_sequence h" unfolding epoch_def by blast
      with False show ?thesis by simp
    qed
  next
    assume "n = length mid"
    then have "records h = []" using len by simp
    with ok le have "?a = hub_sequence h" by auto
    then show "\<forall>r\<in>set mid. seq_of r \<le> ?a" using e by (auto simp: epoch_def)
  qed
  finally show ?thesis using b by simp
qed

section \<open>Properties\<close>

text \<open>C12. No silent loss on resume: when a consumer resumes from the cursor of an announced entry
  and the hub answers without a gap, the replay is exactly the records published after that entry,
  all of them and in order, and nothing but records was announced since.\<close>

theorem replay_complete:
  assumes "hub_reachable C s" "codec_ok C" "k < length (log s)"
    and "replay C (entry_cursor (log s ! k)) (the_hub s) = (rs, None)"
    and "\<not> is_zero (entry_cursor (log s ! k))"
  shows "map Published rs = drop (Suc k) (log s)"
proof -
  obtain pre mid where l: "log s = pre @ map Published mid" and e: "epoch C (the_hub s) pre mid"
    using hub_inv_reachable [OF assms(1,2)] by (auto simp: hub_inv_def history_inv_def)
  from replay_epoch [OF e assms(5,4)] have
    b: "boot_id (entry_cursor (log s ! k)) = hub_boot (the_hub s)" and
    rs: "rs = filter (\<lambda>r. event_sequence (entry_cursor (log s ! k)) < seq_of r) mid" by simp_all
  from epoch_position [OF e, of k] assms(3) b show ?thesis by (simp add: l rs)
qed

text \<open>C30. No silent loss, duplication or reordering on a live stream: under every interleaving of
  publishers, invalidations, subscriptions and delivery goroutines, what a registered consumer has
  received, is being handed and still has queued covers the log from its subscription to its end,
  every skipped stretch being announced by a gap with the right \<open>Current\<close> cursor.\<close>

theorem live_stream_complete:
  assumes "hub_reachable C s" "codec_ok C" "subscribers (the_hub s) i = Some u"
  shows "explains (log s) (begun s i) (got s i @ inflight u @ map fst (queue u)) (length (log s))"
  using hub_inv_reachable [OF assms(1,2)] assms(3) by (simp add: hub_inv_def sub_inv_def stream_inv_def)

text \<open>Memory stays bounded and no wake-up is lost: the retained history stays within both of its
  limits and its byte count is exact; a queue holds at most its capacity, at most \<open>maxBytes\<close> bytes
  or a single delivery; and a goroutine that sleeps on a non-empty queue has a pending notification.\<close>

theorem hub_bounds:
  assumes "hub_reachable C s" "codec_ok C"
  shows "int (length (records (the_hub s))) \<le> max_records (the_hub s)
    \<and> record_bytes (the_hub s) = sum_list (map ret_bytes (records (the_hub s)))
    \<and> record_bytes (the_hub s) \<le> max_bytes (the_hub s)
    \<and> (\<forall>i u. subscribers (the_hub s) i = Some u \<longrightarrow>
         int (length (queue u)) \<le> capacity u
         \<and> queue_bytes u = sum_list (map snd (queue u))
         \<and> (queue_bytes u \<le> sub_max_bytes u \<or> length (queue u) = 1)
         \<and> (runner u = Waiting \<and> queue u \<noteq> [] \<longrightarrow> notified u))"
proof -
  have "int (length (queue u)) \<le> capacity u
      \<and> queue_bytes u = sum_list (map snd (queue u))
      \<and> (queue_bytes u \<le> sub_max_bytes u \<or> length (queue u) = 1)
      \<and> (runner u = Waiting \<and> queue u \<noteq> [] \<longrightarrow> notified u)"
    if "sub_bounds u" "awake u" for u :: "'a subscriber"
    using that unfolding sub_bounds_def awake_def by metis
  then show ?thesis
    using hub_inv_reachable [OF assms] unfolding hub_inv_def sub_inv_def bounds_inv_def by blast
qed

section \<open>Witnesses\<close>

text \<open>Events that carry at most a message number, encoded as themselves, ten bytes each.\<close>

definition sample_codec :: "(nat option, nat option event_record) codec" where
  "sample_codec = \<lparr>copy_event = Some, payload_message = id, encode_record = Some, decode_record = id,
     data_length = (\<lambda>_. 10), gap_length = (\<lambda>_. 5)\<rparr>"

lemma sample_codec_ok: "codec_ok sample_codec"
  by (simp add: codec_ok_def sample_codec_def)

definition publish_system :: "('e, 'd) codec \<Rightarrow> 'e \<Rightarrow> ('e, 'd) hub_system \<Rightarrow> ('e, 'd) hub_system" where
  "publish_system C e s =
     (case (publish C e (the_hub s), copy_event C e) of
        ((Inr c, h), Some copied) \<Rightarrow>
          s\<lparr>the_hub := h, log := log s @ [Published \<lparr>rec_cursor = c, rec_event = copied\<rparr>]\<rparr>
      | _ \<Rightarrow> s)"

definition subscribe_system :: "('e, 'd) codec \<Rightarrow> cursor \<Rightarrow> int \<Rightarrow> ('e, 'd) hub_system \<Rightarrow> ('e, 'd) hub_system" where
  "subscribe_system C after cap s =
     (case subscribe C after cap (the_hub s) of
        (Inr p, h) \<Rightarrow> s\<lparr>the_hub := h, begun := (begun s)(sub_id p := length (log s)),
                        got := (got s)(sub_id p := [])\<rparr>
      | _ \<Rightarrow> s)"

definition sample_start :: "(nat option, nat option event_record) hub_system" where
  "sample_start = \<lparr>the_hub = \<lparr>hub_boot = ''b'', hub_sequence = 0, hub_message = 0, max_records = 2,
       max_bytes = 100, record_bytes = 0, records = [], next_subscriber = 0,
       subscribers = Map.empty, hub_closed = False\<rparr>,
     log = [], begun = (\<lambda>_. 0), got = (\<lambda>_. [])\<rparr>"

definition sample_system :: "(nat option, nat option event_record) hub_system" where
  "sample_system =
     publish_system sample_codec (Some 8) (publish_system sample_codec (Some 7)
       (subscribe_system sample_codec \<lparr>boot_id = [], event_sequence = 0, message_sequence = 0\<rparr> 1
         (publish_system sample_codec None sample_start)))"

lemma reach_publish: "hub_reachable C s \<Longrightarrow> hub_reachable C (publish_system C e s)"
  by (auto simp: publish_system_def split: prod.split sum.split option.split
      intro: hub_next hub_step.published)

lemma reach_subscribe: "hub_reachable C s \<Longrightarrow> hub_reachable C (subscribe_system C after cap s)"
  by (auto simp: subscribe_system_def split: prod.split sum.split
      intro: hub_next hub_step.subscribed)

lemma sample_reachable: "hub_reachable sample_codec sample_system"
proof -
  have "hub_reachable sample_codec sample_start"
    unfolding sample_start_def
    by (rule hub_start [of "Some ''r''" "''b''" 0 2 100]) (simp_all add: new_hub_def)
  then show ?thesis unfolding sample_system_def by (intro reach_publish reach_subscribe)
qed

lemma sample_replay:
  "replay sample_codec (entry_cursor (log sample_system ! 0)) (the_hub sample_system) =
     (map (\<lambda>n. \<lparr>rec_cursor = \<lparr>boot_id = ''b'', event_sequence = n - 5, message_sequence = n\<rparr>,
               rec_event = Some n\<rparr>) [7, 8], None)"
  by code_simp

lemma replay_complete_witness:
  "length (drop (Suc 0) (log sample_system)) = 2 \<and>
   map Published (fst (replay sample_codec (entry_cursor (log sample_system ! 0)) (the_hub sample_system))) =
     drop (Suc 0) (log sample_system)"
proof -
  have n: "length (drop (Suc 0) (log sample_system)) = 2" by code_simp
  then have h0: "0 < length (log sample_system)" by (cases "log sample_system") auto
  have h1: "\<not> is_zero (entry_cursor (log sample_system ! 0))" by code_simp
  from replay_complete [OF sample_reachable sample_codec_ok h0 sample_replay h1] n
  show ?thesis by (simp only: sample_replay fst_conv simp_thms)
qed

text \<open>The subscriber of capacity one overflows: its queue is the gap that covers both records.\<close>

lemma live_stream_complete_witness:
  "\<exists>u. subscribers (the_hub sample_system) 1 = Some u \<and>
     map (\<lambda>d. gap_reason (case fst d of GapDelivery g \<Rightarrow> g)) (queue u) = [GapSubscriberOverflow] \<and>
     explains (log sample_system) (begun sample_system 1)
       (got sample_system 1 @ inflight u @ map fst (queue u)) (length (log sample_system))"
proof -
  have u: "subscribers (the_hub sample_system) 1 \<noteq> None" by code_simp
  then obtain u where u: "subscribers (the_hub sample_system) 1 = Some u" by blast
  have "map_option (\<lambda>u. map (\<lambda>d. gap_reason (case fst d of GapDelivery g \<Rightarrow> g)) (queue u))
      (subscribers (the_hub sample_system) 1) = Some [GapSubscriberOverflow]"
    by code_simp
  with u live_stream_complete [OF sample_reachable sample_codec_ok u] show ?thesis by auto
qed

lemma hub_bounds_witness:
  "int (length (records (the_hub sample_system))) \<le> 2 \<and> record_bytes (the_hub sample_system) \<le> 100"
proof -
  have "max_records (the_hub sample_system) = 2" "max_bytes (the_hub sample_system) = 100"
    by code_simp+
  with hub_bounds [OF sample_reachable sample_codec_ok] show ?thesis by auto
qed

end
