(* ===== verification/Encodings.thy ===== *)
theory Encodings
  imports Mo_Prelude
begin

text \<open>
  The byte encodings of the Go standard library the stores use: hexadecimal, base32 and base64
  without padding, and the UTF-8 decoding a \<open>range\<close> loop over a string performs.
\<close>

section \<open>Hexadecimal\<close>

definition hex_digit :: "nat \<Rightarrow> char" where
  "hex_digit n = (if n < 10 then char_of (48 + n) else char_of (87 + n))"

definition hex_value :: "char \<Rightarrow> nat option" where
  "hex_value c =
     (let n = (of_char c :: nat)
      in if 48 \<le> n \<and> n \<le> 57 then Some (n - 48)
         else if 97 \<le> n \<and> n \<le> 102 then Some (n - 87)
         else if 65 \<le> n \<and> n \<le> 70 then Some (n - 55) else None)"

definition hex_encode :: "string \<Rightarrow> string" where
  "hex_encode s = concat (map (\<lambda>c. [hex_digit (of_char c div 16), hex_digit (of_char c mod 16)]) s)"

fun hex_decode :: "string \<Rightarrow> string option" where
  "hex_decode [] = Some []"
| "hex_decode [_] = None"
| "hex_decode (a # b # s) =
     (case (hex_value a, hex_value b, hex_decode s) of
        (Some h, Some l, Some t) \<Rightarrow> Some (char_of (16 * h + l) # t)
      | _ \<Rightarrow> None)"

lemma hex_value_digit: "n < 16 \<Longrightarrow> hex_value (hex_digit n) = Some n"
  by (auto simp: hex_value_def hex_digit_def Let_def of_char_of)

lemma high_nibble: "(of_char c :: nat) div 16 < 16"
  using nat_of_char_less_256 [of c] by (simp add: less_mult_imp_div_less)

lemma hex_decode_encode: "hex_decode (hex_encode s) = Some s"
proof (induction s)
  case (Cons c s)
  have "(of_char c :: nat) div 16 < 16" by (rule high_nibble)
  then have "hex_decode (hex_encode (c # s)) = Some (char_of (of_char c :: nat) # s)"
    using Cons by (simp add: hex_encode_def hex_value_digit)
  then show ?case by simp
qed (simp add: hex_encode_def)

lemma hex_encode_inj: "hex_encode s = hex_encode t \<longleftrightarrow> s = t"
  by (metis hex_decode_encode option.inject)

lemma length_hex_encode: "length (hex_encode s) = 2 * length s"
  by (induction s) (simp_all add: hex_encode_def)

lemma hex_encode_alphabet: "c \<in> set (hex_encode s) \<Longrightarrow> \<exists>n<16. c = hex_digit n"
proof -
  assume "c \<in> set (hex_encode s)"
  then obtain x where "c = hex_digit (of_char x div 16) \<or> c = hex_digit (of_char x mod 16)"
    by (auto simp: hex_encode_def)
  moreover have "(of_char x :: nat) div 16 < 16" by (rule high_nibble)
  moreover have "(of_char x :: nat) mod 16 < 16" by simp
  ultimately show ?thesis by blast
qed

section \<open>Base32 and base64 without padding\<close>

text \<open>The bits of the bytes, most significant first, cut into groups padded with zeros.\<close>

definition byte_bits :: "char \<Rightarrow> bool list" where
  "byte_bits c = map (\<lambda>i. (of_char c div 2 ^ i) mod 2 = (1::nat)) (rev [0..<8])"

definition bits_value :: "bool list \<Rightarrow> nat" where
  "bits_value bs = foldl (\<lambda>n b. 2 * n + (if b then 1 else 0)) 0 bs"

fun group_bits :: "nat \<Rightarrow> nat \<Rightarrow> bool list \<Rightarrow> nat list" where
  "group_bits 0 k bs = []"
| "group_bits (Suc fuel) k bs =
     (if bs = [] then []
      else bits_value (take k (bs @ replicate k False)) # group_bits fuel k (drop k bs))"

definition base_encode :: "nat \<Rightarrow> string \<Rightarrow> string \<Rightarrow> string" where
  "base_encode k alphabet s =
     (let bs = concat (map byte_bits s) in map (\<lambda>n. alphabet ! n) (group_bits (length bs) k bs))"

definition base32_alphabet :: string where "base32_alphabet = ''ABCDEFGHIJKLMNOPQRSTUVWXYZ234567''"
definition base64_alphabet :: string where
  "base64_alphabet = ''ABCDEFGHIJKLMNOPQRSTUVWXYZabcdefghijklmnopqrstuvwxyz0123456789-_''"

definition base32 :: "string \<Rightarrow> string" where "base32 = base_encode 5 base32_alphabet"
definition base64_url :: "string \<Rightarrow> string" where "base64_url = base_encode 6 base64_alphabet"

lemma bits_value_less: "bits_value bs < 2 ^ length bs"
proof (induction bs rule: rev_induct)
  case (snoc b bs)
  then show ?case by (simp add: bits_value_def)
qed (simp add: bits_value_def)

lemma group_bits_less: "n \<in> set (group_bits fuel k bs) \<Longrightarrow> n < 2 ^ k"
proof (induction fuel k bs rule: group_bits.induct)
  case (2 fuel k bs)
  have "length (take k (bs @ replicate k False)) = k" by simp
  with bits_value_less [of "take k (bs @ replicate k False)"]
  have "bits_value (take k (bs @ replicate k False)) < 2 ^ k" by simp
  with 2 show ?case by (auto split: if_splits)
qed simp

lemma base32_alphabet_chars: "c \<in> set (base32 s) \<Longrightarrow> c \<in> set base32_alphabet"
proof -
  assume "c \<in> set (base32 s)"
  then obtain n fuel bs where c: "n \<in> set (group_bits fuel 5 bs)" "c = base32_alphabet ! n"
    by (auto simp: base32_def base_encode_def Let_def)
  moreover have "length base32_alphabet = 2 ^ 5" by (simp add: base32_alphabet_def)
  ultimately show ?thesis using group_bits_less nth_mem by metis
qed

section \<open>UTF-8\<close>

text \<open>The first rune of a valid encoding and the number of bytes it takes.\<close>

definition cont_byte :: "nat \<Rightarrow> nat \<Rightarrow> nat \<Rightarrow> bool" where
  "cont_byte lo hi b \<longleftrightarrow> lo \<le> b \<and> b \<le> hi"

definition first_rune :: "nat list \<Rightarrow> (nat \<times> nat) option" where
  "first_rune bs =
     (case bs of
        [] \<Rightarrow> None
      | a # r \<Rightarrow>
          if a < 0x80 then Some (a, 1)
          else if 0xC2 \<le> a \<and> a \<le> 0xDF then
            (case r of b # _ \<Rightarrow> if cont_byte 0x80 0xBF b then Some (64 * (a - 0xC0) + (b - 0x80), 2) else None
             | _ \<Rightarrow> None)
          else if 0xE0 \<le> a \<and> a \<le> 0xEF then
            (case r of b # c # _ \<Rightarrow>
               if cont_byte (if a = 0xE0 then 0xA0 else 0x80) (if a = 0xED then 0x9F else 0xBF) b
                  \<and> cont_byte 0x80 0xBF c
               then Some (4096 * (a - 0xE0) + 64 * (b - 0x80) + (c - 0x80), 3) else None
             | _ \<Rightarrow> None)
          else if 0xF0 \<le> a \<and> a \<le> 0xF4 then
            (case r of b # c # d # _ \<Rightarrow>
               if cont_byte (if a = 0xF0 then 0x90 else 0x80) (if a = 0xF4 then 0x8F else 0xBF) b
                  \<and> cont_byte 0x80 0xBF c \<and> cont_byte 0x80 0xBF d
               then Some (262144 * (a - 0xF0) + 4096 * (b - 0x80) + 64 * (c - 0x80) + (d - 0x80), 4)
               else None
             | _ \<Rightarrow> None)
          else None)"

text \<open>The runes of a valid UTF-8 string, \<open>None\<close> for an invalid one.\<close>

fun decode_runes :: "nat \<Rightarrow> nat list \<Rightarrow> nat list option" where
  "decode_runes 0 bs = (if bs = [] then Some [] else None)"
| "decode_runes (Suc fuel) bs =
     (if bs = [] then Some []
      else case first_rune bs of
             None \<Rightarrow> None
           | Some (x, n) \<Rightarrow> map_option ((#) x) (decode_runes fuel (drop n bs)))"

definition runes :: "string \<Rightarrow> nat list option" where
  "runes s = decode_runes (length s) (map of_char s)"

definition utf8_valid :: "string \<Rightarrow> bool" where
  "utf8_valid s \<longleftrightarrow> runes s \<noteq> None"

definition is_control :: "nat \<Rightarrow> bool" where
  "is_control r \<longleftrightarrow> r < 32 \<or> (127 \<le> r \<and> r < 160)"

end
