(* ===== verification/Device_Store.thy ===== *)
theory Device_Store
  imports Encodings "HOL-Library.Product_Lexorder"
begin

text \<open>
  The remote device store, \<^verbatim>\<open>internal/remote/device/store.go\<close>: durable invitations and grants,
  and the in-memory challenges and sessions derived from them.  Every operation runs under the
  store's lock, so a run of the store is a sequence of operations.

  What the operating system and the cryptographic library provide is an argument: SHA-256, the
  parsing and printing of ECDSA P-256 keys, signature verification, the RFC 3339 form of a time
  (record \<open>crypto\<close>), and for each call the clock, the bytes each read of the random source
  gives, and how the atomic file replacement ended (record \<open>env\<close>).  A Go map of challenges or
  sessions is the list of its values in iteration order.  A session's \<open>Done\<close> channel is
  identified by the session; the store lists those it has closed.
\<close>

section \<open>Constants and data\<close>

type_synonym scope = string

definition ScopeObserve :: scope where "ScopeObserve = ''observe''"
definition ScopeParticipate :: scope where "ScopeParticipate = ''participate''"
definition ScopeAdmin :: scope where "ScopeAdmin = ''admin''"

lemma scopes_distinct [simp]:
  "ScopeObserve \<noteq> ScopeParticipate" "ScopeParticipate \<noteq> ScopeObserve" "ScopeObserve \<noteq> ScopeAdmin"
  "ScopeAdmin \<noteq> ScopeObserve" "ScopeParticipate \<noteq> ScopeAdmin" "ScopeAdmin \<noteq> ScopeParticipate"
  by (simp_all add: ScopeObserve_def ScopeParticipate_def ScopeAdmin_def)

abbreviation CeilingReadOnly :: string where "CeilingReadOnly \<equiv> ''read-only''"

definition stateVersion :: string where "stateVersion = ''mohuddle.remote-devices.v1''"
definition defaultInvitationTTL :: duration where "defaultInvitationTTL = 15 * minute"
definition maximumInvitationTTL :: duration where "maximumInvitationTTL = 24 * hour"
definition defaultChallengeTTL :: duration where "defaultChallengeTTL = 2 * minute"
definition maximumChallengeTTL :: duration where "maximumChallengeTTL = 10 * minute"
definition defaultIdleTTL :: duration where "defaultIdleTTL = 15 * minute"
definition defaultAbsoluteTTL :: duration where "defaultAbsoluteTTL = 8 * hour"
definition maximumAbsoluteTTL :: duration where "maximumAbsoluteTTL = 24 * hour"

lemmas ttl_defs = defaultInvitationTTL_def maximumInvitationTTL_def defaultChallengeTTL_def
  maximumChallengeTTL_def defaultIdleTTL_def defaultAbsoluteTTL_def maximumAbsoluteTTL_def

record grant =
  grant_id :: string
  grant_name :: string
  grant_room :: string
  public_key_spki :: string
  grant_scopes :: "scope list"
  grant_ceiling :: string
  grant_created :: time
  grant_updated :: time
  revoked_at :: "time option"

definition active :: "grant \<Rightarrow> bool" where
  "active g \<longleftrightarrow> revoked_at g = None"

record invitation_record =
  inv_id :: string
  code_hash :: string
  inv_name :: string
  inv_room :: string
  inv_scopes :: "scope list"
  inv_ceiling :: string
  inv_created :: time
  inv_expires :: time

record persistent_state =
  version :: string
  invitations :: "invitation_record list"
  grants :: "grant list"

record invitation =
  invitation_id :: string
  invitation_code :: string
  invitation_expires :: time

record challenge =
  challenge_id :: string
  challenge_device :: string
  challenge_room :: string
  challenge_payload :: string
  challenge_expires :: time

record session =
  session_id :: string
  session_device :: string
  session_room :: string
  session_scopes :: "scope list"
  session_ceiling :: string
  session_created :: time
  last_seen :: time
  idle_expires :: time
  absolute_expires :: time

text \<open>A session record is a session with its two token hashes and its idle lifetime.\<close>

record session_record = session +
  token_hash :: string
  csrf_hash :: string
  idle_ttl :: duration

definition snapshot :: "session_record \<Rightarrow> session" where
  "snapshot r =
     \<lparr>session_id = session_id r, session_device = session_device r, session_room = session_room r,
      session_scopes = session_scopes r, session_ceiling = session_ceiling r,
      session_created = session_created r, last_seen = last_seen r,
      idle_expires = idle_expires r, absolute_expires = absolute_expires r\<rparr>"

record session_credentials =
  cred_token :: string
  cred_csrf :: string
  cred_session :: session

record device_store =
  store_state :: persistent_state
  disk :: persistent_state
  challenges :: "challenge list"
  sessions :: "session_record list"
  done_channels :: "string list"
  store_closed :: bool

record 'k crypto =
  sha256 :: "string \<Rightarrow> string"
  parse_key :: "string \<Rightarrow> 'k option"
  marshal_key :: "'k \<Rightarrow> string option"
  ecdsa_verify :: "'k \<Rightarrow> string \<Rightarrow> nat \<Rightarrow> nat \<Rightarrow> bool"
  format_time :: "time \<Rightarrow> string"

datatype save_outcome = Written | NotWritten | WrittenThenFailed

record env =
  now :: time
  draw :: "nat \<Rightarrow> string option"
  io :: save_outcome

datatype scope_error = DuplicateScope scope | InvalidScope scope | IncompleteScopes

datatype state_error =
  UnsupportedVersion | InvalidInvitation | InvalidInvitationScopes scope_error |
  InvalidGrant | InvalidGrantScopes scope_error | InvalidGrantKey | InvalidRevocation

datatype store_error =
  BadScopes scope_error | BadRoom | BadName | BadLifetime | StoreClosed | RandomFailed |
  StateRejected state_error | SaveFailed | KeyRejected | CodeRejected | KeyAlreadyPaired |
  GrantNotFound | GrantUnavailable | ChallengeRejected | StoredKeyInvalid | SignatureInvalid |
  SessionRejected

section \<open>Validation\<close>

fun scan_scopes :: "scope list \<Rightarrow> bool \<Rightarrow> bool \<Rightarrow> bool \<Rightarrow> scope_error + (bool \<times> bool \<times> bool)" where
  "scan_scopes [] ob p a = Inr (ob, p, a)"
| "scan_scopes (s # ss) ob p a =
     (if s = ScopeObserve then (if ob then Inl (DuplicateScope s) else scan_scopes ss True p a)
      else if s = ScopeParticipate then (if p then Inl (DuplicateScope s) else scan_scopes ss ob True a)
      else if s = ScopeAdmin then (if a then Inl (DuplicateScope s) else scan_scopes ss ob p True)
      else Inl (InvalidScope s))"

definition normalize_scopes :: "scope list \<Rightarrow> scope_error + scope list" where
  "normalize_scopes scopes =
     (case scan_scopes scopes False False False of
        Inl e \<Rightarrow> Inl e
      | Inr (seen_observe, seen_participate, seen_admin) \<Rightarrow>
          if \<not> seen_observe \<or> (seen_admin \<and> \<not> seen_participate) then Inl IncompleteScopes
          else Inr ([ScopeObserve] @ (if seen_participate then [ScopeParticipate] else [])
                    @ (if seen_admin then [ScopeAdmin] else [])))"

definition validate_name :: "string \<Rightarrow> bool" where
  "validate_name s \<longleftrightarrow>
     \<not> (s = '''' \<or> length s > 128 \<or> \<not> utf8_valid s \<or> trim_space s \<noteq> s) \<and>
     (case runes s of None \<Rightarrow> False | Some rs \<Rightarrow> list_all (\<lambda>r. \<not> is_control r) rs)"

definition alnum_char :: "char \<Rightarrow> bool" where
  "alnum_char c \<longleftrightarrow> (let n = (of_char c :: nat) in
     (65 \<le> n \<and> n \<le> 90) \<or> (97 \<le> n \<and> n \<le> 122) \<or> (48 \<le> n \<and> n \<le> 57))"

definition valid_identifier :: "string \<Rightarrow> bool" where
  "valid_identifier s \<longleftrightarrow> \<not> (length s < 1 \<or> length s > 128) \<and>
     alnum_char (hd s) \<and> list_all (\<lambda>c. alnum_char c \<or> c \<in> set ''._:@-'') (tl s)"

definition sha_size :: nat where "sha_size = 32"

definition valid_hash :: "string \<Rightarrow> bool" where
  "valid_hash s \<longleftrightarrow> (case hex_decode s of None \<Rightarrow> False | Some d \<Rightarrow> length d = sha_size)"

definition canonical_spki :: "'k crypto \<Rightarrow> string \<Rightarrow> (string \<times> 'k) option" where
  "canonical_spki C v =
     (case parse_key C v of
        None \<Rightarrow> None
      | Some k \<Rightarrow> (case marshal_key C k of None \<Rightarrow> None | Some d \<Rightarrow> Some (d, k)))"

fun validate_invitations :: "string list \<Rightarrow> invitation_record list \<Rightarrow> state_error option" where
  "validate_invitations seen [] = None"
| "validate_invitations seen (i # is) =
     (if \<not> valid_identifier (inv_id i) \<or> inv_id i \<in> set seen \<or> \<not> valid_hash (code_hash i)
         \<or> \<not> valid_identifier (inv_room i) \<or> \<not> validate_name (inv_name i)
         \<or> inv_ceiling i \<noteq> CeilingReadOnly \<or> inv_created i = 0 \<or> \<not> inv_expires i > inv_created i
      then Some InvalidInvitation
      else case normalize_scopes (inv_scopes i) of
             Inl e \<Rightarrow> Some (InvalidInvitationScopes e)
           | Inr _ \<Rightarrow> validate_invitations (inv_id i # seen) is)"

fun validate_grants :: "'k crypto \<Rightarrow> string list \<Rightarrow> grant list \<Rightarrow> state_error option" where
  "validate_grants C seen [] = None"
| "validate_grants C seen (g # gs) =
     (if \<not> valid_identifier (grant_id g) \<or> grant_id g \<in> set seen \<or> \<not> valid_identifier (grant_room g)
         \<or> \<not> validate_name (grant_name g) \<or> grant_ceiling g \<noteq> CeilingReadOnly
         \<or> grant_created g = 0 \<or> grant_updated g < grant_created g
      then Some InvalidGrant
      else case normalize_scopes (grant_scopes g) of
             Inl e \<Rightarrow> Some (InvalidGrantScopes e)
           | Inr _ \<Rightarrow>
               if canonical_spki C (public_key_spki g) = None then Some InvalidGrantKey
               else if (case revoked_at g of None \<Rightarrow> False | Some t \<Rightarrow> t < grant_created g)
               then Some InvalidRevocation
               else validate_grants C (grant_id g # seen) gs)"

definition validate_state :: "'k crypto \<Rightarrow> persistent_state \<Rightarrow> state_error option" where
  "validate_state C st =
     (if version st \<noteq> stateVersion then Some UnsupportedVersion
      else case validate_invitations [] (invitations st) of
             Some e \<Rightarrow> Some e
           | None \<Rightarrow> validate_grants C [] (grants st))"

section \<open>Helpers\<close>

definition random_identifier :: "env \<Rightarrow> nat \<Rightarrow> string option" where
  "random_identifier E i = map_option hex_encode (draw E i)"

definition random_secret :: "env \<Rightarrow> nat \<Rightarrow> string option" where
  "random_secret E i = map_option base64_url (draw E i)"

fun code_groups :: "nat \<Rightarrow> string \<Rightarrow> string list" where
  "code_groups 0 raw = (if raw = '''' then [] else [raw])"
| "code_groups (Suc fuel) raw =
     (if length raw > 5 then take 5 raw # code_groups fuel (drop 5 raw)
      else if raw = '''' then [] else [raw])"

fun join_with :: "string \<Rightarrow> string list \<Rightarrow> string" where
  "join_with sep [] = ''''"
| "join_with sep [s] = s"
| "join_with sep (s # t # ts) = s @ sep @ join_with sep (t # ts)"

definition human_code :: "env \<Rightarrow> nat \<Rightarrow> string option" where
  "human_code E i =
     map_option (\<lambda>v. let raw = base32 v in join_with ''-'' (code_groups (length raw) raw)) (draw E i)"

definition normalize_code :: "string \<Rightarrow> string" where
  "normalize_code v =
     filter (\<lambda>c. c \<notin> {CHR ''-'', CHR '' '', CHR 0x09, CHR 0x0D, CHR 0x0A}) (to_upper (trim_space v))"

definition hash_code :: "'k crypto \<Rightarrow> string \<Rightarrow> string" where
  "hash_code C v = hex_encode (sha256 C (normalize_code v))"

definition constant_hex_equal :: "string \<Rightarrow> string \<Rightarrow> bool" where
  "constant_hex_equal l r =
     (case (hex_decode l, hex_decode r) of
        (Some a, Some b) \<Rightarrow> \<not> (length a \<noteq> sha_size \<or> length b \<noteq> sha_size) \<and> a = b
      | _ \<Rightarrow> False)"

definition big_endian :: "string \<Rightarrow> nat" where
  "big_endian s = foldl (\<lambda>n c. 256 * n + of_char c) 0 s"

definition verify_raw :: "'k crypto \<Rightarrow> 'k \<Rightarrow> string \<Rightarrow> string \<Rightarrow> bool" where
  "verify_raw C k payload sig \<longleftrightarrow> length sig = 64 \<and>
     ecdsa_verify C k (sha256 C payload) (big_endian (take 32 sig)) (big_endian (drop 32 sig))"

definition min_time :: "time \<Rightarrow> time \<Rightarrow> time" where
  "min_time l r = (if l < r then l else r)"

definition prune_invitations :: "invitation_record list \<Rightarrow> time \<Rightarrow> invitation_record list" where
  "prune_invitations is t = filter (\<lambda>i. t < inv_expires i) is"

definition grant_index :: "grant list \<Rightarrow> string \<Rightarrow> nat option" where
  "grant_index gs i = index_of (\<lambda>g. grant_id g = i) gs"

text \<open>\<open>saveState\<close>: the file is replaced atomically, and the last \<open>Chmod\<close> may fail after that.\<close>

definition save_state :: "'k crypto \<Rightarrow> save_outcome \<Rightarrow> persistent_state \<Rightarrow> device_store \<Rightarrow>
    store_error option \<times> device_store" where
  "save_state C outcome st s =
     (case validate_state C st of
        Some e \<Rightarrow> (Some (StateRejected e), s)
      | None \<Rightarrow>
          (case outcome of
             Written \<Rightarrow> (None, s\<lparr>disk := st\<rparr>)
           | NotWritten \<Rightarrow> (Some SaveFailed, s)
           | WrittenThenFailed \<Rightarrow> (Some SaveFailed, s\<lparr>disk := st\<rparr>)))"

text \<open>Save the next state and install it: the end of every durable operation.\<close>

definition install :: "'k crypto \<Rightarrow> env \<Rightarrow> persistent_state \<Rightarrow> 'a \<Rightarrow> device_store \<Rightarrow>
    (store_error + 'a) \<times> device_store" where
  "install C E next v s =
     (case save_state C (io E) next s of
        (Some e, s) \<Rightarrow> (Inl e, s)
      | (None, s) \<Rightarrow> (Inr v, s\<lparr>store_state := next\<rparr>))"

definition close_sessions :: "(session_record \<Rightarrow> bool) \<Rightarrow> device_store \<Rightarrow> device_store" where
  "close_sessions p s =
     s\<lparr>sessions := filter (\<lambda>r. \<not> p r) (sessions s),
       done_channels := done_channels s @ map session_id (filter p (sessions s))\<rparr>"

definition prune_ephemeral :: "time \<Rightarrow> device_store \<Rightarrow> device_store" where
  "prune_ephemeral t s =
     close_sessions (\<lambda>r. \<not> t < idle_expires r \<or> \<not> t < absolute_expires r)
       (s\<lparr>challenges := filter (\<lambda>c. t < challenge_expires c) (challenges s)\<rparr>)"

definition invalidate_device :: "string \<Rightarrow> device_store \<Rightarrow> device_store" where
  "invalidate_device d s =
     (let s = close_sessions (\<lambda>r. session_device r = d) s
      in s\<lparr>challenges := filter (\<lambda>c. challenge_device c \<noteq> d) (challenges s)\<rparr>)"

section \<open>Operations\<close>

definition open_store :: "'k crypto \<Rightarrow> persistent_state option \<Rightarrow> store_error + device_store" where
  "open_store C file =
     (let st = (case file of None \<Rightarrow> \<lparr>version = stateVersion, invitations = [], grants = []\<rparr> | Some st \<Rightarrow> st)
      in if file \<noteq> None \<and> validate_state C st \<noteq> None
         then Inl (StateRejected (the (validate_state C st)))
         else Inr \<lparr>store_state = st, disk = st, challenges = [], sessions = [], done_channels = [],
                   store_closed = False\<rparr>)"

definition create_invitation :: "'k crypto \<Rightarrow> env \<Rightarrow> string \<Rightarrow> string \<Rightarrow> scope list \<Rightarrow> duration \<Rightarrow>
    device_store \<Rightarrow> (store_error + invitation) \<times> device_store" where
  "create_invitation C E room name scopes ttl s =
     (let room = trim_space room; name = trim_space name
      in case normalize_scopes scopes of
           Inl e \<Rightarrow> (Inl (BadScopes e), s)
         | Inr valid \<Rightarrow>
             if \<not> valid_identifier room then (Inl BadRoom, s)
             else if \<not> validate_name name then (Inl BadName, s)
             else let ttl = (if ttl = 0 then defaultInvitationTTL else ttl)
             in if ttl < second \<or> ttl > maximumInvitationTTL then (Inl BadLifetime, s)
             else if store_closed s then (Inl StoreClosed, s)
             else case random_identifier E 0 of
               None \<Rightarrow> (Inl RandomFailed, s)
             | Some i \<Rightarrow>
                 (case human_code E 1 of
                    None \<Rightarrow> (Inl RandomFailed, s)
                  | Some code \<Rightarrow>
                      let r = \<lparr>inv_id = i, code_hash = hash_code C code, inv_name = name,
                               inv_room = room, inv_scopes = valid, inv_ceiling = CeilingReadOnly,
                               inv_created = now E, inv_expires = now E + ttl\<rparr>;
                          st = store_state s;
                          next = st\<lparr>invitations := prune_invitations (invitations st) (now E) @ [r]\<rparr>
                      in install C E next
                           \<lparr>invitation_id = i, invitation_code = code, invitation_expires = inv_expires r\<rparr> s))"

text \<open>The last live invitation whose stored hash is that of the code.\<close>

fun last_index :: "('a \<Rightarrow> bool) \<Rightarrow> 'a list \<Rightarrow> nat option" where
  "last_index p [] = None"
| "last_index p (x # xs) =
     (case last_index p xs of Some i \<Rightarrow> Some (Suc i) | None \<Rightarrow> if p x then Some 0 else None)"

definition pair :: "'k crypto \<Rightarrow> env \<Rightarrow> string \<Rightarrow> string \<Rightarrow> device_store \<Rightarrow>
    (store_error + grant) \<times> device_store" where
  "pair C E code spki s =
     (case canonical_spki C spki of
        None \<Rightarrow> (Inl KeyRejected, s)
      | Some (canonical, _) \<Rightarrow>
          let wanted = hash_code C code
          in if store_closed s then (Inl StoreClosed, s)
             else let st = store_state s
             in case last_index (\<lambda>i. now E < inv_expires i \<and> constant_hex_equal (code_hash i) wanted)
                       (invitations st) of
                  None \<Rightarrow> (Inl CodeRejected, s)
                | Some k \<Rightarrow>
                    if list_ex (\<lambda>g. active g \<and> sha256 C (public_key_spki g) = sha256 C canonical) (grants st)
                    then (Inl KeyAlreadyPaired, s)
                    else case random_identifier E 0 of
                      None \<Rightarrow> (Inl RandomFailed, s)
                    | Some i \<Rightarrow>
                        let r = invitations st ! k;
                            g = \<lparr>grant_id = i, grant_name = inv_name r, grant_room = inv_room r,
                                 public_key_spki = canonical, grant_scopes = inv_scopes r,
                                 grant_ceiling = CeilingReadOnly, grant_created = now E,
                                 grant_updated = now E, revoked_at = None\<rparr>;
                            rest = take k (invitations st) @ drop (Suc k) (invitations st);
                            next = st\<lparr>invitations := prune_invitations rest (now E),
                                      grants := grants st @ [g]\<rparr>
                        in install C E next g s)"

definition find_grant :: "string \<Rightarrow> device_store \<Rightarrow> grant option" where
  "find_grant d s =
     (let gs = grants (store_state s)
      in map_option (\<lambda>i. gs ! i) (grant_index gs (trim_space d)))"

definition list_grants :: "device_store \<Rightarrow> grant list" where
  "list_grants s = sort_key (\<lambda>g. (grant_created g, grant_id g)) (grants (store_state s))"

definition revoke :: "'k crypto \<Rightarrow> env \<Rightarrow> string \<Rightarrow> device_store \<Rightarrow> (store_error + unit) \<times> device_store" where
  "revoke C E d s =
     (let d = trim_space d
      in if store_closed s then (Inl StoreClosed, s)
         else let st = store_state s
         in case grant_index (grants st) d of
              None \<Rightarrow> (Inl GrantNotFound, s)
            | Some i \<Rightarrow>
                let g = grants st ! i
                in if revoked_at g = None then
                     let next = st\<lparr>grants := (grants st)[i := g\<lparr>revoked_at := Some (now E),
                                                             grant_updated := now E\<rparr>]\<rparr>
                     in case install C E next () s of
                          (Inl e, s) \<Rightarrow> (Inl e, s)
                        | (Inr v, s) \<Rightarrow> (Inr v, invalidate_device d s)
                   else (Inr (), invalidate_device d s))"

definition set_scopes :: "'k crypto \<Rightarrow> env \<Rightarrow> string \<Rightarrow> scope list \<Rightarrow> device_store \<Rightarrow>
    (store_error + grant) \<times> device_store" where
  "set_scopes C E d scopes s =
     (let d = trim_space d
      in case normalize_scopes scopes of
           Inl e \<Rightarrow> (Inl (BadScopes e), s)
         | Inr normalized \<Rightarrow>
             if store_closed s then (Inl StoreClosed, s)
             else let st = store_state s
             in case grant_index (grants st) d of
                  None \<Rightarrow> (Inl GrantUnavailable, s)
                | Some i \<Rightarrow>
                    let g = grants st ! i
                    in if \<not> active g then (Inl GrantUnavailable, s)
                       else let g = g\<lparr>grant_scopes := normalized, grant_updated := now E\<rparr>;
                                next = st\<lparr>grants := (grants st)[i := g]\<rparr>
                            in case install C E next g s of
                                 (Inl e, s) \<Rightarrow> (Inl e, s)
                               | (Inr v, s) \<Rightarrow> (Inr v, invalidate_device d s))"

text \<open>The grant of a device, when it has an active one.\<close>

definition active_grant :: "string \<Rightarrow> device_store \<Rightarrow> grant option" where
  "active_grant d s =
     (let gs = grants (store_state s)
      in case grant_index gs d of
           None \<Rightarrow> None
         | Some k \<Rightarrow> if active (gs ! k) then Some (gs ! k) else None)"

definition challenge_payload_of :: "'k crypto \<Rightarrow> string \<Rightarrow> string \<Rightarrow> string \<Rightarrow> string \<Rightarrow> time \<Rightarrow> string" where
  "challenge_payload_of C i d room nonce expires =
     join_with [CHR 0x0A] [''mohuddle-device-session-v1'', i, d, room, nonce, format_time C expires]"

definition make_challenge :: "'k crypto \<Rightarrow> env \<Rightarrow> string \<Rightarrow> grant \<Rightarrow> duration \<Rightarrow> challenge option" where
  "make_challenge C E d g ttl =
     (case (random_identifier E 0, random_secret E 1) of
        (Some i, Some nonce) \<Rightarrow>
          let expires = now E + ttl
          in Some \<lparr>challenge_id = i, challenge_device = d, challenge_room = grant_room g,
                   challenge_payload = challenge_payload_of C i d (grant_room g) nonce expires,
                   challenge_expires = expires\<rparr>
      | _ \<Rightarrow> None)"

definition new_challenge :: "'k crypto \<Rightarrow> env \<Rightarrow> string \<Rightarrow> duration \<Rightarrow> device_store \<Rightarrow>
    (store_error + challenge) \<times> device_store" where
  "new_challenge C E d ttl s =
     (let d = trim_space d;
          ttl = (if ttl = 0 then defaultChallengeTTL else ttl)
      in if ttl < second \<or> ttl > maximumChallengeTTL then (Inl BadLifetime, s)
         else if store_closed s then (Inl StoreClosed, s)
         else let s = prune_ephemeral (now E) s
         in case active_grant d s of
              None \<Rightarrow> (Inl GrantUnavailable, s)
            | Some g \<Rightarrow>
                (case make_challenge C E d g ttl of
                   None \<Rightarrow> (Inl RandomFailed, s)
                 | Some c \<Rightarrow>
                     (Inr c, s\<lparr>challenges :=
                        filter (\<lambda>x. challenge_id x \<noteq> challenge_id c) (challenges s) @ [c]\<rparr>)))"

text \<open>
  \<open>CompleteChallenge\<close>: take the challenge (whatever follows, it is consumed), check it and the
  signature, and mint a session.
\<close>

definition take_challenge :: "string \<Rightarrow> device_store \<Rightarrow> challenge option \<times> device_store" where
  "take_challenge cid s =
     (find (\<lambda>c. challenge_id c = cid) (challenges s),
      s\<lparr>challenges := filter (\<lambda>c. challenge_id c \<noteq> cid) (challenges s)\<rparr>)"

definition check_signature :: "'k crypto \<Rightarrow> grant \<Rightarrow> string \<Rightarrow> string \<Rightarrow> store_error option" where
  "check_signature C g payload sig =
     (case canonical_spki C (public_key_spki g) of
        None \<Rightarrow> Some StoredKeyInvalid
      | Some (_, key) \<Rightarrow> if \<not> verify_raw C key payload sig then Some SignatureInvalid else None)"

definition mint_session :: "'k crypto \<Rightarrow> env \<Rightarrow> string \<Rightarrow> grant \<Rightarrow> duration \<Rightarrow> duration \<Rightarrow>
    (string \<times> string \<times> session_record) option" where
  "mint_session C E d g idle absolute =
     (case (random_secret E 0, random_secret E 1, random_identifier E 2) of
        (Some token, Some csrf, Some i) \<Rightarrow>
          let ae = now E + absolute
          in Some (token, csrf,
               \<lparr>session_id = i, session_device = d, session_room = grant_room g,
                session_scopes = grant_scopes g, session_ceiling = CeilingReadOnly,
                session_created = now E, last_seen = now E,
                idle_expires = min_time (now E + idle) ae, absolute_expires = ae,
                token_hash = sha256 C token, csrf_hash = sha256 C csrf, idle_ttl = idle\<rparr>)
      | _ \<Rightarrow> None)"

definition complete_challenge :: "'k crypto \<Rightarrow> env \<Rightarrow> string \<Rightarrow> string \<Rightarrow> string \<Rightarrow> duration \<Rightarrow> duration \<Rightarrow>
    device_store \<Rightarrow> (store_error + session_credentials) \<times> device_store" where
  "complete_challenge C E d cid sig idle absolute s =
     (let idle = (if idle = 0 then defaultIdleTTL else idle);
          absolute = (if absolute = 0 then defaultAbsoluteTTL else absolute)
      in if idle < second \<or> absolute < second \<or> idle > absolute \<or> absolute > maximumAbsoluteTTL
         then (Inl BadLifetime, s)
         else if store_closed s then (Inl StoreClosed, s)
         else let (record, s) = take_challenge cid (prune_ephemeral (now E) s)
         in case record of
              None \<Rightarrow> (Inl ChallengeRejected, s)
            | Some c \<Rightarrow>
                if challenge_device c \<noteq> d \<or> \<not> now E < challenge_expires c
                then (Inl ChallengeRejected, s)
                else case active_grant d s of
                     None \<Rightarrow> (Inl GrantUnavailable, s)
                   | Some g \<Rightarrow>
                       (case check_signature C g (challenge_payload c) sig of
                          Some e \<Rightarrow> (Inl e, s)
                        | None \<Rightarrow>
                            (case mint_session C E d g idle absolute of
                               None \<Rightarrow> (Inl RandomFailed, s)
                             | Some (token, csrf, r) \<Rightarrow>
                                 (Inr \<lparr>cred_token = token, cred_csrf = csrf, cred_session = snapshot r\<rparr>,
                                  s\<lparr>sessions := filter (\<lambda>x. session_id x \<noteq> session_id r) (sessions s) @ [r]\<rparr>))))"

definition refresh_session :: "time \<Rightarrow> session_record \<Rightarrow> session_record" where
  "refresh_session t r =
     r\<lparr>last_seen := t, idle_expires := min_time (t + idle_ttl r) (absolute_expires r)\<rparr>"

definition authenticate :: "'k crypto \<Rightarrow> env \<Rightarrow> string \<Rightarrow> device_store \<Rightarrow>
    (store_error + session) \<times> device_store" where
  "authenticate C E token s =
     (if store_closed s then (Inl StoreClosed, s)
      else let s = prune_ephemeral (now E) s; wanted = sha256 C token
      in case last_index (\<lambda>r. token_hash r = wanted) (sessions s) of
           None \<Rightarrow> (Inl SessionRejected, s)
         | Some k \<Rightarrow>
             let r = sessions s ! k
             in if active_grant (session_device r) s = None
                then (Inl GrantUnavailable, close_sessions (\<lambda>x. session_id x = session_id r) s)
                else let r = refresh_session (now E) r
                     in (Inr (snapshot r), s\<lparr>sessions := (sessions s)[k := r]\<rparr>))"

definition verify_csrf :: "'k crypto \<Rightarrow> env \<Rightarrow> string \<Rightarrow> string \<Rightarrow> device_store \<Rightarrow> bool \<times> device_store" where
  "verify_csrf C E i token s =
     (let s = prune_ephemeral (now E) s
      in (case find (\<lambda>r. session_id r = i) (sessions s) of
            None \<Rightarrow> False
          | Some r \<Rightarrow> csrf_hash r = sha256 C token, s))"

definition close_store :: "device_store \<Rightarrow> device_store" where
  "close_store s =
     (if store_closed s then s
      else (close_sessions (\<lambda>_. True) s)\<lparr>store_closed := True, challenges := []\<rparr>)"

section \<open>Lemmas\<close>

subsection \<open>Validation\<close>

lemma validate_invitations_distinct:
  "validate_invitations seen is = None \<Longrightarrow> distinct (map inv_id is) \<and> set seen \<inter> inv_id ` set is = {}"
  by (induction seen "is" rule: validate_invitations.induct) (auto split: if_splits sum.splits)

lemma validate_grants_distinct:
  "validate_grants C seen gs = None \<Longrightarrow> distinct (map grant_id gs) \<and> set seen \<inter> grant_id ` set gs = {}"
  by (induction C seen gs rule: validate_grants.induct) (auto split: if_splits sum.splits option.splits)

lemma validate_state_distinct:
  "validate_state C st = None \<Longrightarrow> distinct (map grant_id (grants st)) \<and> distinct (map inv_id (invitations st))"
  using validate_grants_distinct [of C "[]" "grants st"] validate_invitations_distinct [of "[]" "invitations st"]
  by (simp add: validate_state_def split: if_splits option.splits)

lemma install_cases:
  assumes "install C E next v s = (x, t)"
  obtains (ok) "x = Inr v" "t = s\<lparr>disk := next, store_state := next\<rparr>" "validate_state C next = None"
  | (kept) e where "x = Inl e" "t = s"
  | (renamed) e where "x = Inl e" "t = s\<lparr>disk := next\<rparr>" "io E = WrittenThenFailed"
  using assms
  by (auto simp: install_def save_state_def split: option.splits save_outcome.splits)

subsection \<open>The grant of a device\<close>

lemma grant_index_Some:
  "grant_index gs d = Some i \<Longrightarrow> i < length gs \<and> grant_id (gs ! i) = d"
  unfolding grant_index_def by (auto dest: index_of_Some)

lemma grant_index_unique:
  assumes "distinct (map grant_id gs)" "g \<in> set gs" "grant_id g = d"
  obtains i where "grant_index gs d = Some i" "gs ! i = g" "i < length gs"
proof (cases "grant_index gs d")
  case None
  with assms show ?thesis by (auto simp: grant_index_def index_of_None)
next
  case (Some i)
  note i = grant_index_Some [OF Some]
  obtain j where j: "j < length gs" "gs ! j = g" using assms(2) by (auto simp: in_set_conv_nth)
  have "i = j" using assms(1,3) i j by (simp add: distinct_conv_nth) metis
  with Some i j that show ?thesis by blast
qed

text \<open>The authority a device has: its grant is active, for one room, with these scopes.\<close>

definition authorized :: "grant list \<Rightarrow> string \<Rightarrow> string \<Rightarrow> grant \<Rightarrow> bool" where
  "authorized gs d room g \<longleftrightarrow> g \<in> set gs \<and> grant_id g = d \<and> active g \<and> grant_room g = room"

definition session_ok :: "grant list \<Rightarrow> session_record \<Rightarrow> bool" where
  "session_ok gs r \<longleftrightarrow>
     (\<exists>g. authorized gs (session_device r) (session_room r) g \<and> grant_scopes g = session_scopes r) \<and>
     session_ceiling r = CeilingReadOnly \<and> idle_expires r \<le> absolute_expires r \<and>
     absolute_expires r \<le> session_created r + maximumAbsoluteTTL"

definition challenge_ok :: "grant list \<Rightarrow> challenge \<Rightarrow> bool" where
  "challenge_ok gs c \<longleftrightarrow> (\<exists>g. authorized gs (challenge_device c) (challenge_room c) g)"

definition store_inv :: "device_store \<Rightarrow> bool" where
  "store_inv s \<longleftrightarrow>
     distinct (map grant_id (grants (store_state s))) \<and>
     (\<forall>r\<in>set (sessions s). session_ok (grants (store_state s)) r) \<and>
     (\<forall>c\<in>set (challenges s). challenge_ok (grants (store_state s)) c) \<and>
     distinct (map session_id (sessions s)) \<and>
     (store_closed s \<longrightarrow> sessions s = [] \<and> challenges s = [])"

lemma close_sessions_inv: "store_inv s \<Longrightarrow> store_inv (close_sessions p s)"
  by (auto simp: store_inv_def close_sessions_def distinct_map_filter)

lemma challenges_filter_inv:
  "store_inv s \<Longrightarrow> store_inv (s\<lparr>challenges := filter p (challenges s)\<rparr>)"
  by (auto simp: store_inv_def)

lemma prune_inv: "store_inv s \<Longrightarrow> store_inv (prune_ephemeral t s)"
  by (simp add: prune_ephemeral_def close_sessions_inv challenges_filter_inv)

lemma invalidate_inv: "store_inv s \<Longrightarrow> store_inv (invalidate_device d s)"
  by (simp add: invalidate_device_def Let_def challenges_filter_inv close_sessions_inv)

lemma prune_simps [simp]:
  "store_state (prune_ephemeral t s) = store_state s" "disk (prune_ephemeral t s) = disk s"
  "store_closed (prune_ephemeral t s) = store_closed s"
  "store_state (close_sessions p s) = store_state s" "disk (close_sessions p s) = disk s"
  "store_closed (close_sessions p s) = store_closed s"
  "store_state (invalidate_device d s) = store_state s" "disk (invalidate_device d s) = disk s"
  "store_closed (invalidate_device d s) = store_closed s"
  by (simp_all add: prune_ephemeral_def close_sessions_def invalidate_device_def Let_def)

text \<open>Installing a state whose grants are untouched, or extended, keeps all authority.\<close>

lemma authorized_mono: "set gs \<subseteq> set hs \<Longrightarrow> authorized gs d room g \<Longrightarrow> authorized hs d room g"
  by (auto simp: authorized_def)

lemma install_inv:
  assumes "store_inv s" "install C E next v s = (x, t)"
    and "set (grants (store_state s)) \<subseteq> set (grants next)"
  shows "store_inv t"
  using assms(2)
proof (cases rule: install_cases)
  case ok
  then have t: "t = s\<lparr>disk := next, store_state := next\<rparr>" by blast
  have "distinct (map grant_id (grants next))" using ok validate_state_distinct by blast
  moreover have "session_ok (grants next) r" if "session_ok (grants (store_state s)) r" for r
    using that authorized_mono [OF assms(3)] unfolding session_ok_def by blast
  moreover have "challenge_ok (grants next) c" if "challenge_ok (grants (store_state s)) c" for c
    using that authorized_mono [OF assms(3)] unfolding challenge_ok_def by blast
  ultimately show ?thesis using assms(1) by (simp add: t store_inv_def)
qed (use assms(1) in \<open>simp_all add: store_inv_def\<close>)

text \<open>Replacing the grant of a device and ending everything the device holds.\<close>

lemma replace_grant_authorized:
  assumes "authorized gs e room h" "i < length gs" "e \<noteq> grant_id (gs ! i)"
  shows "authorized (gs[i := g]) e room h"
proof -
  obtain j where "j < length gs" "gs ! j = h" "j \<noteq> i"
    using assms by (auto simp: authorized_def in_set_conv_nth)
  then have "h \<in> set (gs[i := g])" by (metis length_list_update nth_list_update_neq nth_mem)
  with assms(1) show ?thesis by (simp add: authorized_def)
qed

lemma replace_grant_inv:
  assumes "store_inv s" "i < length (grants (store_state s))" "grant_id (grants (store_state s) ! i) = d"
    and "grant_id g = d" "grants next = (grants (store_state s))[i := g]"
  shows "store_inv (invalidate_device d (s\<lparr>disk := next, store_state := next\<rparr>))"
proof -
  let ?gs = "grants (store_state s)"
  have "map grant_id (?gs[i := g]) = map grant_id ?gs"
    using assms(2-4) by (metis list_update_id map_update)
  moreover have "session_ok (?gs[i := g]) r" if "session_ok ?gs r" "session_device r \<noteq> d" for r
    using that replace_grant_authorized [OF _ assms(2)] unfolding session_ok_def assms(3) by blast
  moreover have "challenge_ok (?gs[i := g]) c" if "challenge_ok ?gs c" "challenge_device c \<noteq> d" for c
    using that replace_grant_authorized [OF _ assms(2)] unfolding challenge_ok_def assms(3) by blast
  ultimately show ?thesis
    using assms(1)
    by (auto simp: store_inv_def invalidate_device_def close_sessions_def Let_def assms(5)
        distinct_map_filter)
qed

subsection \<open>Shapes of the durable operations\<close>

text \<open>Each durable operation fails early, without a change, or ends by installing a state.\<close>

lemma create_invitation_cases:
  assumes "create_invitation C E room name scopes ttl s = (x, t)"
  obtains (early) e where "x = Inl e" "t = s"
  | (save) i code valid lifetime where
    "random_identifier E 0 = Some i" "human_code E 1 = Some code" "normalize_scopes scopes = Inr valid"
    "lifetime = (if ttl = 0 then defaultInvitationTTL else ttl)"
    "second \<le> lifetime" "lifetime \<le> maximumInvitationTTL" "\<not> store_closed s"
    "install C E ((store_state s)\<lparr>invitations := prune_invitations (invitations (store_state s)) (now E) @
         [\<lparr>inv_id = i, code_hash = hash_code C code, inv_name = trim_space name,
           inv_room = trim_space room, inv_scopes = valid, inv_ceiling = CeilingReadOnly,
           inv_created = now E, inv_expires = now E + lifetime\<rparr>]\<rparr>)
       \<lparr>invitation_id = i, invitation_code = code, invitation_expires = now E + lifetime\<rparr> s = (x, t)"
  using assms unfolding create_invitation_def Let_def
  by (auto split: if_splits sum.splits option.splits)

lemma pair_cases:
  assumes "pair C E code spki s = (x, t)"
  obtains (early) e where "x = Inl e" "t = s" "e = CodeRejected \<longleftrightarrow>
      canonical_spki C spki \<noteq> None \<and> \<not> store_closed s \<and>
      last_index (\<lambda>i. now E < inv_expires i \<and> constant_hex_equal (code_hash i) (hash_code C code))
        (invitations (store_state s)) = None"
  | (save) canonical key k i where
    "canonical_spki C spki = Some (canonical, key)" "\<not> store_closed s"
    "last_index (\<lambda>i. now E < inv_expires i \<and> constant_hex_equal (code_hash i) (hash_code C code))
       (invitations (store_state s)) = Some k"
    "\<forall>g\<in>set (grants (store_state s)). active g \<longrightarrow> sha256 C (public_key_spki g) \<noteq> sha256 C canonical"
    "random_identifier E 0 = Some i"
    "install C E
       ((store_state s)\<lparr>invitations := prune_invitations (take k (invitations (store_state s)) @
            drop (Suc k) (invitations (store_state s))) (now E),
          grants := grants (store_state s) @
            [\<lparr>grant_id = i, grant_name = inv_name (invitations (store_state s) ! k),
              grant_room = inv_room (invitations (store_state s) ! k), public_key_spki = canonical,
              grant_scopes = inv_scopes (invitations (store_state s) ! k),
              grant_ceiling = CeilingReadOnly, grant_created = now E, grant_updated = now E,
              revoked_at = None\<rparr>]\<rparr>)
       \<lparr>grant_id = i, grant_name = inv_name (invitations (store_state s) ! k),
        grant_room = inv_room (invitations (store_state s) ! k), public_key_spki = canonical,
        grant_scopes = inv_scopes (invitations (store_state s) ! k),
        grant_ceiling = CeilingReadOnly, grant_created = now E, grant_updated = now E,
        revoked_at = None\<rparr> s = (x, t)"
  using assms unfolding pair_def Let_def
  by (auto simp: list_ex_iff split: if_splits option.splits)

lemma revoke_cases:
  assumes "revoke C E d s = (x, t)"
  obtains (early) e where "x = Inl e" "t = s"
  | (again) i where "x = Inr ()" "t = invalidate_device (trim_space d) s"
    "grant_index (grants (store_state s)) (trim_space d) = Some i"
    "\<not> active (grants (store_state s) ! i)"
  | (failed) nx e where "install C E nx () s = (Inl e, t)" "x = Inl e"
  | (saved) i u g nx where "grant_index (grants (store_state s)) (trim_space d) = Some i"
    "g = (grants (store_state s) ! i)\<lparr>revoked_at := Some (now E), grant_updated := now E\<rparr>"
    "nx = (store_state s)\<lparr>grants := (grants (store_state s))[i := g]\<rparr>"
    "install C E nx () s = (Inr (), u)" "t = invalidate_device (trim_space d) u" "x = Inr ()"
proof -
  let ?d = "trim_space d"
  let ?gs = "grants (store_state s)"
  show thesis
  proof (cases "store_closed s \<or> grant_index ?gs ?d = None")
    case True
    then have "\<exists>e. x = Inl e \<and> t = s"
      using assms by (cases "store_closed s") (auto simp: revoke_def Let_def)
    with early show thesis by blast
  next
    case False
    then obtain i where i: "grant_index ?gs ?d = Some i" and o: "\<not> store_closed s" by auto
    show thesis
    proof (cases "revoked_at (?gs ! i) = None")
      case False
      with assms i o show thesis by (intro again [of i]) (simp_all add: revoke_def active_def)
    next
      case True
      let ?g = "(?gs ! i)\<lparr>revoked_at := Some (now E), grant_updated := now E\<rparr>"
      let ?n = "(store_state s)\<lparr>grants := ?gs[i := ?g]\<rparr>"
      obtain y u where y: "install C E ?n () s = (y, u)" by (cases "install C E ?n () s")
      have xt: "(x, t) = (case y of Inl e \<Rightarrow> (Inl e, u) | Inr v \<Rightarrow> (Inr v, invalidate_device ?d u))"
        using assms i o True y by (simp add: revoke_def Let_def)
      show thesis
      proof (cases y)
        case (Inl e)
        with xt y show thesis by (intro failed [of ?n e]) simp_all
      next
        case (Inr v)
        with xt y show thesis by (intro saved [OF i refl refl, of u]) simp_all
      qed
    qed
  qed
qed

lemma set_scopes_cases:
  assumes "set_scopes C E d scopes s = (x, t)"
  obtains (early) e where "x = Inl e" "t = s"
  | (failed) nx v e where "install C E nx (v :: grant) s = (Inl e, t)" "x = Inl e"
  | (saved) i u g nx normalized where "grant_index (grants (store_state s)) (trim_space d) = Some i"
    "active (grants (store_state s) ! i)" "normalize_scopes scopes = Inr normalized"
    "g = (grants (store_state s) ! i)\<lparr>grant_scopes := normalized, grant_updated := now E\<rparr>"
    "nx = (store_state s)\<lparr>grants := (grants (store_state s))[i := g]\<rparr>"
    "install C E nx g s = (Inr g, u)" "t = invalidate_device (trim_space d) u" "x = Inr g"
proof -
  consider (e) e where "x = Inl e" "t = s"
    | (i) i normalized where "grant_index (grants (store_state s)) (trim_space d) = Some i"
      "active (grants (store_state s) ! i)" "normalize_scopes scopes = Inr normalized"
      "(case install C E ((store_state s)\<lparr>grants := (grants (store_state s))[i :=
          (grants (store_state s) ! i)\<lparr>grant_scopes := normalized, grant_updated := now E\<rparr>]\<rparr>)
          ((grants (store_state s) ! i)\<lparr>grant_scopes := normalized, grant_updated := now E\<rparr>) s of
         (Inl e, s) \<Rightarrow> (Inl e, s) | (Inr v, s) \<Rightarrow> (Inr v, invalidate_device (trim_space d) s)) = (x, t)"
    using assms unfolding set_scopes_def Let_def by (auto split: if_splits option.splits sum.splits)
  then show thesis
  proof cases
    case e
    then show thesis by (rule early)
  next
    case (i i normalized)
    let ?g = "(grants (store_state s) ! i)\<lparr>grant_scopes := normalized, grant_updated := now E\<rparr>"
    let ?n = "(store_state s)\<lparr>grants := (grants (store_state s))[i := ?g]\<rparr>"
    obtain y u where y: "install C E ?n ?g s = (y, u)" by (cases "install C E ?n ?g s")
    show thesis
    proof (cases y)
      case (Inl e)
      with i(4) y show thesis by (intro failed [of ?n ?g e]) simp_all
    next
      case (Inr v)
      from y have "v = ?g" by (cases rule: install_cases) (simp_all add: Inr)
      with i y Inr show thesis by (intro saved [OF i(1-3) refl refl, of u]) simp_all
    qed
  qed
qed

subsection \<open>Shapes of the session operations\<close>

lemma last_index_Some: "last_index p xs = Some k \<Longrightarrow> k < length xs \<and> p (xs ! k)"
  by (induction xs arbitrary: k) (auto split: option.splits if_splits)

lemma in_set_without:
  assumes "x \<in> set (take k xs @ drop (Suc k) xs)"
  obtains n where "n < length xs" "n \<noteq> k" "xs ! n = x"
proof -
  from assms consider "x \<in> set (take k xs)" | "x \<in> set (drop (Suc k) xs)" by auto
  then show thesis
  proof cases
    case 1
    then obtain n where "n < length xs" "n < k" "xs ! n = x" by (auto simp: in_set_conv_nth)
    then show thesis using that by blast
  next
    case 2
    then obtain n where "n < length xs - Suc k" "xs ! (Suc k + n) = x" by (auto simp: in_set_conv_nth)
    then show thesis using that [of "Suc k + n"] by simp
  qed
qed

lemma last_index_None: "last_index p xs = None \<longleftrightarrow> (\<forall>x\<in>set xs. \<not> p x)"
  by (induction xs) (auto split: option.splits)

lemma active_grant_Some:
  "active_grant d s = Some g \<Longrightarrow> authorized (grants (store_state s)) d (grant_room g) g"
  by (auto simp: active_grant_def Let_def authorized_def dest!: grant_index_Some
      split: option.splits if_splits)

lemma active_grant_cong: "store_state s = store_state t \<Longrightarrow> active_grant d s = active_grant d t"
  by (simp add: active_grant_def)

lemma new_challenge_cases:
  assumes "new_challenge C E d ttl s = (x, t)"
  obtains (early) e where "x = Inl e" "t = s"
  | (pruned) e where "x = Inl e" "t = prune_ephemeral (now E) s"
  | (made) g c where "x = Inr c" "\<not> store_closed s" "active_grant (trim_space d) s = Some g"
    "challenge_device c = trim_space d" "challenge_room c = grant_room g"
    "t = (prune_ephemeral (now E) s)\<lparr>challenges :=
       filter (\<lambda>x. challenge_id x \<noteq> challenge_id c) (challenges (prune_ephemeral (now E) s)) @ [c]\<rparr>"
proof -
  let ?ttl = "if ttl = 0 then defaultChallengeTTL else ttl"
  have m: "challenge_device c = trim_space d \<and> challenge_room c = grant_room g"
    if "make_challenge C E (trim_space d) g l = Some c" for g c l
    using that by (auto simp: make_challenge_def Let_def split: option.splits)
  have g: "active_grant (trim_space d) (prune_ephemeral (now E) s) = active_grant (trim_space d) s"
    by (rule active_grant_cong) simp
  show thesis
  proof (cases "?ttl < second \<or> ?ttl > maximumChallengeTTL")
    case True
    with assms show thesis by (intro early [of BadLifetime]) (simp_all add: new_challenge_def Let_def)
  next
    case ok: False
    show thesis
    proof (cases "store_closed s")
      case True
      with assms ok show thesis by (intro early [of StoreClosed]) (simp_all add: new_challenge_def Let_def)
    next
      case op: False
      note eq = assms [unfolded new_challenge_def Let_def if_not_P [OF ok] if_not_P [OF op] g]
      show thesis
      proof (cases "active_grant (trim_space d) s")
        case None
        with eq show thesis by (intro pruned [of GrantUnavailable]) simp_all
      next
        case h: (Some h)
        show thesis
        proof (cases "make_challenge C E (trim_space d) h ?ttl")
          case None
          with eq h show thesis by (intro pruned [of RandomFailed]) simp_all
        next
          case (Some c)
          with eq h m [OF Some] show thesis
            by (intro made [of c, OF _ op h]) simp_all
        qed
      qed
    qed
  qed
qed

abbreviation consumed :: "string \<Rightarrow> time \<Rightarrow> device_store \<Rightarrow> device_store" where
  "consumed cid t s \<equiv> snd (take_challenge cid (prune_ephemeral t s))"

lemma complete_challenge_cases:
  assumes "complete_challenge C E d cid sig idle absolute s = (x, t)"
  obtains (early) "x = Inl BadLifetime \<or> x = Inl StoreClosed" "t = s"
  | (rejected) e where "x = Inl e" "t = consumed cid (now E) s" "e \<noteq> BadLifetime" "e \<noteq> StoreClosed"
  | (made) c g token csrf idl abst r where
    "\<not> store_closed s" "c \<in> set (challenges s)" "challenge_id c = cid" "challenge_device c = d"
    "now E < challenge_expires c" "active_grant d s = Some g"
    "check_signature C g (challenge_payload c) sig = None"
    "abst \<le> maximumAbsoluteTTL" "mint_session C E d g idl abst = Some (token, csrf, r)"
    "x = Inr \<lparr>cred_token = token, cred_csrf = csrf, cred_session = snapshot r\<rparr>"
    "t = (consumed cid (now E) s)\<lparr>sessions :=
       filter (\<lambda>x. session_id x \<noteq> session_id r) (sessions (consumed cid (now E) s)) @ [r]\<rparr>"
proof -
  let ?idle = "if idle = 0 then defaultIdleTTL else idle"
  let ?abs = "if absolute = 0 then defaultAbsoluteTTL else absolute"
  obtain taken u where tk: "take_challenge cid (prune_ephemeral (now E) s) = (taken, u)"
    by (cases "take_challenge cid (prune_ephemeral (now E) s)") simp
  then have u: "consumed cid (now E) s = u" by simp
  note rejected = rejected [unfolded u] and made = made [unfolded u]
  show thesis
  proof (cases "?idle < second \<or> ?abs < second \<or> ?idle > ?abs \<or> ?abs > maximumAbsoluteTTL")
    case True
    with assms early show thesis by (simp add: complete_challenge_def Let_def)
  next
    case ok: False
    show thesis
    proof (cases "store_closed s")
      case True
      with assms early ok show thesis by (simp add: complete_challenge_def Let_def)
    next
      case op: False
      have g: "active_grant d u = active_grant d s"
        by (rule active_grant_cong) (use tk in \<open>auto simp: take_challenge_def\<close>)
      have e: "e \<noteq> BadLifetime \<and> e \<noteq> StoreClosed" if "check_signature C g p sig = Some e" for g p e
        using that by (auto simp: check_signature_def split: option.splits if_splits)
      have eq: "(x, t) = (case taken of
              None \<Rightarrow> (Inl ChallengeRejected, u)
            | Some c \<Rightarrow>
                if challenge_device c \<noteq> d \<or> \<not> now E < challenge_expires c
                then (Inl ChallengeRejected, u)
                else case active_grant d s of
                     None \<Rightarrow> (Inl GrantUnavailable, u)
                   | Some g \<Rightarrow>
                       (case check_signature C g (challenge_payload c) sig of
                          Some e \<Rightarrow> (Inl e, u)
                        | None \<Rightarrow>
                            (case mint_session C E d g ?idle ?abs of
                               None \<Rightarrow> (Inl RandomFailed, u)
                             | Some (token, csrf, r) \<Rightarrow>
                                 (Inr \<lparr>cred_token = token, cred_csrf = csrf, cred_session = snapshot r\<rparr>,
                                  u\<lparr>sessions := filter (\<lambda>x. session_id x \<noteq> session_id r) (sessions u) @ [r]\<rparr>))))"
        using assms unfolding complete_challenge_def Let_def if_not_P [OF ok] if_not_P [OF op] tk g
          split_conv by (rule sym)
      show thesis
      proof (cases taken)
        case None
        with eq show thesis by (intro rejected [of ChallengeRejected]) simp_all
      next
        case (Some c)
        then have "c \<in> set (challenges (prune_ephemeral (now E) s))" "challenge_id c = cid"
          using tk by (auto simp: take_challenge_def find_Some_iff)
        then have c: "c \<in> set (challenges s)" "challenge_id c = cid"
          by (simp_all add: prune_ephemeral_def close_sessions_def)
        show thesis
        proof (cases "(challenge_device c \<noteq> d \<or> \<not> now E < challenge_expires c) \<or> active_grant d s = None")
          case True
          with eq Some have "x = Inl ChallengeRejected \<and> t = u \<or> x = Inl GrantUnavailable \<and> t = u"
            by (cases "challenge_device c \<noteq> d \<or> \<not> now E < challenge_expires c") simp_all
          with rejected show thesis by blast
        next
          case False
          then obtain g where h: "active_grant d s = Some g" "challenge_device c = d"
            "now E < challenge_expires c" by auto
          show thesis
          proof (cases "check_signature C g (challenge_payload c) sig")
            case sig: (Some e')
            with eq Some h e [OF sig] show thesis by (intro rejected [of e']) simp_all
          next
            case sig: None
            show thesis
            proof (cases "mint_session C E d g ?idle ?abs")
              case mint: None
              with eq Some h sig show thesis by (intro rejected [of RandomFailed]) simp_all
            next
              case mint: (Some q)
              obtain token csrf r where q: "q = (token, csrf, r)" by (cases q)
              from eq Some h sig mint q ok show thesis
                by (intro made [OF op c h(2,3,1) sig _ mint [unfolded q]]) simp_all
            qed
          qed
        qed
      qed
    qed
  qed
qed

lemma authenticate_cases:
  assumes "authenticate C E token s = (x, t)"
  obtains (early) "x = Inl StoreClosed" "t = s"
  | (unknown) "x = Inl SessionRejected" "t = prune_ephemeral (now E) s"
  | (revoked) p where "x = Inl GrantUnavailable" "t = close_sessions p (prune_ephemeral (now E) s)"
  | (refreshed) k r g where "\<not> store_closed s" "k < length (sessions (prune_ephemeral (now E) s))"
    "sessions (prune_ephemeral (now E) s) ! k = r" "token_hash r = sha256 C token"
    "active_grant (session_device r) s = Some g"
    "x = Inr (snapshot (refresh_session (now E) r))"
    "t = (prune_ephemeral (now E) s)\<lparr>sessions :=
           (sessions (prune_ephemeral (now E) s))[k := refresh_session (now E) r]\<rparr>"
proof -
  let ?s = "prune_ephemeral (now E) s"
  show thesis
  proof (cases "store_closed s")
    case True
    with assms early show thesis by (simp add: authenticate_def)
  next
    case op: False
    show thesis
    proof (cases "last_index (\<lambda>r. token_hash r = sha256 C token) (sessions ?s)")
      case None
      with op assms unknown show thesis by (simp add: authenticate_def Let_def)
    next
      case last: (Some k)
      note k = last_index_Some [OF last]
      let ?r = "sessions ?s ! k"
      have g: "active_grant (session_device ?r) ?s = active_grant (session_device ?r) s"
        by (rule active_grant_cong) simp
      show thesis
      proof (cases "active_grant (session_device ?r) s")
        case None
        with op assms last g show thesis
          by (intro revoked [of "\<lambda>x. session_id x = session_id ?r"]) (simp_all add: authenticate_def Let_def)
      next
        case (Some h)
        with op assms last g k Some show thesis
          by (intro refreshed [of k ?r h]) (simp_all add: authenticate_def Let_def)
      qed
    qed
  qed
qed

subsection \<open>The store as a server of requests\<close>

datatype request =
  CreateInvitation env string string "scope list" duration
| Pair env string string
| Revoke env string
| SetScopes env string "scope list"
| NewChallenge env string duration
| CompleteChallenge env string string string duration duration
| Authenticate env string
| VerifyCSRF env string string
| CloseStore

datatype answer =
  AInvitation invitation | AGrant grant | AUnit unit | AChallenge challenge
| ACredentials session_credentials | ASession session | ABool bool

fun serve :: "'k crypto \<Rightarrow> request \<Rightarrow> device_store \<Rightarrow> (store_error + answer) \<times> device_store" where
  "serve C (CreateInvitation E room name scopes ttl) s =
     apfst (map_sum id AInvitation) (create_invitation C E room name scopes ttl s)"
| "serve C (Pair E code spki) s = apfst (map_sum id AGrant) (pair C E code spki s)"
| "serve C (Revoke E d) s = apfst (map_sum id AUnit) (revoke C E d s)"
| "serve C (SetScopes E d scopes) s = apfst (map_sum id AGrant) (set_scopes C E d scopes s)"
| "serve C (NewChallenge E d ttl) s = apfst (map_sum id AChallenge) (new_challenge C E d ttl s)"
| "serve C (CompleteChallenge E d cid sig idle absolute) s =
     apfst (map_sum id ACredentials) (complete_challenge C E d cid sig idle absolute s)"
| "serve C (Authenticate E token) s = apfst (map_sum id ASession) (authenticate C E token s)"
| "serve C (VerifyCSRF E i token) s = apfst (\<lambda>b. Inr (ABool b)) (verify_csrf C E i token s)"
| "serve C CloseStore s = (Inr (AUnit ()), close_store s)"

fun request_io :: "request \<Rightarrow> save_outcome" where
  "request_io (CreateInvitation E _ _ _ _) = io E"
| "request_io (Pair E _ _) = io E"
| "request_io (Revoke E _) = io E"
| "request_io (SetScopes E _ _) = io E"
| "request_io _ = NotWritten"

text \<open>What a step may do to the durable part: nothing, or replace it.\<close>

definition durable_step :: "save_outcome \<Rightarrow> ('e + 'a) \<Rightarrow> device_store \<Rightarrow> device_store \<Rightarrow> bool" where
  "durable_step outcome x s t \<longleftrightarrow>
     (store_state t = store_state s \<and>
        (disk t = disk s \<or> (\<exists>e. x = Inl e) \<and> outcome = WrittenThenFailed)) \<or>
     ((\<exists>v. x = Inr v) \<and> disk t = store_state t)"

lemma durable_step_same:
  "store_state t = store_state s \<Longrightarrow> disk t = disk s \<Longrightarrow> durable_step outcome x s t"
  by (simp add: durable_step_def)

lemma install_durable: "install C E nx v s = (x, t) \<Longrightarrow> durable_step (io E) x s t"
  by (erule install_cases) (auto simp: durable_step_def)

lemma create_invitation_step:
  assumes "create_invitation C E room name scopes ttl s = (x, t)"
  shows "durable_step (io E) x s t \<and> (store_inv s \<longrightarrow> store_inv t)"
  using assms
proof (cases rule: create_invitation_cases)
  case early
  then show ?thesis by (simp add: durable_step_same)
next
  case save
  from install_durable [OF save(8)] install_inv [OF _ save(8)] show ?thesis by simp
qed

lemma pair_step:
  assumes "pair C E code spki s = (x, t)"
  shows "durable_step (io E) x s t \<and> (store_inv s \<longrightarrow> store_inv t)"
  using assms
proof (cases rule: pair_cases)
  case early
  then show ?thesis by (simp add: durable_step_same)
next
  case save
  from install_durable [OF save(6)] install_inv [OF _ save(6)] show ?thesis by auto
qed

lemma failed_install_inv:
  assumes "install C E nx v s = (Inl e, t)" "store_inv s"
  shows "store_inv t"
  using assms(1) by (rule install_cases) (use assms(2) in \<open>simp_all add: store_inv_def\<close>)

lemma ok_install: "install C E nx v s = (Inr w, t) \<Longrightarrow> t = s\<lparr>disk := nx, store_state := nx\<rparr>"
  by (erule install_cases) auto

lemma revoke_step:
  assumes "revoke C E d s = (x, t)"
  shows "durable_step (io E) x s t \<and> (store_inv s \<longrightarrow> store_inv t)"
  using assms
proof (cases rule: revoke_cases)
  case early
  then show ?thesis by (simp add: durable_step_same)
next
  case again
  then show ?thesis by (simp add: durable_step_same invalidate_inv)
next
  case (failed nx e)
  with install_durable [OF failed(1)] show ?thesis
    by (auto intro: failed_install_inv)
next
  case (saved i u g nx)
  note u = ok_install [OF saved(4)]
  have "store_inv t" if "store_inv s"
    unfolding saved(5) u
    by (rule replace_grant_inv [OF that, of i _ g])
      (use grant_index_Some [OF saved(1)] in \<open>simp_all add: saved(2,3)\<close>)
  then show ?thesis by (simp add: durable_step_def saved(5,6) u)
qed

lemma set_scopes_step:
  assumes "set_scopes C E d scopes s = (x, t)"
  shows "durable_step (io E) x s t \<and> (store_inv s \<longrightarrow> store_inv t)"
  using assms
proof (cases rule: set_scopes_cases)
  case early
  then show ?thesis by (simp add: durable_step_same)
next
  case (failed nx v e)
  with install_durable [OF failed(1)] show ?thesis
    by (auto intro: failed_install_inv)
next
  case (saved i u g nx normalized)
  note u = ok_install [OF saved(6)]
  have "store_inv t" if "store_inv s"
    unfolding saved(7) u
    by (rule replace_grant_inv [OF that, of i _ g])
      (use grant_index_Some [OF saved(1)] in \<open>simp_all add: saved(4,5)\<close>)
  then show ?thesis by (simp add: durable_step_def saved(7,8) u)
qed

lemma add_challenge_inv:
  assumes "store_inv s" "\<not> store_closed s" "challenge_ok (grants (store_state s)) c"
  shows "store_inv (s\<lparr>challenges := filter p (challenges s) @ [c]\<rparr>)"
  using assms by (auto simp: store_inv_def)

lemma new_challenge_step:
  assumes "new_challenge C E d ttl s = (x, t)"
  shows "durable_step NotWritten x s t \<and> (store_inv s \<longrightarrow> store_inv t)"
  using assms
proof (cases rule: new_challenge_cases)
  case (made g c)
  have "challenge_ok (grants (store_state s)) c"
    using active_grant_Some [OF made(3)] made(4,5) by (auto simp: challenge_ok_def)
  with made show ?thesis by (simp add: durable_step_def add_challenge_inv prune_inv)
qed (simp_all add: durable_step_same prune_inv)

lemma add_session_inv:
  assumes "store_inv s" "\<not> store_closed s" "session_ok (grants (store_state s)) r"
  shows "store_inv (s\<lparr>sessions := filter (\<lambda>x. session_id x \<noteq> session_id r) (sessions s) @ [r]\<rparr>)"
  using assms by (auto simp: store_inv_def distinct_map_filter)

lemma take_challenge_simps [simp]:
  "store_state (snd (take_challenge cid s)) = store_state s" "disk (snd (take_challenge cid s)) = disk s"
  "store_closed (snd (take_challenge cid s)) = store_closed s"
  "sessions (snd (take_challenge cid s)) = sessions s"
  "done_channels (snd (take_challenge cid s)) = done_channels s"
  "challenges (snd (take_challenge cid s)) = filter (\<lambda>c. challenge_id c \<noteq> cid) (challenges s)"
  by (simp_all add: take_challenge_def)

lemma take_challenge_inv: "store_inv s \<Longrightarrow> store_inv (snd (take_challenge cid s))"
  by (simp add: take_challenge_def challenges_filter_inv)

lemma minted_session_ok:
  assumes "mint_session C E d g idle absolute = Some (token, csrf, r)" "absolute \<le> maximumAbsoluteTTL"
    "authorized gs d (grant_room g) g"
  shows "session_ok gs r"
  using assms by (auto simp: mint_session_def session_ok_def min_time_def Let_def split: option.splits)

lemma complete_challenge_step:
  assumes "complete_challenge C E d cid sig idle absolute s = (x, t)"
  shows "durable_step NotWritten x s t \<and> (store_inv s \<longrightarrow> store_inv t)"
  using assms
proof (cases rule: complete_challenge_cases)
  case early
  then show ?thesis by (auto simp: durable_step_same)
next
  case rejected
  then show ?thesis by (simp add: durable_step_same take_challenge_inv prune_inv)
next
  case (made c g token csrf idl abst r)
  have "session_ok (grants (store_state s)) r"
    using minted_session_ok [OF made(9,8) active_grant_Some [OF made(6)]] .
  with made(1) have "store_inv t" if "store_inv s"
    unfolding made(11) using that by (intro add_session_inv) (simp_all add: take_challenge_inv prune_inv)
  then show ?thesis by (simp add: durable_step_def made(10,11))
qed

lemma refresh_simps [simp]:
  "session_id (refresh_session t r) = session_id r" "session_device (refresh_session t r) = session_device r"
  "session_ok gs r \<Longrightarrow> session_ok gs (refresh_session t r)"
  by (auto simp: refresh_session_def session_ok_def min_time_def)

lemma refresh_inv:
  assumes "store_inv s" "k < length (sessions s)"
  shows "store_inv (s\<lparr>sessions := (sessions s)[k := refresh_session t (sessions s ! k)]\<rparr>)"
proof -
  have "map session_id ((sessions s)[k := refresh_session t (sessions s ! k)]) = map session_id (sessions s)"
    by (metis list_update_id map_update refresh_simps(1))
  moreover have "\<forall>r\<in>set ((sessions s)[k := refresh_session t (sessions s ! k)]).
      session_ok (grants (store_state s)) r"
    using assms set_update_subset_insert [of "sessions s" k "refresh_session t (sessions s ! k)"]
    by (auto simp: store_inv_def)
  ultimately show ?thesis using assms by (auto simp: store_inv_def)
qed

lemma authenticate_step:
  assumes "authenticate C E token s = (x, t)"
  shows "durable_step NotWritten x s t \<and> (store_inv s \<longrightarrow> store_inv t)"
  using assms
proof (cases rule: authenticate_cases)
  case (refreshed k r g)
  then show ?thesis using refresh_inv [OF prune_inv, of s k "now E"] by (auto simp: durable_step_def)
qed (simp_all add: durable_step_same prune_inv close_sessions_inv)

lemma close_store_step: "durable_step NotWritten (x :: 'e + 'a) s (close_store s) \<and> (store_inv s \<longrightarrow> store_inv (close_store s))"
  by (auto simp: durable_step_def close_store_def store_inv_def close_sessions_def)

lemma durable_step_map: "durable_step w x s t \<Longrightarrow> durable_step w (map_sum id f x) s t"
  by (cases x) (auto simp: durable_step_def)

lemma serve_step: "serve C r s = (x, t) \<Longrightarrow> durable_step (request_io r) x s t \<and> (store_inv s \<longrightarrow> store_inv t)"
proof (cases r)
  case (VerifyCSRF E i token)
  assume "serve C r s = (x, t)"
  with VerifyCSRF have "t = prune_ephemeral (now E) s" by (auto simp: verify_csrf_def Let_def)
  then show ?thesis by (simp add: durable_step_same prune_inv)
next
  case CloseStore
  assume "serve C r s = (x, t)"
  with CloseStore close_store_step show ?thesis by auto
qed (auto simp: apfst_def map_prod_def split: prod.splits
    dest!: create_invitation_step pair_step revoke_step set_scopes_step new_challenge_step
      complete_challenge_step authenticate_step
    intro: durable_step_map)

interpretation device: atomic_store "serve C" store_state store_inv
  for C :: "'k crypto"
proof
  fix r s e t
  assume "serve C r s = (Inl e, t)"
  from serve_step [OF this] show "store_state t = store_state s"
    by (auto simp: durable_step_def)
next
  fix s r
  assume "store_inv s"
  with serve_step [of C r s] show "store_inv (snd (serve C r s))"
    by (cases "serve C r s") auto
qed

subsection \<open>A revoked device stays out\<close>

lemma open_store_inv: "open_store C file = Inr s \<Longrightarrow> store_inv s"
  using validate_state_distinct [of C "the file"]
  by (cases "file") (auto simp: open_store_def store_inv_def Let_def split: if_splits)

definition barred :: "string \<Rightarrow> device_store \<Rightarrow> bool" where
  "barred d s \<longleftrightarrow>
     (\<exists>g\<in>set (grants (store_state s)). grant_id g = d \<and> \<not> active g) \<and>
     (\<forall>r\<in>set (sessions s). session_device r \<noteq> d) \<and>
     (\<forall>c\<in>set (challenges s). challenge_device c \<noteq> d)"

lemma barred_not_authorized:
  assumes "barred d s" "store_inv s"
  shows "\<not> authorized (grants (store_state s)) d room g"
proof
  assume g: "authorized (grants (store_state s)) d room g"
  from assms(1) obtain h where "h \<in> set (grants (store_state s))" "grant_id h = d" "\<not> active h"
    by (auto simp: barred_def)
  moreover from assms(2) have "distinct (map grant_id (grants (store_state s)))" by (simp add: store_inv_def)
  ultimately have "g = h" using g unfolding authorized_def distinct_map by (metis inj_onD)
  with g \<open>\<not> active h\<close> show False by (simp add: authorized_def)
qed

lemma barred_no_grant: "barred d s \<Longrightarrow> store_inv s \<Longrightarrow> active_grant d s = None"
  using active_grant_Some barred_not_authorized by (metis not_None_eq)

lemma barred_close: "barred d s \<Longrightarrow> barred d (close_sessions p s)"
  by (auto simp: barred_def close_sessions_def)

lemma barred_prune: "barred d s \<Longrightarrow> barred d (prune_ephemeral t s)"
  unfolding prune_ephemeral_def by (rule barred_close) (auto simp: barred_def)

lemma barred_invalidate: "barred d s \<Longrightarrow> barred d (invalidate_device e s)"
  by (auto simp: barred_def invalidate_device_def close_sessions_def Let_def)

lemma install_barred:
  assumes "install C E nx v s = (x, t)" "set (grants (store_state s)) \<subseteq> set (grants nx)" "barred d s"
  shows "barred d t"
  using assms(1) by (rule install_cases) (use assms(2,3) in \<open>auto simp: barred_def\<close>)

lemma failed_install_barred: "install C E nx v s = (Inl e, t) \<Longrightarrow> barred d s \<Longrightarrow> barred d t"
  by (erule install_cases) (auto simp: barred_def)

lemma replace_grant_barred:
  assumes "barred d s" "i < length (grants (store_state s))"
    "grant_id (grants (store_state s) ! i) \<noteq> d" "grants nx = (grants (store_state s))[i := g]"
  shows "barred d (s\<lparr>disk := nx, store_state := nx\<rparr>)"
proof -
  from assms(1) obtain h where h: "h \<in> set (grants (store_state s))" "grant_id h = d" "\<not> active h"
    by (auto simp: barred_def)
  then obtain j where "j < length (grants (store_state s))" "grants (store_state s) ! j = h" "j \<noteq> i"
    using assms(3) by (auto simp: in_set_conv_nth)
  then have "h \<in> set (grants nx)"
    by (metis assms(4) length_list_update nth_list_update_neq nth_mem)
  with assms(1) h show ?thesis by (auto simp: barred_def)
qed

lemma revoke_barred:
  assumes "revoke C E e s = (x, t)" "barred d s" "store_inv s"
  shows "barred d t"
  using assms(1)
proof (cases rule: revoke_cases)
  case (failed nx e)
  show ?thesis by (rule failed_install_barred [OF failed(1) assms(2)])
next
  case (saved i u g nx)
  let ?gs = "grants (store_state s)"
  note i = grant_index_Some [OF saved(1)]
  show ?thesis
  proof (cases "trim_space e = d")
    case True
    then have "g \<in> set (grants nx)" "grant_id g = d" "\<not> active g"
      using i by (simp_all add: saved(2,3) set_update_memI active_def)
    with assms(2) have "barred d u" by (auto simp: barred_def ok_install [OF saved(4)])
    then show ?thesis by (simp add: saved(5) barred_invalidate)
  next
    case False
    with i have "barred d u" unfolding ok_install [OF saved(4)]
      by (intro replace_grant_barred [OF assms(2)]) (simp_all add: saved(3))
    then show ?thesis by (simp add: saved(5) barred_invalidate)
  qed
qed (use assms(2) in \<open>simp_all add: barred_invalidate\<close>)

lemma set_scopes_barred:
  assumes "set_scopes C E e scopes s = (x, t)" "barred d s" "store_inv s"
  shows "barred d t"
  using assms(1)
proof (cases rule: set_scopes_cases)
  case (failed nx v e)
  show ?thesis by (rule failed_install_barred [OF failed(1) assms(2)])
next
  case (saved i u g nx normalized)
  note i = grant_index_Some [OF saved(1)]
  have "authorized (grants (store_state s)) (trim_space e)
      (grant_room (grants (store_state s) ! i)) (grants (store_state s) ! i)"
    using i saved(2) by (simp add: authorized_def)
  then have "trim_space e \<noteq> d" using barred_not_authorized [OF assms(2,3)] by blast
  with i have "barred d u" unfolding ok_install [OF saved(6)]
    by (intro replace_grant_barred [OF assms(2)]) (simp_all add: saved(5))
  then show ?thesis by (simp add: saved(7) barred_invalidate)
qed (use assms(2) in simp)

lemma new_challenge_barred:
  assumes "new_challenge C E e ttl s = (x, t)" "barred d s" "store_inv s"
  shows "barred d t"
  using assms(1)
proof (cases rule: new_challenge_cases)
  case (made g c)
  then have "challenge_device c \<noteq> d" using barred_no_grant [OF assms(2,3)] by auto
  with barred_prune [OF assms(2), of "now E"] show ?thesis unfolding made(6) by (auto simp: barred_def)
qed (use assms(2) in \<open>simp_all add: barred_prune\<close>)

lemma complete_challenge_barred:
  assumes "complete_challenge C E e cid sig idle absolute s = (x, t)" "barred d s" "store_inv s"
  shows "barred d t"
proof -
  have b: "barred d (consumed cid (now E) s)"
    using barred_prune [OF assms(2), of "now E"] by (auto simp: barred_def)
  from assms(1) show ?thesis
  proof (cases rule: complete_challenge_cases)
    case (made c g token csrf idl abst r)
    have "session_device r = e"
      using made(9) by (auto simp: mint_session_def Let_def split: option.splits)
    moreover have "e \<noteq> d" using made(6) barred_no_grant [OF assms(2,3)] by auto
    ultimately show ?thesis using b unfolding made(11) by (auto simp: barred_def)
  qed (use assms(2) b in simp_all)
qed

lemma authenticate_barred:
  assumes "authenticate C E token s = (x, t)" "barred d s"
  shows "barred d t"
proof -
  have b: "barred d (prune_ephemeral (now E) s)" by (rule barred_prune [OF assms(2)])
  from assms(1) show ?thesis
  proof (cases rule: authenticate_cases)
    case (refreshed k r g)
    have "r \<in> set (sessions (prune_ephemeral (now E) s))" using refreshed(2,3) by auto
    with b have "session_device (refresh_session (now E) r) \<noteq> d" by (simp add: barred_def)
    then have "\<forall>r\<in>set (sessions t). session_device r \<noteq> d"
      using b set_update_subset_insert [of "sessions (prune_ephemeral (now E) s)" k "refresh_session (now E) r"]
      by (auto simp: refreshed(7) barred_def)
    with b show ?thesis by (simp add: refreshed(7) barred_def)
  qed (use assms(2) b in \<open>simp_all add: barred_close\<close>)
qed

lemma serve_barred:
  assumes "barred d s" "store_inv s"
  shows "barred d (snd (serve C r s))"
proof (cases r)
  case (CreateInvitation E room name scopes ttl)
  obtain x t where xt: "create_invitation C E room name scopes ttl s = (x, t)"
    by (cases "create_invitation C E room name scopes ttl s")
  then have "barred d t"
    by (cases rule: create_invitation_cases) (use assms(1) install_barred in \<open>simp, fastforce\<close>)
  with CreateInvitation xt show ?thesis by simp
next
  case (Pair E code spki)
  obtain x t where xt: "pair C E code spki s = (x, t)" by (cases "pair C E code spki s")
  then have "barred d t"
  proof (cases rule: pair_cases)
    case save
    from install_barred [OF save(6) _ assms(1)] show ?thesis by auto
  qed (use assms(1) in simp)
  with Pair xt show ?thesis by simp
next
  case (VerifyCSRF E i token)
  then show ?thesis using barred_prune [OF assms(1)] by (simp add: verify_csrf_def Let_def)
next
  case CloseStore
  then show ?thesis using barred_close [OF assms(1), of "\<lambda>_. True"] assms(1)
    by (cases "store_closed s") (simp_all add: close_store_def barred_def)
next
  case (Revoke E e)
  then show ?thesis using revoke_barred [of C E e s] assms by (cases "revoke C E e s") auto
next
  case (SetScopes E e scopes)
  then show ?thesis using set_scopes_barred [of C E e scopes s] assms
    by (cases "set_scopes C E e scopes s") auto
next
  case (NewChallenge E e ttl)
  then show ?thesis using new_challenge_barred [of C E e ttl s] assms
    by (cases "new_challenge C E e ttl s") auto
next
  case (CompleteChallenge E e cid sig idle absolute)
  then show ?thesis using complete_challenge_barred [of C E e cid sig idle absolute s] assms
    by (cases "complete_challenge C E e cid sig idle absolute s") auto
next
  case (Authenticate E token)
  then show ?thesis using authenticate_barred [of C E token s] assms(1)
    by (cases "authenticate C E token s") auto
qed

lemma run_barred: "barred d s \<Longrightarrow> store_inv s \<Longrightarrow> barred d (snd (run_all (serve C) rs s))"
proof (induction rs arbitrary: s)
  case (Cons r rs)
  from Cons.IH [OF serve_barred [OF Cons.prems] device.good_step [OF Cons.prems(2)]]
  show ?case by (simp add: split_beta Let_def)
qed simp

subsection \<open>Closed channels stay closed\<close>

lemma done_close: "set (done_channels s) \<subseteq> set (done_channels (close_sessions p s))"
  by (simp add: close_sessions_def)

lemma done_prune: "set (done_channels s) \<subseteq> set (done_channels (prune_ephemeral t s))"
  unfolding prune_ephemeral_def by (rule order_trans [OF _ done_close]) simp

lemma done_invalidate: "set (done_channels s) \<subseteq> set (done_channels (invalidate_device d s))"
  by (simp add: invalidate_device_def close_sessions_def Let_def)

lemma done_install: "install C E nx v s = (x, t) \<Longrightarrow> done_channels t = done_channels s"
  by (erule install_cases) auto

lemma done_serve: "set (done_channels s) \<subseteq> set (done_channels (snd (serve C r s)))"
proof (cases r)
  case (CreateInvitation E room name scopes ttl)
  obtain x t where xt: "create_invitation C E room name scopes ttl s = (x, t)"
    by (cases "create_invitation C E room name scopes ttl s")
  then have "done_channels t = done_channels s"
    by (cases rule: create_invitation_cases) (simp, blast dest: done_install)
  with CreateInvitation xt show ?thesis by simp
next
  case (Pair E code spki)
  obtain x t where xt: "pair C E code spki s = (x, t)" by (cases "pair C E code spki s")
  then have "done_channels t = done_channels s"
    by (cases rule: pair_cases) (simp, blast dest: done_install)
  with Pair xt show ?thesis by simp
next
  case (Revoke E e)
  obtain x t where xt: "revoke C E e s = (x, t)" by (cases "revoke C E e s")
  then have "set (done_channels s) \<subseteq> set (done_channels t)"
    by (cases rule: revoke_cases) (use done_invalidate done_install in fastforce)+
  with Revoke xt show ?thesis by simp
next
  case (SetScopes E e scopes)
  obtain x t where xt: "set_scopes C E e scopes s = (x, t)" by (cases "set_scopes C E e scopes s")
  then have "set (done_channels s) \<subseteq> set (done_channels t)"
    by (cases rule: set_scopes_cases) (use done_invalidate done_install in fastforce)+
  with SetScopes xt show ?thesis by simp
next
  case (NewChallenge E e ttl)
  obtain x t where xt: "new_challenge C E e ttl s = (x, t)" by (cases "new_challenge C E e ttl s")
  then have "set (done_channels s) \<subseteq> set (done_channels t)"
    by (cases rule: new_challenge_cases) (use done_prune in simp_all)
  with NewChallenge xt show ?thesis by simp
next
  case (CompleteChallenge E e cid sig idle absolute)
  obtain x t where xt: "complete_challenge C E e cid sig idle absolute s = (x, t)"
    by (cases "complete_challenge C E e cid sig idle absolute s")
  then have "set (done_channels s) \<subseteq> set (done_channels t)"
    by (cases rule: complete_challenge_cases) (use done_prune in simp_all)
  with CompleteChallenge xt show ?thesis by simp
next
  case (Authenticate E token)
  obtain x t where xt: "authenticate C E token s = (x, t)" by (cases "authenticate C E token s")
  then have "set (done_channels s) \<subseteq> set (done_channels t)"
  proof (cases rule: authenticate_cases)
    case (revoked p)
    with order_trans [OF done_prune done_close] show ?thesis by simp
  qed (use done_prune in simp_all)
  with Authenticate xt show ?thesis by simp
next
  case (VerifyCSRF E i token)
  then show ?thesis using done_prune by (simp add: verify_csrf_def Let_def)
next
  case CloseStore
  then show ?thesis by (simp add: close_store_def close_sessions_def)
qed

lemma done_run: "set (done_channels s) \<subseteq> set (done_channels (snd (run_all (serve C) rs s)))"
proof (induction rs arbitrary: s)
  case (Cons r rs)
  from order_trans [OF done_serve Cons.IH] show ?case by (simp add: split_beta Let_def)
qed simp

lemma revoke_bars:
  assumes "revoke C E d s = (Inr (), t)"
  shows "barred (trim_space d) t \<and>
    (\<forall>r\<in>set (sessions s). session_device r = trim_space d \<longrightarrow> session_id r \<in> set (done_channels t))"
  using assms
proof (cases rule: revoke_cases)
  case (again i)
  have "grants (store_state s) ! i \<in> set (grants (store_state s))"
    "grant_id (grants (store_state s) ! i) = trim_space d"
    using grant_index_Some [OF again(3)] by simp_all
  with again(4) show ?thesis
    by (auto simp: again(2) barred_def invalidate_device_def close_sessions_def Let_def)
next
  case (saved i u g nx)
  have "g \<in> set (grants nx)" "grant_id g = trim_space d" "\<not> active g"
    using grant_index_Some [OF saved(1)] by (simp_all add: saved(2,3) set_update_memI active_def)
  then have "\<exists>g\<in>set (grants nx). grant_id g = trim_space d \<and> \<not> active g" by blast
  then show ?thesis
    by (simp add: saved(5) ok_install [OF saved(4)] barred_def invalidate_device_def
        close_sessions_def Let_def)
qed simp_all

subsection \<open>Scopes\<close>

lemma scan_scopes_Inr:
  "scan_scopes ss ob p a = Inr (x, y, z) \<longleftrightarrow>
     set ss \<subseteq> {ScopeObserve, ScopeParticipate, ScopeAdmin} \<and> distinct ss \<and>
     (ob \<longrightarrow> ScopeObserve \<notin> set ss) \<and> (p \<longrightarrow> ScopeParticipate \<notin> set ss) \<and> (a \<longrightarrow> ScopeAdmin \<notin> set ss) \<and>
     x = (ob \<or> ScopeObserve \<in> set ss) \<and> y = (p \<or> ScopeParticipate \<in> set ss) \<and> z = (a \<or> ScopeAdmin \<in> set ss)"
  by (induction ss ob p a rule: scan_scopes.induct) auto

section \<open>Properties\<close>

text \<open>C26. Whatever requests a store serves after it was opened, every live session and challenge
  belongs to an active grant of its device: the session has exactly the room and the scopes of that
  grant and a read-only ceiling, its idle deadline never passes its absolute deadline, and that lies
  at most 24 hours after its creation.\<close>

theorem sessions_authorized:
  assumes "open_store C file = Inr s0" "snd (run_all (serve C) rs s0) = s"
  shows "(\<forall>r\<in>set (sessions s).
      (\<exists>g\<in>set (grants (store_state s)). grant_id g = session_device r \<and> revoked_at g = None \<and>
         grant_room g = session_room r \<and> grant_scopes g = session_scopes r) \<and>
      session_ceiling r = CeilingReadOnly \<and> idle_expires r \<le> absolute_expires r \<and>
      absolute_expires r \<le> session_created r + 24 * hour) \<and>
    (\<forall>c\<in>set (challenges s).
      \<exists>g\<in>set (grants (store_state s)). grant_id g = challenge_device c \<and> revoked_at g = None \<and>
         grant_room g = challenge_room c)"
  using device.good_run [OF open_store_inv [OF assms(1)], of C rs] assms(2)
  unfolding store_inv_def session_ok_def challenge_ok_def authorized_def active_def
    maximumAbsoluteTTL_def by blast

text \<open>C11. Revocation is final: once \<open>Revoke\<close> of a device succeeds, whatever requests follow, the
  device never has an active grant, a session or a challenge again, and the \<open>Done\<close> channel of
  every session it had is closed.\<close>

theorem revoke_is_final:
  assumes "open_store C file = Inr s0" "snd (run_all (serve C) before s0) = s"
    and "revoke C E d s = (Inr (), t)" "snd (run_all (serve C) later t) = u"
  shows "active_grant (trim_space d) u = None \<and>
    (\<forall>r\<in>set (sessions u). session_device r \<noteq> trim_space d) \<and>
    (\<forall>c\<in>set (challenges u). challenge_device c \<noteq> trim_space d) \<and>
    (\<forall>r\<in>set (sessions s). session_device r = trim_space d \<longrightarrow> session_id r \<in> set (done_channels u))"
proof -
  have inv: "store_inv s" using device.good_run [OF open_store_inv [OF assms(1)]] assms(2) by blast
  then have inv: "store_inv t" using revoke_step [OF assms(3)] by blast
  have b: "barred (trim_space d) u" using run_barred [OF _ inv] revoke_bars [OF assms(3)] assms(4) by blast
  have "store_inv u" using device.good_run [OF inv] assms(4) by blast
  with b have "active_grant (trim_space d) u = None" by (rule barred_no_grant)
  moreover have "set (done_channels t) \<subseteq> set (done_channels u)" using done_run assms(4) by blast
  ultimately show ?thesis using b revoke_bars [OF assms(3)] unfolding barred_def by blast
qed

text \<open>C24. A challenge is answered once: an attempt that gets past the lifetime and open checks
  consumes it, so no later attempt on the resulting store succeeds; and a success means that an
  unexpired challenge of that device existed and that its exact payload carries a valid signature
  of the key of the device's active grant.\<close>

theorem challenge_once:
  assumes "complete_challenge C E d cid sig idle absolute s = (x, t)"
    and "x \<noteq> Inl BadLifetime" "x \<noteq> Inl StoreClosed"
  shows "(\<exists>e. fst (complete_challenge C E' d' cid sig' idle' absolute' t) = Inl e) \<and>
    (\<forall>v. x = Inr v \<longrightarrow> (\<exists>c g canonical key.
       c \<in> set (challenges s) \<and> challenge_id c = cid \<and> challenge_device c = d \<and> now E < challenge_expires c \<and>
       active_grant d s = Some g \<and> canonical_spki C (public_key_spki g) = Some (canonical, key) \<and>
       verify_raw C key (challenge_payload c) sig))"
proof -
  obtain y u where y: "complete_challenge C E' d' cid sig' idle' absolute' t = (y, u)"
    by (cases "complete_challenge C E' d' cid sig' idle' absolute' t")
  from assms(1) have gone: "\<forall>c\<in>set (challenges t). challenge_id c \<noteq> cid"
    by (cases rule: complete_challenge_cases) (use assms(2,3) in auto)
  from y have "\<exists>e. y = Inl e"
    by (cases rule: complete_challenge_cases) (use gone in auto)
  moreover from assms(1) have "x = Inr v \<Longrightarrow> \<exists>c g canonical key.
       c \<in> set (challenges s) \<and> challenge_id c = cid \<and> challenge_device c = d \<and> now E < challenge_expires c \<and>
       active_grant d s = Some g \<and> canonical_spki C (public_key_spki g) = Some (canonical, key) \<and>
       verify_raw C key (challenge_payload c) sig" for v
  proof (cases rule: complete_challenge_cases)
    case (made c g token csrf idl abst r)
    moreover from made(7) obtain canonical key where
      "canonical_spki C (public_key_spki g) = Some (canonical, key)"
      "verify_raw C key (challenge_payload c) sig"
      by (auto simp: check_signature_def split: option.splits if_splits)
    ultimately show ?thesis by blast
  qed (use assms(2,3) in auto)
  ultimately show ?thesis using y by simp
qed

text \<open>A pairing code works once and gives exactly what was offered: a successful \<open>Pair\<close> uses one
  unexpired invitation whose stored hash is that of the code, the new active grant has its name,
  room and scopes and a read-only ceiling, no active grant had the same key, and the invitation is
  gone, so when no other invitation has that hash the same code is rejected from then on.\<close>

theorem pairing_code_once:
  assumes "pair C E code spki s = (Inr g, t)"
  shows "\<exists>k<length (invitations (store_state s)). let r = invitations (store_state s) ! k in
    now E < inv_expires r \<and> constant_hex_equal (code_hash r) (hash_code C code) \<and>
    grant_name g = inv_name r \<and> grant_room g = inv_room r \<and> grant_scopes g = inv_scopes r \<and>
    grant_ceiling g = CeilingReadOnly \<and> active g \<and>
    (\<forall>h\<in>set (grants (store_state s)). active h \<longrightarrow>
       sha256 C (public_key_spki h) \<noteq> sha256 C (public_key_spki g)) \<and>
    grants (store_state t) = grants (store_state s) @ [g] \<and> disk t = store_state t \<and>
    ((\<forall>j<length (invitations (store_state s)). j \<noteq> k \<longrightarrow>
        \<not> constant_hex_equal (code_hash (invitations (store_state s) ! j)) (hash_code C code)) \<longrightarrow>
     (\<forall>E' spki'. canonical_spki C spki' \<noteq> None \<longrightarrow> pair C E' code spki' t = (Inl CodeRejected, t)))"
  using assms
proof (cases rule: pair_cases)
  case (save canonical key k i)
  let ?is = "invitations (store_state s)"
  note k = last_index_Some [OF save(3)]
  from save(6) have t: "g = \<lparr>grant_id = i, grant_name = inv_name (?is ! k), grant_room = inv_room (?is ! k),
        public_key_spki = canonical, grant_scopes = inv_scopes (?is ! k),
        grant_ceiling = CeilingReadOnly, grant_created = now E, grant_updated = now E, revoked_at = None\<rparr>"
    "invitations (store_state t) = prune_invitations (take k ?is @ drop (Suc k) ?is) (now E)"
    "grants (store_state t) = grants (store_state s) @ [g]" "disk t = store_state t"
    "store_closed t = store_closed s"
    by (auto elim: install_cases)
  have "pair C E' code spki' t = (Inl CodeRejected, t)"
    if u: "\<forall>j<length ?is. j \<noteq> k \<longrightarrow> \<not> constant_hex_equal (code_hash (?is ! j)) (hash_code C code)"
      and c: "canonical_spki C spki' \<noteq> None" for E' spki'
  proof -
    have "\<not> constant_hex_equal (code_hash j) (hash_code C code)" if "j \<in> set (invitations (store_state t))" for j
    proof -
      from that have "j \<in> set (take k ?is @ drop (Suc k) ?is)" by (auto simp: t(2) prune_invitations_def)
      then obtain n where "n < length ?is" "n \<noteq> k" "?is ! n = j"
        by (rule in_set_without)
      with u show ?thesis by blast
    qed
    then have "last_index (\<lambda>j. now E' < inv_expires j \<and> constant_hex_equal (code_hash j) (hash_code C code))
        (invitations (store_state t)) = None"
      by (simp add: last_index_None)
    with c save(2) show ?thesis by (auto simp: pair_def t(5) Let_def)
  qed
  with k save(4) t show ?thesis
    by (intro exI [of _ k]) (simp add: Let_def active_def)
qed simp


text \<open>\<open>normalizeScopes\<close> accepts exactly the duplicate-free spellings, in any order, of the three
  nested authorities, and gives their canonical form.\<close>

theorem normalize_scopes_canonical:
  "normalize_scopes ss = Inr v \<longleftrightarrow>
     distinct ss \<and> set ss = set v \<and>
     v \<in> {[ScopeObserve], [ScopeObserve, ScopeParticipate], [ScopeObserve, ScopeParticipate, ScopeAdmin]}"
proof
  assume "normalize_scopes ss = Inr v"
  then obtain x y z where scan: "scan_scopes ss False False False = Inr (x, y, z)" and "x" "z \<longrightarrow> y"
    and v: "v = [ScopeObserve] @ (if y then [ScopeParticipate] else []) @ (if z then [ScopeAdmin] else [])"
    by (auto simp: normalize_scopes_def split: sum.splits if_splits)
  from scan have f: "distinct ss" "set ss \<subseteq> {ScopeObserve, ScopeParticipate, ScopeAdmin}"
    "x = (ScopeObserve \<in> set ss)" "y = (ScopeParticipate \<in> set ss)" "z = (ScopeAdmin \<in> set ss)"
    unfolding scan_scopes_Inr by simp_all
  have "set v \<subseteq> set ss" using f(3-5) \<open>x\<close> by (auto simp: v)
  moreover have "set ss \<subseteq> set v"
  proof
    fix q assume "q \<in> set ss"
    with f(2) consider "q = ScopeObserve" | "q = ScopeParticipate" | "q = ScopeAdmin" by blast
    then show "q \<in> set v" by cases (use f(3-5) \<open>q \<in> set ss\<close> in \<open>simp_all add: v\<close>)
  qed
  ultimately have "set ss = set v" by simp
  moreover have "v \<in> {[ScopeObserve], [ScopeObserve, ScopeParticipate],
      [ScopeObserve, ScopeParticipate, ScopeAdmin]}"
    using \<open>z \<longrightarrow> y\<close> by (cases y; cases z) (simp_all add: v)
  ultimately show "distinct ss \<and> set ss = set v \<and>
     v \<in> {[ScopeObserve], [ScopeObserve, ScopeParticipate], [ScopeObserve, ScopeParticipate, ScopeAdmin]}"
    using f(1) by blast
next
  assume v: "distinct ss \<and> set ss = set v \<and>
     v \<in> {[ScopeObserve], [ScopeObserve, ScopeParticipate], [ScopeObserve, ScopeParticipate, ScopeAdmin]}"
  then have "scan_scopes ss False False False =
      Inr (ScopeObserve \<in> set v, ScopeParticipate \<in> set v, ScopeAdmin \<in> set v)"
    unfolding scan_scopes_Inr by (elim conjE insertE emptyE) simp_all
  moreover from v have "v \<in> {[ScopeObserve], [ScopeObserve, ScopeParticipate],
      [ScopeObserve, ScopeParticipate, ScopeAdmin]}" by blast
  ultimately show "normalize_scopes ss = Inr v"
    by (elim insertE emptyE) (simp_all add: normalize_scopes_def)
qed

section \<open>Witnesses\<close>

text \<open>A toy provider of the cryptography: one key, a padded hash, signatures of 64 bytes.\<close>

definition sample_crypto :: "unit crypto" where
  "sample_crypto = \<lparr>sha256 = (\<lambda>s. take 32 (s @ replicate 32 CHR ''x'')),
     parse_key = (\<lambda>s. if s = ''k'' then Some () else None), marshal_key = (\<lambda>_. Some ''k''),
     ecdsa_verify = (\<lambda>_ _ _ _. True), format_time = (\<lambda>_. ''t'')\<rparr>"

definition sample_env :: "time \<Rightarrow> env" where
  "sample_env t = \<lparr>now = t, draw = (\<lambda>_. Some ''a''), io = Written\<rparr>"

definition sample_requests :: "request list" where
  "sample_requests =
     [CreateInvitation (sample_env 1) ''room'' ''phone'' [''observe''] 0,
      Pair (sample_env 2) ''me'' ''k'',
      NewChallenge (sample_env 3) ''61'' 0,
      CompleteChallenge (sample_env 4) ''61'' ''61'' (replicate 64 CHR ''s'') 0 0]"

definition sample_store :: device_store where
  "sample_store = \<lparr>store_state = \<lparr>version = stateVersion, invitations = [], grants = []\<rparr>,
     disk = \<lparr>version = stateVersion, invitations = [], grants = []\<rparr>,
     challenges = [], sessions = [], done_channels = [], store_closed = False\<rparr>"

lemma sample_open: "open_store sample_crypto None = Inr sample_store"
  by (simp add: open_store_def sample_store_def Let_def)

definition sample_after :: "nat \<Rightarrow> device_store" where
  "sample_after n = snd (run_all (serve sample_crypto) (take n sample_requests) sample_store)"

lemma sessions_authorized_witness:
  "\<exists>g\<in>set (grants (store_state (sample_after 4))). grant_id g = ''61'' \<and> grant_room g = ''room''"
proof -
  have s: "map (\<lambda>r. (session_device r, session_room r)) (sessions (sample_after 4)) = [(''61'', ''room'')]"
    by code_simp
  then obtain r where "r \<in> set (sessions (sample_after 4))" "session_device r = ''61''" "session_room r = ''room''"
    by (cases "sessions (sample_after 4)") auto
  with sessions_authorized [OF sample_open sample_after_def [of 4, symmetric]] show ?thesis by fastforce
qed

lemma revoke_is_final_witness:
  "''61'' \<in> set (done_channels (snd (run_all (serve sample_crypto) sample_requests
     (snd (revoke sample_crypto (sample_env 5) ''61'' (sample_after 4))))))"
proof -
  let ?t = "snd (revoke sample_crypto (sample_env 5) ''61'' (sample_after 4))"
  have "fst (revoke sample_crypto (sample_env 5) ''61'' (sample_after 4)) = Inr ()" by code_simp
  then have r: "revoke sample_crypto (sample_env 5) ''61'' (sample_after 4) = (Inr (), ?t)"
    by (metis prod.collapse)
  have s: "map (\<lambda>r. (session_device r, session_id r)) (sessions (sample_after 4)) = [(''61'', ''61'')]"
    and t: "trim_space ''61'' = ''61''" by code_simp+
  then obtain q where "q \<in> set (sessions (sample_after 4))" "session_device q = ''61''" "session_id q = ''61''"
    by (cases "sessions (sample_after 4)") auto
  with revoke_is_final [OF sample_open sample_after_def [of 4, symmetric] r refl] t show ?thesis
    by metis
qed

lemma challenge_once_witness:
  "\<exists>e. fst (complete_challenge sample_crypto (sample_env 5) ''61'' ''61'' (replicate 64 CHR ''s'') 0 0
        (snd (complete_challenge sample_crypto (sample_env 4) ''61'' ''61'' (replicate 64 CHR ''s'') 0 0
           (sample_after 3)))) = Inl e"
proof -
  let ?c = "complete_challenge sample_crypto (sample_env 4) ''61'' ''61'' (replicate 64 CHR ''s'') 0 0 (sample_after 3)"
  have "\<not> (case fst ?c of Inl _ \<Rightarrow> True | Inr _ \<Rightarrow> False)" by code_simp
  then obtain v where v: "?c = (Inr v, snd ?c)" by (metis (no_types, lifting) prod.collapse sum.case(1) sum.exhaust)
  from challenge_once [OF v] show ?thesis by blast
qed

lemma pairing_code_once_witness:
  "\<exists>g. fst (pair sample_crypto (sample_env 2) ''me'' ''k'' (sample_after 1)) = Inr g \<and> grant_room g = ''room''"
proof -
  let ?p = "pair sample_crypto (sample_env 2) ''me'' ''k'' (sample_after 1)"
  have "\<not> (case fst ?p of Inl _ \<Rightarrow> True | Inr _ \<Rightarrow> False)" by code_simp
  then obtain g where g: "?p = (Inr g, snd ?p)" by (metis (no_types, lifting) prod.collapse sum.case(1) sum.exhaust)
  have i: "map inv_room (invitations (store_state (sample_after 1))) = [''room'']" by code_simp
  then have n: "length (invitations (store_state (sample_after 1))) = 1"
    and r: "inv_room (invitations (store_state (sample_after 1)) ! 0) = ''room''"
    by (metis length_map length_Cons list.size(3) One_nat_def, metis i length_map length_Cons
        list.size(3) nth_map nth_Cons_0 zero_less_one One_nat_def)
  from pairing_code_once [OF g] obtain k where
    "k < length (invitations (store_state (sample_after 1)))"
    "grant_room g = inv_room (invitations (store_state (sample_after 1)) ! k)"
    by (auto simp: Let_def)
  with n r have "grant_room g = ''room''" by simp
  with g show ?thesis by (metis fst_conv)
qed


end
