(* ===== verification/Coordination_Data.thy ===== *)
theory Coordination_Data
  imports Messages
begin

text \<open>
  The durable coordination records of \<^verbatim>\<open>internal/chat/handoff.go\<close> and
  \<^verbatim>\<open>internal/chat/coordination.go\<close> (handoffs with their notification attempts, events, panels,
  the run), the operations on them that need no room (\<open>Open\<close>, \<open>Actionable\<close>, \<open>Due\<close>,
  \<open>Record\<close>), and the ledger migration of \<^verbatim>\<open>internal/room/handoff_migration.go\<close>.
  The fields \<open>AgeSeconds\<close>, \<open>Stalled\<close> and \<open>NotificationDue\<close> of a handoff are only
  computed for views and are left out of the stored record.
\<close>

section \<open>Records\<close>

record objective =
  summary :: string
  scope_text :: string
  completion_criteria :: string

record coordinator_update =
  up_waiting_on :: string
  up_handoff_only :: bool
  up_objective :: "objective option"
  up_next_action :: string
  up_owner :: string
  up_waiting_for :: string
  up_automatic :: bool
  up_panel_id :: string
  up_delivery :: string

record notification_attempt =
  attempt_panel :: string
  attempt_id :: string
  attempt_at :: time
  attempt_outcome :: string
  attempt_automatic :: bool

record handoff =
  actionable_since :: time
  waiting_on :: string
  needs_reconciliation :: bool
  handoff_key :: string
  source_sequence :: nat
  result_sequence :: nat
  handoff_participant :: participant
  handoff_outcome :: string
  ready_at :: time
  acknowledged_at :: time
  resolved_at :: time
  resolution :: string
  assignment_sequence :: nat
  next_action :: string
  handoff_owner :: string
  waiting_for :: string
  handoff_attempts :: "notification_attempt list"

record coordination_panel =
  panel_key :: string
  panel_mode :: string
  panel_seen_at :: time
  panel_started_at :: time
  panel_attempts :: int

record continuation =
  cont_id :: string
  parent_workflow :: string
  cont_source_sequence :: nat
  cont_spec :: continuation_spec
  cont_state :: string
  cont_reason :: string
  cont_assignment_sequence :: nat

record coordination_event =
  event_update :: coordinator_update
  event_detail :: string
  event_key :: string
  event_kind :: string
  event_at :: time
  event_result_id :: string
  event_source_sequence :: nat
  event_outcome :: string

record coordination_run =
  ledger_version :: int
  completed_through :: time
  legacy_results_through :: time
  run_waiting_on :: string
  run_objective :: "objective option"
  handoffs :: "handoff list"
  continuations :: "continuation list"
  run_panels :: "coordination_panel list"
  run_last_notification :: time
  run_next_action :: string
  run_owner :: string
  run_key :: string
  run_state :: string
  run_detail :: string
  run_started_at :: time
  start_sequence :: nat
  last_assignment_at :: time
  last_result_at :: time
  last_success_at :: time
  run_acknowledged_at :: time
  acknowledged_result :: string
  run_events :: "coordination_event list"

section \<open>Handoffs\<close>

definition handoff_open :: "handoff \<Rightarrow> bool" where
  "handoff_open h \<longleftrightarrow> resolution h = ''''"

definition actionable :: "handoff \<Rightarrow> bool" where
  "actionable h \<longleftrightarrow> handoff_open h \<and> waiting_for h = '''' \<and>
     (waiting_on h = '''' \<or> waiting_on h = ''coordinator'') \<and> \<not> needs_reconciliation h"

text \<open>The loop of \<open>Due\<close>: a rejected attempt ends it, automatic ones are counted.\<close>

fun due_attempts :: "notification_attempt list \<Rightarrow> nat \<Rightarrow> nat option" where
  "due_attempts [] n = Some n"
| "due_attempts (a # as) n =
     (if attempt_outcome a = ''host_rejected'' then None
      else due_attempts as (if attempt_automatic a then n + 1 else n))"

definition retry_delays :: "duration list" where
  "retry_delays = [0, minute, 3 * minute]"

definition handoff_due :: "handoff \<Rightarrow> time \<Rightarrow> bool" where
  "handoff_due h now \<longleftrightarrow>
     actionable h \<and>
     (case due_attempts (handoff_attempts h) 0 of
        None \<Rightarrow> False
      | Some n \<Rightarrow> \<not> n \<ge> 3 \<and> \<not> now < ready_at h + retry_delays ! n)"

section \<open>Events\<close>

text \<open>\<open>Record\<close> refuses an event it already holds and keeps the last 200.\<close>

definition push_event :: "coordination_event list \<Rightarrow> coordination_event \<Rightarrow> coordination_event list" where
  "push_event es e =
     (let es = es @ [e] in if length es > 200 then drop (length es - 200) es else es)"

definition record_event :: "coordination_event \<Rightarrow> coordination_run \<Rightarrow> bool \<times> coordination_run" where
  "record_event e r =
     (if list_ex (\<lambda>old. event_key old = event_key e \<and> event_kind old = event_kind e) (run_events r)
      then (False, r)
      else (True, r\<lparr>run_events := push_event (run_events r) e\<rparr>))"

interpretation events: bounded_history push_event 200
  by unfold_locales (auto simp: push_event_def take_last_def Let_def)

section \<open>The ledger migration\<close>

text \<open>The first report of a result with the greatest time.\<close>

definition latest_report :: "string \<Rightarrow> coordination_event list \<Rightarrow> coordination_event option" where
  "latest_report key es =
     foldl (\<lambda>latest e.
         if event_kind e = ''coordinator_report'' \<and> event_result_id e = key
            \<and> (case latest of None \<Rightarrow> True | Some l \<Rightarrow> event_at e > event_at l)
         then Some e else latest) None es"

definition reported_complete_through :: "time \<Rightarrow> coordination_event list \<Rightarrow> time" where
  "reported_complete_through t es =
     foldl (\<lambda>t e.
         if event_kind e = ''coordinator_report'' \<and> event_outcome e = ''complete''
            \<and> \<not> up_handoff_only (event_update e) \<and> event_at e > t
         then event_at e else t) t es"

definition migrate_report :: "coordination_event \<Rightarrow> handoff \<Rightarrow> handoff" where
  "migrate_report e h =
     (let h = h\<lparr>acknowledged_at := event_at e\<rparr>;
          h = (if event_outcome e = ''blocked''
               then h\<lparr>waiting_on := (if up_waiting_on (event_update e) = '''' then ''external''
                                      else up_waiting_on (event_update e))\<rparr>
               else h)
      in if event_outcome e = ''complete'' \<or> event_outcome e = ''stopped''
         then h\<lparr>resolution := ''coordinator_reported_'' @ event_outcome e, resolved_at := event_at e\<rparr>
         else h)"

definition migrate_handoff :: "time \<Rightarrow> time \<Rightarrow> coordination_event list \<Rightarrow> handoff \<Rightarrow> handoff" where
  "migrate_handoff through acknowledged es h =
     (let h = (if resolution h = ''coordinator_reported_blocked''
               then h\<lparr>resolution := '''', resolved_at := 0, waiting_on := ''external''\<rparr> else h)
      in if \<not> handoff_open h then h
         else if through \<noteq> 0 \<and> \<not> ready_at h > through
         then h\<lparr>resolution := ''coordinator_reported_complete'', resolved_at := through\<rparr>
         else case latest_report (handoff_key h) es of
                Some e \<Rightarrow> migrate_report e h
              | None \<Rightarrow> if ready_at h < acknowledged \<and> acknowledged_at h = 0
                        then h\<lparr>needs_reconciliation := True\<rparr> else h)"

definition migrate_ledger :: "coordination_run \<Rightarrow> bool \<times> coordination_run" where
  "migrate_ledger r =
     (if ledger_version r \<ge> 2 then (False, r)
      else let r = r\<lparr>legacy_results_through := last_result_at r\<rparr>;
               through = reported_complete_through (completed_through r) (run_events r);
               through = (if run_state r = ''complete'' \<and> through = 0 then last_result_at r else through)
           in (True, r\<lparr>completed_through := through,
                       handoffs := map (migrate_handoff through (run_acknowledged_at r) (run_events r)) (handoffs r),
                       ledger_version := 2\<rparr>))"

section \<open>Lemmas\<close>

lemma due_attempts_count:
  "due_attempts as n = Some k \<longleftrightarrow>
     (\<forall>a\<in>set as. attempt_outcome a \<noteq> ''host_rejected'') \<and> k = n + length (filter attempt_automatic as)"
  by (induction as n rule: due_attempts.induct) auto

lemma handoff_due_iff:
  "handoff_due h now \<longleftrightarrow> actionable h \<and> (\<forall>a\<in>set (handoff_attempts h). attempt_outcome a \<noteq> ''host_rejected'') \<and>
     (let n = length (filter attempt_automatic (handoff_attempts h))
      in n < 3 \<and> ready_at h + retry_delays ! n \<le> now)"
proof (cases "due_attempts (handoff_attempts h) 0")
  case None
  then have "\<not> (\<forall>a\<in>set (handoff_attempts h). attempt_outcome a \<noteq> ''host_rejected'')"
    using due_attempts_count [of "handoff_attempts h" 0] by auto
  with None show ?thesis by (simp add: handoff_due_def)
next
  case (Some n)
  from Some [unfolded due_attempts_count] Some show ?thesis
    by (auto simp: handoff_due_def Let_def)
qed

lemma latest_report_key:
  "latest_report key es = Some e \<Longrightarrow> e \<in> set es \<and> event_kind e = ''coordinator_report'' \<and> event_result_id e = key"
  unfolding latest_report_def by (induction es rule: rev_induct) (auto split: if_splits)

lemma latest_report_max:
  "e \<in> set es \<Longrightarrow> event_kind e = ''coordinator_report'' \<Longrightarrow> event_result_id e = key \<Longrightarrow>
   \<exists>l. latest_report key es = Some l \<and> event_at e \<le> event_at l"
  unfolding latest_report_def
proof (induction es rule: rev_induct)
  case (snoc x es)
  then show ?case by (auto split: option.splits) (force+)?
qed simp

end
