(* ===== verification/Conversations.thy ===== *)
theory Conversations
  imports Messages
begin

text \<open>
  Conversation jobs and workflows (\<^verbatim>\<open>internal/chat/conversation.go\<close>,
  \<^verbatim>\<open>internal/chat/conversation_reason.go\<close>, the workflow states of \<^verbatim>\<open>internal/chat/types.go\<close>):
  their states, budgets, reasons and the one inbox visibility rule every client shares.
  A state or reason string the code does not know is kept in the \<open>Other\<close> constructor.
\<close>

section \<open>States\<close>

datatype conversation_state =
  ConversationFinding | ConversationWaiting | ConversationAnswering | ConversationRetrying
| ConversationAnswered | ConversationNeedsAttention | ConversationFailed
| ConversationDismissed | ConversationCancelled | OtherConversation string

definition conversation_terminal :: "conversation_state \<Rightarrow> bool" where
  "conversation_terminal s \<longleftrightarrow>
     s = ConversationAnswered \<or> s = ConversationNeedsAttention \<or> s = ConversationFailed \<or>
     s = ConversationDismissed \<or> s = ConversationCancelled"

fun conversation_state_name :: "conversation_state \<Rightarrow> string" where
  "conversation_state_name ConversationFinding = ''finding''"
| "conversation_state_name ConversationWaiting = ''waiting''"
| "conversation_state_name ConversationAnswering = ''answering''"
| "conversation_state_name ConversationRetrying = ''retrying''"
| "conversation_state_name ConversationAnswered = ''answered''"
| "conversation_state_name ConversationNeedsAttention = ''needs_attention''"
| "conversation_state_name ConversationFailed = ''failed''"
| "conversation_state_name ConversationDismissed = ''dismissed''"
| "conversation_state_name ConversationCancelled = ''cancelled''"
| "conversation_state_name (OtherConversation s) = s"

datatype workflow_state =
  WorkflowQueued | WorkflowActive | WorkflowWaiting | WorkflowNeedsAttention
| WorkflowCompleted | WorkflowCancelled | WorkflowInterrupted | OtherWorkflow string

definition workflow_terminal :: "workflow_state \<Rightarrow> bool" where
  "workflow_terminal s \<longleftrightarrow> s = WorkflowCompleted \<or> s = WorkflowCancelled \<or> s = WorkflowInterrupted"

fun workflow_state_name :: "workflow_state \<Rightarrow> string" where
  "workflow_state_name WorkflowQueued = ''queued''"
| "workflow_state_name WorkflowActive = ''active''"
| "workflow_state_name WorkflowWaiting = ''waiting''"
| "workflow_state_name WorkflowNeedsAttention = ''needs_attention''"
| "workflow_state_name WorkflowCompleted = ''completed''"
| "workflow_state_name WorkflowCancelled = ''cancelled''"
| "workflow_state_name WorkflowInterrupted = ''interrupted''"
| "workflow_state_name (OtherWorkflow s) = s"

datatype scheduler_state =
  SchedulerQueued | SchedulerActive | SchedulerWaiting | SchedulerPosted | SchedulerQuiet
| SchedulerNeedsAttention | SchedulerIdle | SchedulerDone | OtherScheduler string

datatype action_state = ActionNone | ConversationRequiresWork | OtherAction string

datatype inbox_category =
  InboxUnset | InboxWorking | InboxNewAnswer | InboxActionNeeded | InboxHidden | OtherInbox string

datatype conversation_action = ActionCancel | ActionDismiss | ActionAdd | ActionReplace | OtherInboxAction string

datatype conversation_class = ConversationQuick | ConversationStandard | ConversationResearch | OtherClass string

definition total_budget :: "conversation_class \<Rightarrow> duration" where
  "total_budget c = (case c of ConversationResearch \<Rightarrow> 30 * minute | _ \<Rightarrow> 10 * minute)"

definition attempt_budget :: "conversation_class \<Rightarrow> duration" where
  "attempt_budget c = total_budget c"

datatype conversation_reason =
  ReasonHostStop | ReasonHostRestart | ReasonHostClosed | ReasonChatGPTLeft | ReasonGrantRevoked
| ReasonGrantExpired | ReasonDeadline | ReasonAccess | ReasonWriteDenied | ReasonInvalidAccess
| ReasonEventQueueOverflow | ReasonEffortUnsupported | ReasonProvider | ReasonPersistence
| ReasonNoAnswer | ReasonUnknown | OtherReason string

definition safe_reason :: "conversation_reason \<Rightarrow> conversation_reason" where
  "safe_reason r = (case r of OtherReason _ \<Rightarrow> ReasonUnknown | _ \<Rightarrow> r)"

definition reason_description :: "conversation_reason \<Rightarrow> string" where
  "reason_description r =
     (case safe_reason r of
        ReasonHostStop \<Rightarrow> ''Stopped by the host''
      | ReasonHostRestart \<Rightarrow> ''Interrupted by a room restart''
      | ReasonHostClosed \<Rightarrow> ''Room closed''
      | ReasonChatGPTLeft \<Rightarrow> ''ChatGPT explicitly left the room''
      | ReasonGrantRevoked \<Rightarrow> ''ChatGPT access was revoked or replaced''
      | ReasonGrantExpired \<Rightarrow> ''ChatGPT room access expired''
      | ReasonDeadline \<Rightarrow> ''Response deadline expired''
      | ReasonAccess \<Rightarrow> ''Requested access is outside the granted scope''
      | ReasonWriteDenied \<Rightarrow> ''A read-only task requested write access''
      | ReasonInvalidAccess \<Rightarrow> ''Responder repeatedly requested already-authorized read access''
      | ReasonEventQueueOverflow \<Rightarrow> ''MoHuddle could not keep up with the response stream''
      | ReasonEffortUnsupported \<Rightarrow> ''Requested effort is unsupported by the current model''
      | ReasonProvider \<Rightarrow> ''Provider failed''
      | ReasonPersistence \<Rightarrow> ''Could not save the reply''
      | ReasonNoAnswer \<Rightarrow> ''Provider returned no public answer''
      | _ \<Rightarrow> ''Cause was not recorded'')"

section \<open>Jobs\<close>

record conversation_attempt =
  att_turn_id :: string
  att_participant :: participant
  att_provider :: participant
  att_started_at :: time
  att_deadline :: time
  att_completed_at :: "time option"
  att_error :: string
  att_window :: int

text \<open>\<open>EffortSelection\<close> and the \<open>Effort\<close> of an attempt are left out: no modelled operation reads them.\<close>

record conversation_job =
  reason_code :: conversation_reason
  completed_at :: "time option"
  has_partial_response :: bool
  job_id :: string
  job_source_sequence :: nat
  job_state :: conversation_state
  job_class :: conversation_class
  workflow_mode :: string
  requested_agents :: "participant list"
  assigned :: participant
  temporary :: bool
  queue_position :: int
  job_attempts :: "conversation_attempt list"
  answer_sequence :: nat
  unread :: bool
  job_created_at :: time
  job_updated_at :: time
  job_started_at :: "time option"
  job_deadline :: "time option"
  retire_at :: "time option"
  retired_at :: "time option"
  terminal_reason :: string
  action_state :: action_state
  failure_sequence :: nat
  remote_message_id :: string
  promoted_sequence :: nat
  last_activity_at :: time
  job_wait_reason :: string
  extension_count :: int
  attempt_window :: int
  inbox_category :: inbox_category
  available_actions :: "conversation_action list"

text \<open>The zero value of the struct.\<close>

definition empty_job :: conversation_job where
  "empty_job = \<lparr>reason_code = OtherReason '''', completed_at = None, has_partial_response = False,
     job_id = '''', job_source_sequence = 0, job_state = OtherConversation '''', job_class = OtherClass '''',
     workflow_mode = '''', requested_agents = [], assigned = '''', temporary = False, queue_position = 0,
     job_attempts = [], answer_sequence = 0, unread = False, job_created_at = 0, job_updated_at = 0,
     job_started_at = None, job_deadline = None, retire_at = None, retired_at = None, terminal_reason = '''',
     action_state = ActionNone, failure_sequence = 0, remote_message_id = '''', promoted_sequence = 0,
     last_activity_at = 0, job_wait_reason = '''', extension_count = 0, attempt_window = 0,
     inbox_category = InboxUnset, available_actions = []\<rparr>"

definition derived_inbox_category :: "conversation_job \<Rightarrow> inbox_category" where
  "derived_inbox_category j =
     (if promoted_sequence j \<noteq> 0 then InboxHidden
      else case job_state j of
             ConversationFinding \<Rightarrow> InboxWorking
           | ConversationWaiting \<Rightarrow> InboxWorking
           | ConversationAnswering \<Rightarrow> InboxWorking
           | ConversationRetrying \<Rightarrow> InboxWorking
           | ConversationAnswered \<Rightarrow> if unread j then InboxNewAnswer else InboxHidden
           | ConversationNeedsAttention \<Rightarrow>
               if action_state j = ConversationRequiresWork then InboxActionNeeded else InboxHidden
           | _ \<Rightarrow> InboxHidden)"

definition derived_available_actions :: "conversation_job \<Rightarrow> conversation_action list" where
  "derived_available_actions j =
     (case derived_inbox_category j of
        InboxWorking \<Rightarrow> [ActionCancel]
      | InboxNewAnswer \<Rightarrow> [ActionDismiss]
      | InboxActionNeeded \<Rightarrow> [ActionAdd, ActionReplace, ActionDismiss]
      | _ \<Rightarrow> [])"

definition derive_inbox :: "conversation_job \<Rightarrow> conversation_job" where
  "derive_inbox j = j\<lparr>inbox_category := derived_inbox_category j,
                      available_actions := derived_available_actions j\<rparr>"

record inbox_counts =
  new_answers :: nat
  working :: nat
  action_needed :: nat

definition count_inbox :: "conversation_job list \<Rightarrow> inbox_counts" where
  "count_inbox jobs =
     foldl (\<lambda>c j. case derived_inbox_category j of
         InboxNewAnswer \<Rightarrow> c\<lparr>new_answers := new_answers c + 1\<rparr>
       | InboxWorking \<Rightarrow> c\<lparr>working := working c + 1\<rparr>
       | InboxActionNeeded \<Rightarrow> c\<lparr>action_needed := action_needed c + 1\<rparr>
       | _ \<Rightarrow> c) \<lparr>new_answers = 0, working = 0, action_needed = 0\<rparr> jobs"

definition finish_job :: "conversation_reason \<Rightarrow> time \<Rightarrow> conversation_job \<Rightarrow> conversation_job" where
  "finish_job r t j = j\<lparr>reason_code := r, completed_at := Some t\<rparr>"

text \<open>The durable part of a workflow record and of a participant activity the models read.\<close>

record workflow =
  wf_id :: string
  wf_state :: workflow_state
  wf_sources :: "nat list"
  wf_wait_reason :: string
  wf_updated_at :: time
  wf_completed_at :: "time option"

record activity =
  act_state :: scheduler_state
  act_action :: string
  act_role :: string
  act_wait_reason :: string
  act_dependency :: string
  act_transition :: string
  act_deadline :: "time option"
  act_last_update :: time

lemma safe_reason_idem [simp]: "safe_reason (safe_reason r) = safe_reason r"
  by (cases r) (simp_all add: safe_reason_def)

lemma derive_inbox_idem: "derive_inbox (derive_inbox j) = derive_inbox j"
proof -
  have "derived_inbox_category (derive_inbox j) = derived_inbox_category j"
    by (simp add: derived_inbox_category_def derive_inbox_def cong: conversation_state.case_cong)
  then show ?thesis by (simp add: derive_inbox_def derived_available_actions_def)
qed

end
