(* ===== verification/Recovery.thy ===== *)
theory Recovery
  imports Conversations
begin

text \<open>
  Startup recovery of conversation jobs, \<^verbatim>\<open>internal/room/orchestrator.go\<close>:
  \<open>normalizeConversationInbox\<close> merges duplicate records, ends what the stopped host left running
  and reclassifies legacy outcomes; \<open>appendConversationFailureNotices\<close> writes the transcript line
  each interrupted reply is owed.  The transcript is an append-only log and the room a separate
  file, so a crash can fall between the two; \<open>startup\<close> models one start of the host with every
  such outcome.  A Go map of activities is the list of its entries.
\<close>

section \<open>Failure lines\<close>

definition failureLineTimedOut :: string where
  "failureLineTimedOut = ''Reply timed out; no answer was added.''"
definition failureLineFailed :: string where
  "failureLineFailed = ''Reply failed; no answer was added.''"
definition failureLineNoAnswer :: string where
  "failureLineNoAnswer = ''Reply returned no answer; no answer was added.''"
definition failureLineNotSaved :: string where
  "failureLineNotSaved = ''Reply could not be saved; no answer was added.''"
definition failureLineNotStarted :: string where
  "failureLineNotStarted = ''Reply could not be started; no answer was added.''"
definition failureLineNotDurable :: string where
  "failureLineNotDurable = ''Reply could not be saved reliably.''"
definition failureLineNeedsAccess :: string where
  "failureLineNeedsAccess = ''Reply requires additional access; no answer was added.''"
definition failureLineInterrupted :: string where
  "failureLineInterrupted = ''Reply was interrupted before it finished; no answer was added.''"

definition failure_lines :: "string list" where
  "failure_lines = [failureLineTimedOut, failureLineFailed, failureLineNoAnswer, failureLineNotSaved,
     failureLineNotStarted, failureLineNotDurable, failureLineNeedsAccess, failureLineInterrupted]"

definition conversation_failure_line :: "string \<Rightarrow> bool" where
  "conversation_failure_line t \<longleftrightarrow> trim_space t \<in> set failure_lines"

definition legacyRequiresWorkSentinel :: string where
  "legacyRequiresWorkSentinel =
     ''This asks for work; choose Add to work or Replace current work. No work was implemented.''"
definition requiresWorkSentinel :: string where
  "requiresWorkSentinel = ''This message needs a Work decision. No workflow was started.''"

definition requires_work_conversation :: "string \<Rightarrow> bool" where
  "requires_work_conversation reason \<longleftrightarrow>
     trim_space reason = legacyRequiresWorkSentinel \<or> trim_space reason = requiresWorkSentinel"

section \<open>Merging duplicate jobs\<close>

definition same_attempt :: "conversation_attempt \<Rightarrow> conversation_attempt \<Rightarrow> bool" where
  "same_attempt a b \<longleftrightarrow>
     att_participant a = att_participant b \<and> att_provider a = att_provider b \<and>
     att_started_at a = att_started_at b \<and> att_deadline a = att_deadline b \<and> att_window a = att_window b"

definition complete_attempt :: "conversation_attempt \<Rightarrow> conversation_attempt \<Rightarrow> conversation_attempt" where
  "complete_attempt c e =
     (let e = (if att_completed_at e = None \<and> att_completed_at c \<noteq> None
               then e\<lparr>att_completed_at := att_completed_at c\<rparr> else e)
      in if att_error e = '''' then e\<lparr>att_error := att_error c\<rparr> else e)"

definition add_attempt :: "conversation_attempt list \<Rightarrow> conversation_attempt \<Rightarrow> conversation_attempt list" where
  "add_attempt result c =
     (if list_ex (\<lambda>e. same_attempt e c) result
      then update_first (\<lambda>e. same_attempt e c) (complete_attempt c) result
      else result @ [c])"

definition merge_attempts :: "conversation_attempt list \<Rightarrow> conversation_attempt list \<Rightarrow> conversation_attempt list" where
  "merge_attempts l r = foldl add_attempt [] (l @ r)"

definition merge_participants :: "participant list \<Rightarrow> participant list \<Rightarrow> participant list" where
  "merge_participants l r = foldl (\<lambda>res p. if p \<in> set res then res else res @ [p]) [] (l @ r)"

text \<open>The fields of the winner \<open>w\<close> that the other record \<open>x\<close> can improve, one by one.\<close>

definition keep_source :: "conversation_job \<Rightarrow> conversation_job \<Rightarrow> conversation_job" where
  "keep_source x w =
     (if job_source_sequence w = 0 then w\<lparr>job_source_sequence := job_source_sequence x\<rparr> else w)"

definition keep_created :: "conversation_job \<Rightarrow> conversation_job \<Rightarrow> conversation_job" where
  "keep_created x w =
     (if job_created_at w = 0 \<or> (job_created_at x \<noteq> 0 \<and> job_created_at x < job_created_at w)
      then w\<lparr>job_created_at := job_created_at x\<rparr> else w)"

definition keep_latest :: "conversation_job \<Rightarrow> conversation_job \<Rightarrow> conversation_job" where
  "keep_latest x w =
     w\<lparr>job_updated_at := (if job_updated_at x > job_updated_at w then job_updated_at x else job_updated_at w),
       last_activity_at := (if last_activity_at x > last_activity_at w then last_activity_at x
                            else last_activity_at w),
       answer_sequence := (if answer_sequence x > answer_sequence w then answer_sequence x
                           else answer_sequence w),
       unread := unread w \<or> unread x,
       failure_sequence := (if failure_sequence x > failure_sequence w then failure_sequence x
                            else failure_sequence w),
       promoted_sequence := (if promoted_sequence x > promoted_sequence w then promoted_sequence x
                             else promoted_sequence w)\<rparr>"

definition merge_job :: "conversation_job \<Rightarrow> conversation_job \<Rightarrow> conversation_job" where
  "merge_job left right =
     (let (w, x) = (if job_updated_at right > job_updated_at left then (right, left) else (left, right))
      in (keep_latest x (keep_created x (keep_source x w)))
         \<lparr>requested_agents := merge_participants (requested_agents left) (requested_agents right),
          job_attempts := merge_attempts (job_attempts left) (job_attempts right)\<rparr>)"

definition merge_step :: "bool \<times> conversation_job list \<Rightarrow> conversation_job \<Rightarrow> bool \<times> conversation_job list" where
  "merge_step r j =
     (if job_id j = '''' \<or> \<not> list_ex (\<lambda>k. job_id k = job_id j) (snd r)
      then (fst r, snd r @ [j])
      else (True, update_first (\<lambda>k. job_id k = job_id j) (\<lambda>k. merge_job k j) (snd r)))"

definition merge_jobs :: "conversation_job list \<Rightarrow> bool \<times> conversation_job list" where
  "merge_jobs js = (if length js > 1 then foldl merge_step (False, []) js else (False, js))"

section \<open>Normalizing one job\<close>

definition clear_inbox :: "conversation_job \<Rightarrow> bool \<times> conversation_job" where
  "clear_inbox j =
     (if inbox_category j \<noteq> InboxUnset \<or> available_actions j \<noteq> []
      then (True, j\<lparr>inbox_category := InboxUnset, available_actions := []\<rparr>) else (False, j))"

definition close_attempt :: "time \<Rightarrow> conversation_attempt \<Rightarrow> conversation_attempt" where
  "close_attempt t a =
     (if att_completed_at a = None
      then a\<lparr>att_completed_at := Some t,
             att_error := (if trim_space (att_error a) = '''' then ''response interrupted by host restart''
                           else att_error a)\<rparr>
      else a)"

definition close_attempts :: "time \<Rightarrow> conversation_job \<Rightarrow> bool \<times> conversation_job" where
  "close_attempts t j =
     (list_ex (\<lambda>a. att_completed_at a = None) (job_attempts j),
      j\<lparr>job_attempts := map (close_attempt t) (job_attempts j)\<rparr>)"

text \<open>A legacy attention record is routed to Work or becomes a failure; the flag says which.\<close>

definition settle_attention :: "conversation_job \<Rightarrow> bool \<times> bool \<times> conversation_job" where
  "settle_attention j =
     (if job_state j = ConversationNeedsAttention then
        (if action_state j = ConversationRequiresWork \<or> requires_work_conversation (terminal_reason j)
         then (True, True, j\<lparr>job_state := ConversationDismissed, action_state := ActionNone,
                            unread := False, terminal_reason := requiresWorkSentinel\<rparr>)
         else (True, False, j\<lparr>job_state := ConversationFailed, action_state := ActionNone, unread := False\<rparr>))
      else (False, False, j))"

definition fail_restart :: "string \<Rightarrow> conversation_reason \<Rightarrow> time \<Rightarrow> conversation_job \<Rightarrow> conversation_job" where
  "fail_restart reason code t j =
     (finish_job code t (j\<lparr>job_state := ConversationFailed, action_state := ActionNone,
                          terminal_reason := reason\<rparr>))
     \<lparr>unread := False, assigned := '''', queue_position := 0, job_wait_reason := '''', job_updated_at := t\<rparr>"

definition owed :: "conversation_job \<Rightarrow> string \<Rightarrow> (string \<times> string) list" where
  "owed j line = (if failure_sequence j = 0 then [(job_id j, line)] else [])"

definition extend_deadline :: "conversation_job \<Rightarrow> bool \<times> conversation_job" where
  "extend_deadline j =
     (case job_started_at j of
        None \<Rightarrow> (False, j)
      | Some t \<Rightarrow>
          let expected = t + total_budget (job_class j)
          in if (case job_deadline j of None \<Rightarrow> True | Some d \<Rightarrow> d < expected)
             then (True, j\<lparr>job_deadline := Some expected\<rparr>) else (False, j))"

text \<open>The lifecycle switch: changed, the job, its notices, and whether its responder resumes.\<close>

definition settle_lifecycle :: "time \<Rightarrow> conversation_job \<Rightarrow>
    bool \<times> conversation_job \<times> (string \<times> string) list \<times> bool" where
  "settle_lifecycle t j =
     (if job_state j = ConversationAnswering \<or> job_state j = ConversationRetrying then
        (True, fail_restart ''response interrupted by host restart'' ReasonHostRestart t j,
         owed j failureLineInterrupted, False)
      else if job_state j = ConversationFinding \<or> job_state j = ConversationWaiting then
        (let (c, j) = extend_deadline j
         in if (case job_deadline j of None \<Rightarrow> False | Some d \<Rightarrow> \<not> t < d) then
              (True, fail_restart ''hard response deadline expired during host restart'' ReasonDeadline t j,
               owed j failureLineTimedOut, False)
            else (c, j, [], valid_agent (assigned j)))
      else if job_state j = ConversationFailed \<or> job_state j = ConversationDismissed
              \<or> job_state j = ConversationCancelled then
        (if action_state j \<noteq> ActionNone \<or> unread j
         then (True, j\<lparr>action_state := ActionNone, unread := False\<rparr>, [], False) else (False, j, [], False))
      else if job_state j = ConversationAnswered then
        (action_state j \<noteq> ActionNone \<or> unread j, j\<lparr>action_state := ActionNone, unread := False\<rparr>, [], False)
      else (False, j, [], False))"

definition clear_assignment :: "conversation_job \<Rightarrow> bool \<times> conversation_job" where
  "clear_assignment j =
     (if conversation_terminal (job_state j) \<and>
         ((valid_agent (assigned j) \<and> job_state j \<noteq> ConversationAnswered)
          \<or> queue_position j \<noteq> 0 \<or> job_wait_reason j \<noteq> '''')
      then (True, j\<lparr>assigned := '''', queue_position := 0, job_wait_reason := ''''\<rparr>) else (False, j))"

record job_outcome =
  jo_changed :: bool
  jo_job :: conversation_job
  jo_notices :: "(string \<times> string) list"
  jo_to_work :: bool
  jo_routed :: bool
  jo_resumes :: "participant option"

definition normalize_job :: "time \<Rightarrow> conversation_job \<Rightarrow> job_outcome" where
  "normalize_job t j =
     (let (c1, j) = clear_inbox j;
          (c2, j) = close_attempts t j;
          (c3, to_work, j) = settle_attention j;
          routed = (to_work \<or> (job_state j = ConversationDismissed \<and> requires_work_conversation (terminal_reason j)));
          (c4, j, ns, resumes) = settle_lifecycle t j;
          who = (if resumes then Some (assigned j) else None);
          (c5, j) = clear_assignment j
      in \<lparr>jo_changed = (c1 \<or> c2 \<or> c3 \<or> c4 \<or> c5), jo_job = j, jo_notices = ns, jo_to_work = to_work,
          jo_routed = routed, jo_resumes = who\<rparr>)"

section \<open>Normalizing a room\<close>

record input_resolution =
  res_source :: nat
  res_intent :: string
  res_at :: time

record recovery_room =
  input_resolutions :: "(nat \<rightharpoonup> input_resolution) option"
  conversations :: "conversation_job list"
  pending_routes :: "nat list"
  activities :: "(participant \<times> activity) list"

text \<open>The routes and resolutions a job sent to Work adds.\<close>

definition route_to_work :: "time \<Rightarrow> nat \<Rightarrow> nat list \<times> (nat \<rightharpoonup> input_resolution) \<Rightarrow>
    nat list \<times> (nat \<rightharpoonup> input_resolution)" where
  "route_to_work t q r =
     ((if q \<in> set (fst r) then fst r else fst r @ [q]),
      (snd r)(q \<mapsto> \<lparr>res_source = q, res_intent = ''ambiguous'', res_at = t\<rparr>))"

definition route_all :: "time \<Rightarrow> job_outcome list \<Rightarrow> nat list \<times> (nat \<rightharpoonup> input_resolution) \<Rightarrow>
    nat list \<times> (nat \<rightharpoonup> input_resolution)" where
  "route_all t os r =
     foldl (\<lambda>r x. if jo_to_work x then route_to_work t (job_source_sequence (jo_job x)) r else r) r os"

definition drop_route :: "job_outcome list \<Rightarrow> nat \<Rightarrow> bool" where
  "drop_route os q \<longleftrightarrow>
     q \<noteq> 0 \<and> list_ex (\<lambda>x. job_source_sequence (jo_job x) = q) os \<and>
     \<not> list_ex (\<lambda>x. jo_routed x \<and> job_source_sequence (jo_job x) = q) os"

definition stale_activity :: "participant list \<Rightarrow> participant \<times> activity \<Rightarrow> bool" where
  "stale_activity resumable pa \<longleftrightarrow>
     act_role (snd pa) = ''conversation responder'' \<and>
     \<not> (fst pa \<in> set resumable \<and> (act_state (snd pa) = SchedulerQueued \<or> act_state (snd pa) = SchedulerWaiting)) \<and>
     act_state (snd pa) \<in> {SchedulerQueued, SchedulerActive, SchedulerQuiet, SchedulerWaiting, SchedulerNeedsAttention}"

definition finish_activity :: "time \<Rightarrow> activity \<Rightarrow> activity" where
  "finish_activity t a =
     a\<lparr>act_state := SchedulerDone, act_action := ''conversation lifecycle reconciled'',
       act_wait_reason := '''', act_dependency := '''', act_deadline := None,
       act_transition := ''conversation_reconciled'', act_last_update := t\<rparr>"

definition normalize_inbox :: "time \<Rightarrow> recovery_room \<Rightarrow> bool \<times> recovery_room \<times> (string \<times> string) list" where
  "normalize_inbox t room =
     (let (c1, js) = merge_jobs (conversations room);
          os = map (normalize_job t) js;
          (routes, res) = route_all t os
             (pending_routes room, case input_resolutions room of None \<Rightarrow> Map.empty | Some m \<Rightarrow> m);
          resumable = concat (map (\<lambda>x. case jo_resumes x of None \<Rightarrow> [] | Some p \<Rightarrow> [p]) os);
          stale = stale_activity resumable
      in (input_resolutions room = None \<or> c1 \<or> list_ex jo_changed os \<or>
            list_ex (drop_route os) routes \<or> list_ex stale (activities room),
          \<lparr>input_resolutions = Some res, conversations = map jo_job os,
           pending_routes = filter (\<lambda>q. \<not> drop_route os q) routes,
           activities = map (\<lambda>pa. if stale pa then (fst pa, finish_activity t (snd pa)) else pa)
                          (activities room)\<rparr>,
          concat (map jo_notices os)))"

section \<open>Failure notices\<close>

datatype append_outcome = IdFailed | AppendFailed | AppendedThenFailed string time | Appended string time

definition next_sequence :: "message list \<Rightarrow> nat" where
  "next_sequence ms = foldl (\<lambda>n m. if sequence m \<ge> n then sequence m + 1 else n) 1 ms"

definition is_failure_message :: "message \<Rightarrow> bool" where
  "is_failure_message m \<longleftrightarrow>
     author m = System \<and> conversation_id m \<noteq> '''' \<and> conversation_failure_line (msg_text m)"

definition existing_line :: "message list \<Rightarrow> string \<Rightarrow> nat option" where
  "existing_line ms i =
     map_option sequence (find (\<lambda>m. is_failure_message m \<and> conversation_id m = i) ms)"

definition failure_message :: "nat \<Rightarrow> string \<Rightarrow> time \<Rightarrow> string \<times> string \<Rightarrow> message" where
  "failure_message n mid at notice =
     empty_message\<lparr>sequence := n, msg_id := mid, author := System, kind := MessageText,
       conversation_id := fst notice, msg_text := snd notice, created_at := at\<rparr>"

record notice_state =
  ns_jobs :: "conversation_job list"
  ns_transcript :: "message list"
  ns_next :: nat
  ns_existing :: "string \<Rightarrow> nat option"

definition set_failure :: "string \<Rightarrow> nat \<Rightarrow> notice_state \<Rightarrow> notice_state" where
  "set_failure i n s =
     s\<lparr>ns_jobs := update_first (\<lambda>j. job_id j = i) (\<lambda>j. j\<lparr>failure_sequence := n\<rparr>) (ns_jobs s)\<rparr>"

text \<open>One notice: \<open>Inl\<close> aborts the start, with what the transcript then holds.\<close>

definition append_notice :: "append_outcome \<Rightarrow> string \<times> string \<Rightarrow> notice_state \<Rightarrow>
    message list + notice_state" where
  "append_notice outcome notice s =
     (case find (\<lambda>j. job_id j = fst notice) (ns_jobs s) of
        None \<Rightarrow> Inr s
      | Some j \<Rightarrow>
          if failure_sequence j \<noteq> 0 then Inr s
          else case ns_existing s (fst notice) of
                 Some n \<Rightarrow> Inr (set_failure (fst notice) n s)
               | None \<Rightarrow>
                   (case outcome of
                      IdFailed \<Rightarrow> Inl (ns_transcript s)
                    | AppendFailed \<Rightarrow> Inl (ns_transcript s)
                    | AppendedThenFailed i t \<Rightarrow>
                        Inl (ns_transcript s @ [failure_message (ns_next s) i t notice])
                    | Appended i t \<Rightarrow>
                        let m = failure_message (ns_next s) i t notice
                        in Inr (set_failure (fst notice) (sequence m)
                             (s\<lparr>ns_transcript := ns_transcript s @ [m], ns_next := ns_next s + 1,
                                ns_existing := (ns_existing s)(fst notice \<mapsto> sequence m)\<rparr>))))"

fun append_notices :: "(nat \<Rightarrow> append_outcome) \<Rightarrow> nat \<Rightarrow> (string \<times> string) list \<Rightarrow> notice_state \<Rightarrow>
    message list + notice_state" where
  "append_notices io i [] s = Inr s"
| "append_notices io i (n # ns) s =
     (case append_notice (io i) n s of
        Inl ms \<Rightarrow> Inl ms
      | Inr s \<Rightarrow> append_notices io (Suc i) ns s)"

section \<open>One start of the host\<close>

text \<open>
  Before the inbox is normalized, the start marks what a lost provider process was doing and reaps the
  temporary responders: their conversations lose them.  (The member, session and settings entries of a
  reaped responder go with it; those maps are not part of this state.)
\<close>

definition interrupt_activity :: "time \<Rightarrow> activity \<Rightarrow> bool \<times> activity" where
  "interrupt_activity t a =
     (if act_state a \<in> {SchedulerActive, SchedulerQuiet, SchedulerPosted}
      then (True, a\<lparr>act_state := SchedulerNeedsAttention,
              act_wait_reason := (if act_state a = SchedulerPosted
                then ''collaborative follow-up was interrupted by host restart''
                else ''provider process did not survive host restart''),
              act_transition := ''host_restart'', act_last_update := t\<rparr>)
      else (False, a))"

definition reap_temporary :: "time \<Rightarrow> conversation_job \<Rightarrow> bool \<times> conversation_job" where
  "reap_temporary t j =
     (if \<not> temporary j \<or> \<not> valid_agent (assigned j) then (False, j)
      else (True, j\<lparr>assigned := '''', temporary := False, retire_at := None, retired_at := Some t,
                    job_updated_at := t\<rparr>))"

definition before_inbox :: "time \<Rightarrow> recovery_room \<Rightarrow> bool \<times> recovery_room" where
  "before_inbox t room =
     (list_ex (\<lambda>pa. fst (interrupt_activity t (snd pa))) (activities room) \<or>
        list_ex (\<lambda>j. fst (reap_temporary t j)) (conversations room),
      room\<lparr>activities := map (\<lambda>pa. (fst pa, snd (interrupt_activity t (snd pa)))) (activities room),
           conversations := map (\<lambda>j. snd (reap_temporary t j)) (conversations room)\<rparr>)"

text \<open>\<open>workflows_changed\<close>: the start also had to repair delegations or workflows of the room.\<close>

record start_io =
  start_now :: time
  workflows_changed :: bool
  appends :: "nat \<Rightarrow> append_outcome"
  room_saved :: bool

type_synonym disk_state = "recovery_room \<times> message list"

text \<open>The failure lines that a start owes: the conversation and its line.\<close>

definition owed_notices :: "start_io \<Rightarrow> disk_state \<Rightarrow> (string \<times> string) list" where
  "owed_notices E d = snd (snd (normalize_inbox (start_now E) (snd (before_inbox (start_now E) (fst d)))))"

text \<open>What the disk holds after a start, and whether the host came up.\<close>

definition startup :: "start_io \<Rightarrow> disk_state \<Rightarrow> bool \<times> disk_state" where
  "startup E d =
     (let (c1, room) = before_inbox (start_now E) (fst d);
          (c2, room, notices) = normalize_inbox (start_now E) room
      in case append_notices (appends E) 0 notices
                \<lparr>ns_jobs = conversations room, ns_transcript = snd d,
                 ns_next = next_sequence (snd d), ns_existing = existing_line (snd d)\<rparr> of
           Inl ms \<Rightarrow> (False, fst d, ms)
         | Inr s \<Rightarrow>
             let room = room\<lparr>conversations := ns_jobs s\<rparr>
             in if workflows_changed E \<or> c1 \<or> c2 \<or> notices \<noteq> [] then
                  (if room_saved E then (True, room, ns_transcript s) else (False, fst d, ns_transcript s))
                else (True, room, ns_transcript s))"

section \<open>Lemmas\<close>

subsection \<open>Merging\<close>

definition ids_unique :: "conversation_job list \<Rightarrow> bool" where
  "ids_unique js \<longleftrightarrow> distinct (filter (\<lambda>i. i \<noteq> '''') (map job_id js))"

lemma merge_job_id: "job_id l = job_id r \<Longrightarrow> job_id (merge_job l r) = job_id l"
  by (simp add: merge_job_def keep_source_def keep_created_def keep_latest_def)

lemma map_update_first_eq:
  "(\<And>x. p x \<Longrightarrow> g (f x) = g x) \<Longrightarrow> map g (update_first p f xs) = map g xs"
  by (induction xs) auto

lemma merge_step_unique: "ids_unique (snd r) \<Longrightarrow> ids_unique (snd (merge_step r j))"
  by (auto simp: merge_step_def ids_unique_def list_ex_iff map_update_first_eq merge_job_id)

lemma merge_fold_unique: "ids_unique (snd r) \<Longrightarrow> ids_unique (snd (foldl merge_step r js))"
  by (induction js arbitrary: r) (simp_all add: merge_step_unique)

lemma merge_jobs_unique: "ids_unique (snd (merge_jobs js))"
proof (cases "length js > 1")
  case True
  then show ?thesis using merge_fold_unique [of "(False, [])" js] by (simp add: merge_jobs_def ids_unique_def)
next
  case False
  then show ?thesis by (cases js) (auto simp: merge_jobs_def ids_unique_def)
qed

lemma merge_fold_id: "ids_unique (snd r @ js) \<Longrightarrow> foldl merge_step r js = (fst r, snd r @ js)"
proof (induction js arbitrary: r)
  case (Cons j js)
  have "job_id j = '''' \<or> \<not> list_ex (\<lambda>k. job_id k = job_id j) (snd r)"
    using Cons.prems by (auto simp: ids_unique_def list_ex_iff)
  then have "merge_step r j = (fst r, snd r @ [j])" by (auto simp: merge_step_def)
  with Cons.IH [of "(fst r, snd r @ [j])"] Cons.prems show ?case by simp
qed simp

lemma merge_jobs_id: "ids_unique js \<Longrightarrow> merge_jobs js = (False, js)"
  using merge_fold_id [of "(False, [])" js] by (simp add: merge_jobs_def)

subsection \<open>A normalized job\<close>

definition job_normal :: "time \<Rightarrow> conversation_job \<Rightarrow> bool" where
  "job_normal t j \<longleftrightarrow>
     inbox_category j = InboxUnset \<and> available_actions j = [] \<and>
     (\<forall>a\<in>set (job_attempts j). att_completed_at a \<noteq> None) \<and>
     job_state j \<notin> {ConversationNeedsAttention, ConversationAnswering, ConversationRetrying} \<and>
     (job_state j \<in> {ConversationFinding, ConversationWaiting} \<longrightarrow>
        \<not> fst (extend_deadline j) \<and> (\<forall>d. job_deadline j = Some d \<longrightarrow> t < d)) \<and>
     (job_state j \<in> {ConversationFailed, ConversationDismissed, ConversationCancelled, ConversationAnswered} \<longrightarrow>
        action_state j = ActionNone \<and> \<not> unread j) \<and>
     \<not> fst (clear_assignment j)"

lemma extend_deadline_same [simp]:
  "job_state (snd (extend_deadline j)) = job_state j" "job_attempts (snd (extend_deadline j)) = job_attempts j"
  "inbox_category (snd (extend_deadline j)) = inbox_category j"
  "available_actions (snd (extend_deadline j)) = available_actions j"
  "assigned (snd (extend_deadline j)) = assigned j"
  "job_source_sequence (snd (extend_deadline j)) = job_source_sequence j"
  "job_id (snd (extend_deadline j)) = job_id j"
  "failure_sequence (snd (extend_deadline j)) = failure_sequence j"
  "terminal_reason (snd (extend_deadline j)) = terminal_reason j"
  by (auto simp: extend_deadline_def Let_def split: option.split)

lemma extend_deadline_idem: "extend_deadline (snd (extend_deadline j)) = (False, snd (extend_deadline j))"
  by (auto simp: extend_deadline_def Let_def split: option.split)

lemma extend_deadline_not: "\<not> fst (extend_deadline j) \<Longrightarrow> extend_deadline j = (False, j)"
  by (auto simp: extend_deadline_def Let_def split: option.splits)

lemma clear_assignment_cases:
  "clear_assignment j = (True, j\<lparr>assigned := '''', queue_position := 0, job_wait_reason := ''''\<rparr>) \<and>
     conversation_terminal (job_state j) \<or>
   clear_assignment j = (False, j)"
  by (simp add: clear_assignment_def)

lemma clear_assignment_not: "\<not> fst (clear_assignment j) \<Longrightarrow> clear_assignment j = (False, j)"
  by (simp add: clear_assignment_def split: if_splits)

lemma not_valid_empty [simp]: "\<not> valid_agent ''''"
  by code_simp

lemma close_attempts_done: "\<forall>a\<in>set (job_attempts j). att_completed_at a \<noteq> None \<Longrightarrow> close_attempts t j = (False, j)"
proof -
  assume d: "\<forall>a\<in>set (job_attempts j). att_completed_at a \<noteq> None"
  then have "map (close_attempt t) (job_attempts j) = job_attempts j"
    by (intro map_idI) (auto simp: close_attempt_def)
  with d show ?thesis by (simp add: close_attempts_def list_ex_iff)
qed

lemma close_attempts_closed: "a \<in> set (job_attempts (snd (close_attempts t j))) \<Longrightarrow> att_completed_at a \<noteq> None"
  by (auto simp: close_attempts_def close_attempt_def)

lemma settled_same: "action_state j = ActionNone \<Longrightarrow> \<not> unread j \<Longrightarrow> j\<lparr>action_state := ActionNone, unread := False\<rparr> = j"
  by (cases j) simp

lemma job_normal_fixed:
  assumes "job_normal t j"
  shows "normalize_job t j =
    \<lparr>jo_changed = False, jo_job = j, jo_notices = [], jo_to_work = False,
     jo_routed = (job_state j = ConversationDismissed \<and> requires_work_conversation (terminal_reason j)),
     jo_resumes = (if job_state j \<in> {ConversationFinding, ConversationWaiting} \<and> valid_agent (assigned j)
                   then Some (assigned j) else None)\<rparr>"
proof -
  have 1: "clear_inbox j = (False, j)" using assms by (simp add: job_normal_def clear_inbox_def)
  have 2: "close_attempts t j = (False, j)" using assms by (simp add: job_normal_def close_attempts_done)
  have 3: "settle_attention j = (False, False, j)" using assms by (simp add: job_normal_def settle_attention_def)
  have 4: "settle_lifecycle t j = (False, j, [],
      job_state j \<in> {ConversationFinding, ConversationWaiting} \<and> valid_agent (assigned j))"
  proof (cases "job_state j \<in> {ConversationFinding, ConversationWaiting}")
    case True
    then have "extend_deadline j = (False, j)" "\<forall>d. job_deadline j = Some d \<longrightarrow> t < d"
      using assms extend_deadline_not by (auto simp: job_normal_def)
    with True assms show ?thesis
      by (auto simp: settle_lifecycle_def job_normal_def split: option.split)
  next
    case False
    show ?thesis
    proof (cases "job_state j \<in> {ConversationFailed, ConversationDismissed, ConversationCancelled, ConversationAnswered}")
      case True
      with assms have "action_state j = ActionNone" "\<not> unread j" unfolding job_normal_def by blast+
      then have "j\<lparr>action_state := ActionNone, unread := False\<rparr> = j" by (rule settled_same)
      with True \<open>action_state j = ActionNone\<close> \<open>\<not> unread j\<close> show ?thesis
        by (elim insertE emptyE) (simp_all add: settle_lifecycle_def)
    next
      case other: False
      have "job_state j \<notin> {ConversationAnswering, ConversationRetrying}"
        using assms unfolding job_normal_def by blast
      with False other show ?thesis by (simp add: settle_lifecycle_def)
    qed
  qed
  have 5: "clear_assignment j = (False, j)"
    using assms clear_assignment_not unfolding job_normal_def by blast
  show ?thesis by (simp add: normalize_job_def 1 2 3 4 5)
qed

text \<open>What the lifecycle switch leaves, before assignments are cleared.\<close>

definition almost_normal :: "time \<Rightarrow> conversation_job \<Rightarrow> bool" where
  "almost_normal t j \<longleftrightarrow>
     inbox_category j = InboxUnset \<and> available_actions j = [] \<and>
     (\<forall>a\<in>set (job_attempts j). att_completed_at a \<noteq> None) \<and>
     job_state j \<notin> {ConversationNeedsAttention, ConversationAnswering, ConversationRetrying} \<and>
     (job_state j \<in> {ConversationFinding, ConversationWaiting} \<longrightarrow>
        \<not> fst (extend_deadline j) \<and> (\<forall>d. job_deadline j = Some d \<longrightarrow> t < d)) \<and>
     (job_state j \<in> {ConversationFailed, ConversationDismissed, ConversationCancelled, ConversationAnswered} \<longrightarrow>
        action_state j = ActionNone \<and> \<not> unread j)"

lemma clear_assignment_normal:
  assumes "almost_normal t j"
  shows "job_normal t (snd (clear_assignment j))"
  using clear_assignment_cases [of j]
proof (elim disjE conjE)
  assume c: "clear_assignment j = (True, j\<lparr>assigned := '''', queue_position := 0, job_wait_reason := ''''\<rparr>)"
    and t: "conversation_terminal (job_state j)"
  then have "job_state j \<notin> {ConversationFinding, ConversationWaiting}"
    by (auto simp: conversation_terminal_def)
  with assms c show ?thesis
    by (simp add: almost_normal_def job_normal_def) (simp add: clear_assignment_def)
next
  assume "clear_assignment j = (False, j)"
  with assms show ?thesis by (simp add: almost_normal_def job_normal_def)
qed

subsection \<open>Normalizing a job normalizes it\<close>

text \<open>The stages, with the identity of a job.\<close>

definition same_job :: "conversation_job \<Rightarrow> conversation_job \<Rightarrow> bool" where
  "same_job a b \<longleftrightarrow> job_id a = job_id b \<and> job_source_sequence a = job_source_sequence b \<and>
     failure_sequence a = failure_sequence b"

lemma same_job_trans: "same_job a b \<Longrightarrow> same_job b c \<Longrightarrow> same_job a c"
  by (simp add: same_job_def)

lemma stages_same:
  "same_job (snd (clear_inbox j)) j" "same_job (snd (close_attempts t j)) j"
  "same_job (snd (snd (settle_attention j))) j" "same_job (snd (clear_assignment j)) j"
  "same_job (snd (extend_deadline j)) j" "same_job (fail_restart r c t j) j"
  by (simp_all add: same_job_def clear_inbox_def close_attempts_def settle_attention_def
      clear_assignment_def fail_restart_def finish_job_def)

text \<open>What a job looks like when it reaches the lifecycle switch.\<close>

definition prepared :: "conversation_job \<Rightarrow> bool" where
  "prepared j \<longleftrightarrow> inbox_category j = InboxUnset \<and> available_actions j = [] \<and>
     (\<forall>a\<in>set (job_attempts j). att_completed_at a \<noteq> None) \<and> job_state j \<noteq> ConversationNeedsAttention"

lemma prepared_stages: "prepared (snd (snd (settle_attention (snd (close_attempts t (snd (clear_inbox j)))))))"
proof -
  let ?a = "snd (close_attempts t (snd (clear_inbox j)))"
  have "\<forall>a\<in>set (job_attempts ?a). att_completed_at a \<noteq> None" using close_attempts_closed by blast
  moreover have "inbox_category ?a = InboxUnset \<and> available_actions ?a = []"
    by (simp add: close_attempts_def clear_inbox_def)
  ultimately show ?thesis by (simp add: prepared_def settle_attention_def)
qed

lemma fail_restart_normal: "prepared j \<Longrightarrow> almost_normal t (fail_restart r c u j)"
  by (simp add: prepared_def almost_normal_def fail_restart_def finish_job_def)

lemma lifecycle_cases:
  assumes "prepared j"
  obtains (interrupted) "job_state j \<in> {ConversationAnswering, ConversationRetrying}"
    "settle_lifecycle t j = (True, fail_restart ''response interrupted by host restart'' ReasonHostRestart t j,
       owed j failureLineInterrupted, False)"
  | (expired) "job_state j \<in> {ConversationFinding, ConversationWaiting}"
    "settle_lifecycle t j = (True, fail_restart ''hard response deadline expired during host restart''
       ReasonDeadline t (snd (extend_deadline j)), owed (snd (extend_deadline j)) failureLineTimedOut, False)"
  | (resumed) "job_state j \<in> {ConversationFinding, ConversationWaiting}"
    "\<forall>d. job_deadline (snd (extend_deadline j)) = Some d \<longrightarrow> t < d"
    "settle_lifecycle t j = (fst (extend_deadline j), snd (extend_deadline j), [], valid_agent (assigned j))"
  | (ended) c where "job_state j \<in> {ConversationFailed, ConversationDismissed, ConversationCancelled, ConversationAnswered}"
    "settle_lifecycle t j = (c, j\<lparr>action_state := ActionNone, unread := False\<rparr>, [], False)"
  | (other) "\<exists>s. job_state j = OtherConversation s" "settle_lifecycle t j = (False, j, [], False)"
proof -
  let ?e = "snd (extend_deadline j)"
  show thesis
  proof (cases "job_state j")
    case ConversationAnswering
    then show thesis by (intro interrupted) (simp_all add: settle_lifecycle_def)
  next
    case ConversationRetrying
    then show thesis by (intro interrupted) (simp_all add: settle_lifecycle_def)
  next
    case (OtherConversation s)
    then show thesis by (intro other) (simp_all add: settle_lifecycle_def)
  next
    case ConversationNeedsAttention
    with assms show thesis by (simp add: prepared_def)
  next
    case ConversationAnswered
    then show thesis by (intro ended) (simp_all add: settle_lifecycle_def)
  next
    case ConversationFailed
    then show thesis using settled_same [of j]
      by (intro ended [of "action_state j \<noteq> ActionNone \<or> unread j"]) (simp_all add: settle_lifecycle_def)
  next
    case ConversationDismissed
    then show thesis using settled_same [of j]
      by (intro ended [of "action_state j \<noteq> ActionNone \<or> unread j"]) (simp_all add: settle_lifecycle_def)
  next
    case ConversationCancelled
    then show thesis using settled_same [of j]
      by (intro ended [of "action_state j \<noteq> ActionNone \<or> unread j"]) (simp_all add: settle_lifecycle_def)
  next
    case ConversationFinding
    show thesis
    proof (cases "\<exists>d. job_deadline ?e = Some d \<and> \<not> t < d")
      case True
      with ConversationFinding show thesis
        by (intro expired) (auto simp: settle_lifecycle_def split_beta)
    next
      case False
      with ConversationFinding show thesis
        by (intro resumed) (auto simp: settle_lifecycle_def split_beta split: option.split)
    qed
  next
    case ConversationWaiting
    show thesis
    proof (cases "\<exists>d. job_deadline ?e = Some d \<and> \<not> t < d")
      case True
      with ConversationWaiting show thesis
        by (intro expired) (auto simp: settle_lifecycle_def split_beta)
    next
      case False
      with ConversationWaiting show thesis
        by (intro resumed) (auto simp: settle_lifecycle_def split_beta split: option.split)
    qed
  qed
qed

lemma lifecycle_normal:
  assumes "prepared j"
  shows "almost_normal t (fst (snd (settle_lifecycle t j)))"
  using assms
proof (cases rule: lifecycle_cases [where t = t])
  case interrupted
  then show ?thesis using assms by (simp add: fail_restart_normal)
next
  case expired
  have "prepared (snd (extend_deadline j))" using assms by (simp add: prepared_def)
  with expired show ?thesis by (simp add: fail_restart_normal)
next
  case resumed
  then show ?thesis using assms extend_deadline_idem [of j]
    by (auto simp: almost_normal_def prepared_def)
next
  case (ended c)
  then show ?thesis using assms by (auto simp: almost_normal_def prepared_def)
next
  case other
  then show ?thesis using assms by (auto simp: almost_normal_def prepared_def)
qed

lemma lifecycle_same: "prepared j \<Longrightarrow> same_job (fst (snd (settle_lifecycle t j))) j"
proof -
  assume "prepared j"
  then show ?thesis
  proof (cases rule: lifecycle_cases [where t = t])
    case expired
    then show ?thesis using same_job_trans [OF stages_same(6) stages_same(5)] by simp
  qed (simp_all add: same_job_def fail_restart_def finish_job_def)
qed

text \<open>The stages named, so that each property of the result is read off one of them.\<close>

lemma normalize_job_stages:
  obtains p c ns resumes to_work where
    "prepared p" "p = snd (snd (settle_attention (snd (close_attempts t (snd (clear_inbox j))))))"
    "to_work = fst (snd (settle_attention (snd (close_attempts t (snd (clear_inbox j))))))"
    "settle_lifecycle t p = (c, fst (snd (settle_lifecycle t p)), ns, resumes)"
    "jo_job (normalize_job t j) = snd (clear_assignment (fst (snd (settle_lifecycle t p))))"
    "jo_notices (normalize_job t j) = ns" "jo_to_work (normalize_job t j) = to_work"
    "jo_routed (normalize_job t j) = (to_work \<or>
       (job_state p = ConversationDismissed \<and> requires_work_conversation (terminal_reason p)))"
    "jo_resumes (normalize_job t j) =
       (if resumes then Some (assigned (fst (snd (settle_lifecycle t p)))) else None)"
    "same_job p j"
proof -
  let ?q = "settle_attention (snd (close_attempts t (snd (clear_inbox j))))"
  let ?p = "snd (snd ?q)"
  let ?l = "settle_lifecycle t ?p"
  have "same_job ?p j"
    using same_job_trans [OF same_job_trans [OF stages_same(3) stages_same(2)] stages_same(1)] .
  then show thesis
    by (intro that [where p = ?p and to_work = "fst (snd ?q)" and c = "fst ?l"
          and ns = "fst (snd (snd ?l))" and resumes = "snd (snd (snd ?l))"])
      (simp_all add: prepared_stages normalize_job_def split_beta Let_def)
qed

lemma normalize_job_normal: "job_normal t (jo_job (normalize_job t j))"
proof -
  obtain p where "prepared p" and
    p: "jo_job (normalize_job t j) = snd (clear_assignment (fst (snd (settle_lifecycle t p))))"
    by (rule normalize_job_stages) blast
  then show ?thesis by (simp add: p clear_assignment_normal lifecycle_normal)
qed

lemma normalize_job_same: "same_job (jo_job (normalize_job t j)) j"
proof -
  obtain p where p: "prepared p" "same_job p j"
    "jo_job (normalize_job t j) = snd (clear_assignment (fst (snd (settle_lifecycle t p))))"
    by (rule normalize_job_stages) blast
  show ?thesis unfolding p(3)
    by (rule same_job_trans [OF same_job_trans [OF stages_same(4) lifecycle_same [OF p(1)]] p(2)])
qed

lemma sentinel_requires_work: "requires_work_conversation requiresWorkSentinel"
  by code_simp

lemma restart_reasons: "\<not> requires_work_conversation ''response interrupted by host restart''"
  "\<not> requires_work_conversation ''hard response deadline expired during host restart''"
  by code_simp+

text \<open>A job routed to Work is recognized again at the next start.\<close>

lemma normalize_job_routed:
  "jo_routed (normalize_job t j) \<longleftrightarrow>
     job_state (jo_job (normalize_job t j)) = ConversationDismissed \<and>
     requires_work_conversation (terminal_reason (jo_job (normalize_job t j)))"
proof -
  obtain p to_work where p: "prepared p"
    "p = snd (snd (settle_attention (snd (close_attempts t (snd (clear_inbox j))))))"
    "to_work = fst (snd (settle_attention (snd (close_attempts t (snd (clear_inbox j))))))"
    "jo_job (normalize_job t j) = snd (clear_assignment (fst (snd (settle_lifecycle t p))))"
    "jo_routed (normalize_job t j) = (to_work \<or>
       (job_state p = ConversationDismissed \<and> requires_work_conversation (terminal_reason p)))"
    by (rule normalize_job_stages) blast
  have w: "to_work \<Longrightarrow> job_state p = ConversationDismissed \<and> requires_work_conversation (terminal_reason p)"
    unfolding p(2,3) by (simp add: settle_attention_def sentinel_requires_work split: if_splits)
  have c: "job_state (snd (clear_assignment x)) = job_state x"
    "terminal_reason (snd (clear_assignment x)) = terminal_reason x" for x
    by (simp_all add: clear_assignment_def)
  have "job_state (fst (snd (settle_lifecycle t p))) = ConversationDismissed \<and>
      requires_work_conversation (terminal_reason (fst (snd (settle_lifecycle t p)))) \<longleftrightarrow>
      job_state p = ConversationDismissed \<and> requires_work_conversation (terminal_reason p)"
    using p(1)
    by (cases rule: lifecycle_cases [where t = t]) (auto simp: fail_restart_def finish_job_def)
  with w show ?thesis by (auto simp: p(4,5) c)
qed

lemma normalize_job_resumes:
  "jo_resumes (normalize_job t j) = jo_resumes (normalize_job t (jo_job (normalize_job t j)))"
proof -
  let ?j = "jo_job (normalize_job t j)"
  obtain p c ns resumes where p: "prepared p"
    "settle_lifecycle t p = (c, fst (snd (settle_lifecycle t p)), ns, resumes)"
    "?j = snd (clear_assignment (fst (snd (settle_lifecycle t p))))"
    "jo_resumes (normalize_job t j) =
       (if resumes then Some (assigned (fst (snd (settle_lifecycle t p)))) else None)"
    by (rule normalize_job_stages) blast
  have c: "job_state (snd (clear_assignment x)) = job_state x"
    "\<not> conversation_terminal (job_state x) \<Longrightarrow> clear_assignment x = (False, x)" for x
    by (simp_all add: clear_assignment_def)
  note fixed = job_normal_fixed [OF normalize_job_normal [of t j]]
  from p(1) show ?thesis
  proof (cases rule: lifecycle_cases [where t = t])
    case resumed
    let ?x = "snd (extend_deadline p)"
    have "\<not> conversation_terminal (job_state ?x)" using resumed(1) by (auto simp: conversation_terminal_def)
    with resumed p(2,3) have "?j = ?x" "resumes = valid_agent (assigned p)" by (auto simp: c(2))
    with resumed(1,3) p(4) show ?thesis unfolding fixed by auto
  next
    case interrupted
    with p(2,3) have "job_state ?j = ConversationFailed" "\<not> resumes"
      by (auto simp: c(1) fail_restart_def finish_job_def)
    with p(4) show ?thesis unfolding fixed by simp
  next
    case expired
    with p(2,3) have "job_state ?j = ConversationFailed" "\<not> resumes"
      by (auto simp: c(1) fail_restart_def finish_job_def)
    with p(4) show ?thesis unfolding fixed by simp
  next
    case (ended d)
    with p(2,3) have "job_state ?j = job_state p" "\<not> resumes" by (auto simp: c(1))
    with ended(1) p(4) show ?thesis unfolding fixed by auto
  next
    case other
    with p(2,3) have "job_state ?j = job_state p" "\<not> resumes" by (auto simp: c(1))
    with other(1) p(4) show ?thesis unfolding fixed by auto
  qed
qed

subsection \<open>Normalizing a room twice\<close>

lemma route_all_none: "\<forall>x\<in>set os. \<not> jo_to_work x \<Longrightarrow> route_all t os r = r"
  unfolding route_all_def by (induction os arbitrary: r) simp_all

lemma drop_route_same:
  assumes "\<And>j. j \<in> set js \<Longrightarrow> jo_routed (f j) = jo_routed (g j) \<and>
      job_source_sequence (jo_job (f j)) = job_source_sequence (jo_job (g j))"
  shows "drop_route (map f js) q = drop_route (map g js) q"
  using assms by (auto simp: drop_route_def list_ex_iff)

lemma finished_not_stale: "\<not> stale_activity ps (p, finish_activity t a)"
  by (simp add: stale_activity_def finish_activity_def)

lemma renormalized:
  "\<not> jo_changed (normalize_job t (jo_job (normalize_job t j)))"
  "jo_job (normalize_job t (jo_job (normalize_job t j))) = jo_job (normalize_job t j)"
  "jo_notices (normalize_job t (jo_job (normalize_job t j))) = []"
  "\<not> jo_to_work (normalize_job t (jo_job (normalize_job t j)))"
  "jo_routed (normalize_job t (jo_job (normalize_job t j))) = jo_routed (normalize_job t j)"
  "jo_resumes (normalize_job t (jo_job (normalize_job t j))) = jo_resumes (normalize_job t j)"
proof -
  note f = job_normal_fixed [OF normalize_job_normal [of t j]]
  show "\<not> jo_changed (normalize_job t (jo_job (normalize_job t j)))"
    "jo_job (normalize_job t (jo_job (normalize_job t j))) = jo_job (normalize_job t j)"
    "jo_notices (normalize_job t (jo_job (normalize_job t j))) = []"
    "\<not> jo_to_work (normalize_job t (jo_job (normalize_job t j)))"
    by (simp_all add: f)
  show "jo_routed (normalize_job t (jo_job (normalize_job t j))) = jo_routed (normalize_job t j)"
    unfolding normalize_job_routed by (simp add: f)
  show "jo_resumes (normalize_job t (jo_job (normalize_job t j))) = jo_resumes (normalize_job t j)"
    by (rule normalize_job_resumes [symmetric])
qed

lemma normalized_ids: "ids_unique js \<Longrightarrow> ids_unique (map jo_job (map (normalize_job t) js))"
proof -
  have "map job_id (map jo_job (map (normalize_job t) js)) = map job_id js"
    using normalize_job_same by (simp add: same_job_def)
  then show "ids_unique js \<Longrightarrow> ids_unique (map jo_job (map (normalize_job t) js))"
    unfolding ids_unique_def by metis
qed

lemma normalize_inbox_twice:
  "normalize_inbox t (fst (snd (normalize_inbox t room))) = (False, fst (snd (normalize_inbox t room)), [])"
proof -
  obtain c1 js where m: "merge_jobs (conversations room) = (c1, js)" by (cases "merge_jobs (conversations room)")
  define os where "os = map (normalize_job t) js"
  define ks where "ks = map jo_job os"
  define os' where "os' = map (normalize_job t) ks"
  define routes where "routes = fst (route_all t os (pending_routes room,
      case input_resolutions room of None \<Rightarrow> Map.empty | Some m \<Rightarrow> m))"
  define res where "res = snd (route_all t os (pending_routes room,
      case input_resolutions room of None \<Rightarrow> Map.empty | Some m \<Rightarrow> m))"
  define resumable where "resumable = concat (map (\<lambda>x. case jo_resumes x of None \<Rightarrow> [] | Some p \<Rightarrow> [p]) os)"
  define acts where "acts = map (\<lambda>pa. if stale_activity resumable pa
      then (fst pa, finish_activity t (snd pa)) else pa) (activities room)"
  let ?r = "\<lparr>input_resolutions = Some res, conversations = ks,
      pending_routes = filter (\<lambda>q. \<not> drop_route os q) routes, activities = acts\<rparr>"
  have first: "fst (snd (normalize_inbox t room)) = ?r"
    by (simp add: normalize_inbox_def m os_def ks_def routes_def res_def resumable_def acts_def split_beta Let_def)
  have "ids_unique ks"
    using merge_jobs_unique [of "conversations room"] m normalized_ids by (simp add: ks_def os_def)
  then have mk: "merge_jobs ks = (False, ks)" by (rule merge_jobs_id)
  have ks: "ks = map (\<lambda>j. jo_job (normalize_job t j)) js" by (simp add: ks_def os_def)
  have o': "map jo_job os' = ks" "concat (map jo_notices os') = []" "\<not> list_ex jo_changed os'"
    "\<forall>x\<in>set os'. \<not> jo_to_work x"
    by (auto simp: os'_def ks renormalized list_ex_iff)
  have "drop_route os' q = drop_route os q" for q
    unfolding os'_def ks os_def map_map comp_def by (rule drop_route_same) (simp add: renormalized)
  then have d: "drop_route os' = drop_route os" by blast
  have kept: "\<not> list_ex (drop_route os) (filter (\<lambda>q. \<not> drop_route os q) routes)"
    by (auto simp: list_ex_iff)
  have re: "concat (map (\<lambda>x. case jo_resumes x of None \<Rightarrow> [] | Some p \<Rightarrow> [p]) os') = resumable"
    by (simp add: os'_def ks resumable_def os_def renormalized comp_def)
  have st: "\<not> stale_activity resumable pa" if "pa \<in> set acts" for pa
    using that finished_not_stale by (auto simp: acts_def split: if_splits)
  then have acts: "map (\<lambda>pa. if stale_activity resumable pa then (fst pa, finish_activity t (snd pa)) else pa) acts = acts"
    "\<not> list_ex (stale_activity resumable) acts"
    by (auto intro!: map_idI simp: list_ex_iff)
  have "normalize_inbox t ?r = (False, ?r, [])"
    using o' acts kept
    by (simp add: normalize_inbox_def mk os'_def [symmetric] route_all_none d re split_beta Let_def
        del: map_map list_ex_iff)
  then show ?thesis by (simp only: first)
qed

subsection \<open>Notices\<close>

definition lines_of :: "message list \<Rightarrow> string \<Rightarrow> message list" where
  "lines_of ms i = filter (\<lambda>m. is_failure_message m \<and> conversation_id m = i) ms"

text \<open>
  Between two transcripts a conversation got at most one line, and none if it had one.
\<close>

definition one_line_more :: "message list \<Rightarrow> message list \<Rightarrow> bool" where
  "one_line_more ms ms' \<longleftrightarrow>
     (\<forall>i. lines_of ms' i = lines_of ms i \<or> (lines_of ms i = [] \<and> length (lines_of ms' i) = 1))"

lemma one_line_more_refl [simp]: "one_line_more ms ms"
  by (simp add: one_line_more_def)

lemma one_line_more_trans: "one_line_more a b \<Longrightarrow> one_line_more b c \<Longrightarrow> one_line_more a c"
  unfolding one_line_more_def by (metis list.size(3) zero_neq_one)

lemma one_line_more_kept: "one_line_more a b \<Longrightarrow> lines_of a i \<noteq> [] \<Longrightarrow> lines_of b i \<noteq> []"
  unfolding one_line_more_def by metis

definition known_lines :: "notice_state \<Rightarrow> bool" where
  "known_lines s \<longleftrightarrow> (\<forall>i. i \<noteq> '''' \<longrightarrow> (ns_existing s i = None \<longleftrightarrow> lines_of (ns_transcript s) i = []))"

definition good_notice :: "string \<times> string \<Rightarrow> bool" where
  "good_notice n \<longleftrightarrow> conversation_failure_line (snd n)"

lemma lines_of_snoc:
  "good_notice n \<Longrightarrow> lines_of (ms @ [failure_message k i t n]) c =
     lines_of ms c @ (if c = fst n \<and> c \<noteq> '''' then [failure_message k i t n] else [])"
  by (auto simp: lines_of_def is_failure_message_def failure_message_def good_notice_def empty_message_def)

lemma existing_line_None: "existing_line ms i = None \<longleftrightarrow> lines_of ms i = []"
  by (auto simp: existing_line_def lines_of_def find_None_iff filter_empty_conv)

lemma append_notice_lines:
  assumes "known_lines s" "good_notice n"
  shows "case append_notice outcome n s of
     Inl ms \<Rightarrow> one_line_more (ns_transcript s) ms
   | Inr u \<Rightarrow> known_lines u \<and> one_line_more (ns_transcript s) (ns_transcript u)"
proof (cases "find (\<lambda>j. job_id j = fst n) (ns_jobs s)")
  case None
  then show ?thesis using assms by (simp add: append_notice_def)
next
  case (Some j)
  show ?thesis
  proof (cases "failure_sequence j \<noteq> 0 \<or> ns_existing s (fst n) \<noteq> None")
    case True
    then show ?thesis using assms Some
      by (auto simp: append_notice_def set_failure_def known_lines_def)
  next
    case False
    have "fst n \<noteq> '''' \<Longrightarrow> lines_of (ns_transcript s) (fst n) = []"
      using assms(1) False by (auto simp: known_lines_def)
    then have "one_line_more (ns_transcript s) (ns_transcript s @ [failure_message k i t n])" for k i t
      using lines_of_snoc [OF assms(2)] by (auto simp: one_line_more_def)
    with False Some assms show ?thesis
      by (cases outcome)
        (auto simp: append_notice_def set_failure_def known_lines_def lines_of_snoc Let_def)
  qed
qed

lemma append_notices_lines:
  assumes "known_lines s" "\<forall>n\<in>set ns. good_notice n"
  shows "case append_notices io k ns s of
     Inl ms \<Rightarrow> one_line_more (ns_transcript s) ms
   | Inr u \<Rightarrow> known_lines u \<and> one_line_more (ns_transcript s) (ns_transcript u)"
  using assms
proof (induction io k ns s rule: append_notices.induct)
  case (2 io k n ns s)
  from append_notice_lines [of s n "io k"] 2(2,3) 2(1) show ?case
    by (cases "append_notice (io k) n s") (auto split: sum.splits elim: one_line_more_trans)
qed simp

lemma normalize_notices_good:
  assumes "n \<in> set (snd (snd (normalize_inbox t room)))"
  shows "good_notice n"
proof -
  from assms obtain j where n: "n \<in> set (jo_notices (normalize_job t j))"
    by (auto simp: normalize_inbox_def split_beta Let_def)
  obtain p where p: "prepared p" "jo_notices (normalize_job t j) = fst (snd (snd (settle_lifecycle t p)))"
  proof (rule normalize_job_stages [of t j])
    fix p c ns resumes
    assume "prepared p" "settle_lifecycle t p = (c, fst (snd (settle_lifecycle t p)), ns, resumes)"
      "jo_notices (normalize_job t j) = ns"
    then show thesis by (intro that [of p]) (simp_all, metis fst_conv snd_conv)
  qed
  note n = n [unfolded p(2)]
  have lines: "conversation_failure_line failureLineInterrupted" "conversation_failure_line failureLineTimedOut"
    by code_simp+
  from p(1) n show ?thesis
    by (cases rule: lifecycle_cases [where t = t])
      (auto simp: owed_def good_notice_def lines split: if_splits)
qed

text \<open>Among the ids \<open>I\<close> that are owed a line, a job that names one has it.\<close>

definition told :: "string set \<Rightarrow> notice_state \<Rightarrow> bool" where
  "told I s \<longleftrightarrow> (\<forall>i j. i \<in> I \<longrightarrow> i \<noteq> '''' \<longrightarrow> find (\<lambda>j. job_id j = i) (ns_jobs s) = Some j \<longrightarrow>
     failure_sequence j \<noteq> 0 \<longrightarrow> lines_of (ns_transcript s) i \<noteq> [])"

lemma find_update_first:
  "(\<And>j. job_id (f j) = job_id j) \<Longrightarrow>
   find (\<lambda>j. job_id j = i) (update_first (\<lambda>j. job_id j = k) f js) =
     (if i = k then map_option f (find (\<lambda>j. job_id j = i) js) else find (\<lambda>j. job_id j = i) js)"
  by (induction js) auto

lemma find_set_failure:
  "find (\<lambda>j. job_id j = i) (ns_jobs (set_failure k n s)) =
     (if i = k then map_option (\<lambda>j. j\<lparr>failure_sequence := n\<rparr>) (find (\<lambda>j. job_id j = i) (ns_jobs s))
      else find (\<lambda>j. job_id j = i) (ns_jobs s))"
  by (simp add: set_failure_def find_update_first)

lemma set_failure_transcript [simp]:
  "ns_transcript (set_failure i n s) = ns_transcript s" "ns_existing (set_failure i n s) = ns_existing s"
  by (simp_all add: set_failure_def)

lemma append_notice_told:
  assumes "append_notice outcome n s = Inr u" "known_lines s" "good_notice n" "told I s" "fst n \<in> I"
    "find (\<lambda>j. job_id j = fst n) (ns_jobs s) \<noteq> None"
  shows "told I u" "fst n \<noteq> '''' \<Longrightarrow> lines_of (ns_transcript u) (fst n) \<noteq> []"
    "find (\<lambda>j. job_id j = i) (ns_jobs u) = None \<longleftrightarrow> find (\<lambda>j. job_id j = i) (ns_jobs s) = None"
proof -
  from assms(6) obtain j where j: "find (\<lambda>j. job_id j = fst n) (ns_jobs s) = Some j" by auto
  have all: "told I u \<and> (fst n \<noteq> '''' \<longrightarrow> lines_of (ns_transcript u) (fst n) \<noteq> []) \<and>
      (find (\<lambda>j. job_id j = i) (ns_jobs u) = None \<longleftrightarrow> find (\<lambda>j. job_id j = i) (ns_jobs s) = None)"
  proof (cases "failure_sequence j \<noteq> 0")
    case True
    then have "u = s" using assms(1) j by (simp add: append_notice_def)
    with True j assms(4,5) show ?thesis by (auto simp: told_def)
  next
    case seq: False
    show ?thesis
    proof (cases "ns_existing s (fst n)")
      case (Some k)
      then have u: "u = set_failure (fst n) k s" using assms(1) j seq by (simp add: append_notice_def)
      have line: "fst n \<noteq> '''' \<Longrightarrow> lines_of (ns_transcript s) (fst n) \<noteq> []"
        using assms(2) Some by (auto simp: known_lines_def)
      with assms(4) show ?thesis by (auto simp: u told_def find_set_failure)
    next
      case None
      then obtain i' t where o: "outcome = Appended i' t" using assms(1) j seq
        by (cases outcome) (simp_all add: append_notice_def)
      let ?m = "failure_message (ns_next s) i' t n"
      have u: "u = set_failure (fst n) (sequence ?m) (s\<lparr>ns_transcript := ns_transcript s @ [?m],
          ns_next := ns_next s + 1, ns_existing := (ns_existing s)(fst n \<mapsto> sequence ?m)\<rparr>)"
        using assms(1) j seq None by (simp add: o append_notice_def Let_def)
      show ?thesis using assms(4)
        by (auto simp: u told_def find_set_failure lines_of_snoc [OF assms(3)])
    qed
  qed
  from all show "told I u" by blast
  from all show "fst n \<noteq> '''' \<Longrightarrow> lines_of (ns_transcript u) (fst n) \<noteq> []" by blast
  from all show "find (\<lambda>j. job_id j = i) (ns_jobs u) = None \<longleftrightarrow> find (\<lambda>j. job_id j = i) (ns_jobs s) = None"
    by blast
qed

lemma append_notices_told:
  assumes "append_notices io k ns s = Inr u" "known_lines s" "\<forall>n\<in>set ns. good_notice n" "told I s"
    "\<forall>n\<in>set ns. fst n \<in> I \<and> find (\<lambda>j. job_id j = fst n) (ns_jobs s) \<noteq> None"
  shows "\<forall>n\<in>set ns. fst n \<noteq> '''' \<longrightarrow> lines_of (ns_transcript u) (fst n) \<noteq> []"
  using assms
proof (induction io k ns s rule: append_notices.induct)
  case (2 io k n ns s)
  then obtain v where v: "append_notice (io k) n s = Inr v" "append_notices io (Suc k) ns v = Inr u"
    by (auto split: sum.splits)
  from 2(4) have good: "good_notice n" "\<forall>n\<in>set ns. good_notice n" by simp_all
  from 2(6) have found: "fst n \<in> I" "find (\<lambda>j. job_id j = fst n) (ns_jobs s) \<noteq> None" by simp_all
  note step = append_notice_told [OF v(1) 2(3) good(1) 2(5) found]
  have known: "known_lines v" using append_notice_lines [OF 2(3) good(1), of "io k"] v(1) by simp
  have "\<forall>n\<in>set ns. fst n \<in> I \<and> find (\<lambda>j. job_id j = fst n) (ns_jobs v) \<noteq> None"
    using 2(6) step(3) by simp
  from 2(1) [OF v(1) v(2) known good(2) step(1) this]
  have rest: "\<forall>n\<in>set ns. fst n \<noteq> '''' \<longrightarrow> lines_of (ns_transcript u) (fst n) \<noteq> []" .
  have "fst n \<noteq> '''' \<longrightarrow> lines_of (ns_transcript u) (fst n) \<noteq> []"
    using append_notices_lines [OF known good(2), of io "Suc k"] v(2) step(2) one_line_more_kept by fastforce
  with rest show ?case by simp
qed simp

lemma find_job_unique:
  assumes "ids_unique js" "j \<in> set js" "job_id j \<noteq> ''''"
  shows "find (\<lambda>k. job_id k = job_id j) js = Some j"
  using assms
proof (induction js)
  case (Cons k js)
  then show ?case by (cases "k = j") (auto simp: ids_unique_def split: if_splits)
qed simp

text \<open>A notice belongs to a job that has no failure line on record.\<close>

lemma lifecycle_owes:
  assumes "prepared p" "n \<in> set (fst (snd (snd (settle_lifecycle t p))))"
  shows "fst n = job_id p" "failure_sequence p = 0"
  using assms(1) assms(2)
  by (cases rule: lifecycle_cases [where t = t]; auto simp: owed_def split: if_splits)+

lemma normalize_owes:
  assumes "n \<in> set (jo_notices (normalize_job t j))"
  shows "fst n = job_id (jo_job (normalize_job t j)) \<and> failure_sequence (jo_job (normalize_job t j)) = 0"
proof (rule normalize_job_stages [of t j])
  fix p c ns resumes
  assume p: "prepared p" "settle_lifecycle t p = (c, fst (snd (settle_lifecycle t p)), ns, resumes)"
    "jo_notices (normalize_job t j) = ns" "same_job p j"
  then have "ns = fst (snd (snd (settle_lifecycle t p)))" by (metis fst_conv snd_conv)
  with assms p(3) have "n \<in> set (fst (snd (snd (settle_lifecycle t p))))" by simp
  from lifecycle_owes [OF p(1) this] p(4) show ?thesis
    using normalize_job_same [of t j] by (simp add: same_job_def)
qed

lemma normalize_inbox_unique: "ids_unique (conversations (fst (snd (normalize_inbox t room))))"
  using merge_jobs_unique [of "conversations room"] normalized_ids
  by (simp add: normalize_inbox_def split_beta Let_def del: map_map)

lemma normalize_inbox_owes:
  assumes "n \<in> set (snd (snd (normalize_inbox t room)))"
  obtains j where "j \<in> set (conversations (fst (snd (normalize_inbox t room))))" "fst n = job_id j"
    "failure_sequence j = 0"
proof -
  from assms obtain k where "k \<in> set (snd (merge_jobs (conversations room)))"
    "n \<in> set (jo_notices (normalize_job t k))"
    by (auto simp: normalize_inbox_def split_beta Let_def)
  then show thesis using normalize_owes [of n t k]
    by (intro that [of "jo_job (normalize_job t k)"]) (auto simp: normalize_inbox_def split_beta Let_def)
qed

subsection \<open>Starts\<close>

definition notice_start :: "recovery_room \<Rightarrow> message list \<Rightarrow> notice_state" where
  "notice_start room ms = \<lparr>ns_jobs = conversations room, ns_transcript = ms,
     ns_next = next_sequence ms, ns_existing = existing_line ms\<rparr>"

lemma known_lines_start: "known_lines (notice_start room ms)"
  by (simp add: notice_start_def known_lines_def existing_line_None)

abbreviation start_room :: "start_io \<Rightarrow> disk_state \<Rightarrow> recovery_room" where
  "start_room E d \<equiv> snd (before_inbox (start_now E) (fst d))"

lemma startup_cases:
  assumes "normalize_inbox (start_now E) (start_room E d) = (changed, room, notices)"
  obtains (aborted) ms where "append_notices (appends E) 0 notices (notice_start room (snd d)) = Inl ms"
    "startup E d = (False, fst d, ms)"
  | (unsaved) s where "append_notices (appends E) 0 notices (notice_start room (snd d)) = Inr s"
    "startup E d = (False, fst d, ns_transcript s)"
  | (up) s where "append_notices (appends E) 0 notices (notice_start room (snd d)) = Inr s"
    "startup E d = (True, room\<lparr>conversations := ns_jobs s\<rparr>, ns_transcript s)"
proof (cases "append_notices (appends E) 0 notices (notice_start room (snd d))")
  case (Inl ms)
  then show thesis using assms by (intro aborted) (simp_all add: startup_def notice_start_def split_beta)
next
  case (Inr s)
  show thesis
  proof (cases "(workflows_changed E \<or> fst (before_inbox (start_now E) (fst d)) \<or> changed \<or> notices \<noteq> []) \<and> \<not> room_saved E")
    case True
    with Inr assms show thesis by (intro unsaved) (simp_all add: startup_def notice_start_def Let_def split_beta)
  next
    case False
    with Inr assms show thesis
      by (intro up) (auto simp: startup_def notice_start_def Let_def split_beta)
  qed
qed

lemma startup_lines: "one_line_more (snd d) (snd (snd (startup E d)))"
proof -
  obtain changed room notices where n: "normalize_inbox (start_now E) (start_room E d) = (changed, room, notices)"
    by (cases "normalize_inbox (start_now E) (start_room E d)")
  have good: "\<forall>x\<in>set notices. good_notice x"
    using normalize_notices_good [of _ "start_now E" "start_room E d"] by (simp add: n)
  note lines = append_notices_lines [OF known_lines_start good, of room "snd d" "appends E" 0]
  from n show ?thesis by (cases rule: startup_cases) (use lines in \<open>auto simp: notice_start_def\<close>)
qed

lemma startup_told:
  assumes "fst (startup E d)" "n \<in> set (owed_notices E d)" "fst n \<noteq> ''''"
  shows "lines_of (snd (snd (startup E d))) (fst n) \<noteq> []"
proof -
  obtain changed room notices where n: "normalize_inbox (start_now E) (start_room E d) = (changed, room, notices)"
    by (cases "normalize_inbox (start_now E) (start_room E d)")
  let ?s = "notice_start room (snd d)"
  have good: "\<forall>x\<in>set notices. good_notice x"
    using normalize_notices_good [of _ "start_now E" "start_room E d"] by (simp add: n)
  have owed: "\<exists>j. find (\<lambda>k. job_id k = fst x) (conversations room) = Some j \<and>
      (fst x \<noteq> '''' \<longrightarrow> failure_sequence j = 0)" if x: "x \<in> set notices" for x
  proof -
    obtain j where j: "j \<in> set (conversations room)" "fst x = job_id j" "failure_sequence j = 0"
      by (rule normalize_inbox_owes [of x "start_now E" "start_room E d"]) (simp_all add: n x)
    then obtain k where k: "find (\<lambda>k. job_id k = fst x) (conversations room) = Some k"
      by (cases "find (\<lambda>k. job_id k = fst x) (conversations room)") (auto simp: find_None_iff)
    with j find_job_unique [OF _ j(1)] normalize_inbox_unique [of "start_now E" "start_room E d"] n show ?thesis
      by auto
  qed
  have "told (fst ` set notices) ?s" using owed by (force simp: told_def notice_start_def)
  moreover have "\<forall>x\<in>set notices. fst x \<in> fst ` set notices \<and> find (\<lambda>j. job_id j = fst x) (ns_jobs ?s) \<noteq> None"
    using owed by (force simp: notice_start_def)
  ultimately have lines: "append_notices (appends E) 0 notices ?s = Inr u \<Longrightarrow>
      lines_of (ns_transcript u) (fst n) \<noteq> []" for u
    using append_notices_told [OF _ known_lines_start good] assms(2,3) n by (auto simp: owed_notices_def)
  from n show ?thesis
    by (cases rule: startup_cases) (use lines assms(1) in auto)
qed

definition startups :: "start_io list \<Rightarrow> disk_state \<Rightarrow> disk_state" where
  "startups Es d = foldl (\<lambda>d E. snd (startup E d)) d Es"

lemma startups_lines: "one_line_more (snd d) (snd (startups Es d))"
proof (induction Es arbitrary: d)
  case (Cons E Es)
  from one_line_more_trans [OF startup_lines Cons.IH] show ?case by (simp add: startups_def)
qed (simp add: startups_def)

section \<open>Properties\<close>

text \<open>C32. Normalizing a room at startup settles it: no two jobs share an id, no job is left
  answering or retrying or past its deadline, every attempt is closed, and a second pass at the same
  time changes nothing and owes no further failure line.\<close>
theorem recovery_settles:
  "ids_unique (conversations (fst (snd (normalize_inbox t room)))) \<and>
   list_all (job_normal t) (conversations (fst (snd (normalize_inbox t room)))) \<and>
   normalize_inbox t (fst (snd (normalize_inbox t room))) =
     (False, fst (snd (normalize_inbox t room)), [])"
  using normalize_inbox_unique normalize_inbox_twice normalize_job_normal
  by (simp add: normalize_inbox_def split_beta Let_def list.pred_map comp_def list_all_iff)

text \<open>C4. A failed reply is told once.  From any disk, over any starts \<open>Es\<close> (failed ones, with the
  transcript line written and the room not, and successful ones), a conversation that had failure lines
  gets no further one and a conversation that had none gets at most one; and a start that succeeds after
  them leaves every conversation it owed a line (and that has an id) with a line in the transcript.\<close>
theorem failure_told_once:
  "(\<forall>i. lines_of (snd (startups Es d)) i = lines_of (snd d) i \<or>
        (lines_of (snd d) i = [] \<and> length (lines_of (snd (startups Es d)) i) = 1)) \<and>
   (fst (startup E (startups Es d)) \<longrightarrow>
      (\<forall>n\<in>set (owed_notices E (startups Es d)). fst n \<noteq> '''' \<longrightarrow>
         lines_of (snd (snd (startup E (startups Es d)))) (fst n) \<noteq> []))"
  using startups_lines [of d Es] startup_told [of E "startups Es d"] unfolding one_line_more_def by blast

text \<open>Two interrupted replies; the first start crashes after one transcript line.\<close>

definition interrupted_room :: recovery_room where
  "interrupted_room = \<lparr>input_resolutions = None, conversations =
     [empty_job\<lparr>job_id := ''c1'', job_state := ConversationAnswering\<rparr>,
      empty_job\<lparr>job_id := ''c2'', job_state := ConversationWaiting, job_started_at := Some 0\<rparr>],
     pending_routes = [], activities = []\<rparr>"

definition crashing_start :: start_io where
  "crashing_start = \<lparr>start_now = 600 * second, workflows_changed = False,
     appends = (\<lambda>i. AppendedThenFailed ''m'' 0), room_saved = True\<rparr>"

definition good_start :: start_io where
  "good_start = \<lparr>start_now = 600 * second, workflows_changed = False, appends = (\<lambda>i. Appended ''m'' 0), room_saved = True\<rparr>"

lemma interrupted_start: "fst (startup good_start (startups [crashing_start] (interrupted_room, [])))"
  by code_simp

lemma interrupted_owed: "(''c1'', failureLineInterrupted) \<in>
    set (owed_notices good_start (startups [crashing_start] (interrupted_room, [])))"
  by code_simp

theorem failure_told_once_witness:
  "lines_of (snd (snd (startup good_start (startups [crashing_start] (interrupted_room, []))))) ''c1'' \<noteq> []"
  using failure_told_once [of "[crashing_start]" "(interrupted_room, [])" good_start] interrupted_start interrupted_owed
  by fastforce

lemma told_after_crash:
  "map msg_text (lines_of (snd (snd (startup good_start (startups [crashing_start] (interrupted_room, []))))) ''c1'') =
     [failureLineInterrupted]"
  by code_simp

end
