(* ===== verification/Event_Queue.thy ===== *)
theory Event_Queue
  imports Mo_Prelude
begin

text \<open>
  The notification queue between the reader of a provider's event stream and the turn that
  consumes it, \<^verbatim>\<open>internal/agent/codex/event_queue.go\<close>, and what the reader of
  \<^verbatim>\<open>internal/agent/codex/client.go\<close> puts on it.  The slice with its head index, the byte count
  and the buffered wake-up channel are kept as the code has them and refine a plain list.
  The JSON encoding of a text delta is the argument \<open>delta_codec\<close>.
\<close>

section \<open>Messages\<close>

text \<open>The \<open>Error\<close> of a response never reaches the queue and is left out.\<close>

record rpc_message =
  rpc_id :: string
  rpc_method :: string
  rpc_params :: string
  rpc_result :: string

definition empty_rpc :: rpc_message where
  "empty_rpc = \<lparr>rpc_id = '''', rpc_method = '''', rpc_params = '''', rpc_result = ''''\<rparr>"

record text_delta =
  delta_thread :: string
  delta_turn :: string
  delta_item :: string
  delta_text :: string

record delta_codec =
  decode_delta :: "string \<Rightarrow> text_delta option"
  encode_delta :: "text_delta \<Rightarrow> string"

definition deltaMethod :: string where "deltaMethod = ''item/agentMessage/delta''"

definition event_bytes :: "rpc_message \<Rightarrow> int" where
  "event_bytes m = int (length (rpc_id m)) + int (length (rpc_method m)) + int (length (rpc_params m))
     + int (length (rpc_result m))"

definition consumed_notification :: "string \<Rightarrow> bool" where
  "consumed_notification m \<longleftrightarrow>
     m \<in> {''thread/settings/updated'', deltaMethod, ''item/started'', ''item/completed'',
          ''turn/completed'', ''error''}"

text \<open>What the reader does with a decoded message.\<close>

datatype reader_action = AnswerCall string | DropMessage | QueueMessage

definition reader_action_of :: "rpc_message \<Rightarrow> reader_action" where
  "reader_action_of m =
     (if length (rpc_id m) > 0 \<and> rpc_method m = '''' then AnswerCall (rpc_id m)
      else if length (rpc_id m) = 0 \<and> \<not> consumed_notification (rpc_method m) then DropMessage
      else QueueMessage)"

section \<open>The queue\<close>

datatype queue_error = EventQueueOverflow | OtherError string

definition maxQueuedEvents :: nat where "maxQueuedEvents = 4096"
definition maxQueuedBytes :: int where "maxQueuedBytes = 16 * 1024 * 1024"

record notification_queue =
  q_ready :: bool
  q_items :: "rpc_message list"
  q_head :: nat
  q_bytes :: int
  q_err :: "queue_error option"
  high_entries :: nat
  high_bytes :: int
  coalesced :: nat
  overflows :: nat
  q_ended :: "queue_error option"

definition new_queue :: notification_queue where
  "new_queue = \<lparr>q_ready = False, q_items = [], q_head = 0, q_bytes = 0, q_err = None, high_entries = 0,
     high_bytes = 0, coalesced = 0, overflows = 0, q_ended = None\<rparr>"

definition queue_wake :: "notification_queue \<Rightarrow> notification_queue" where
  "queue_wake q = q\<lparr>q_ready := True\<rparr>"

text \<open>The delta that \<open>old\<close> and \<open>m\<close> join to.\<close>

definition joined_delta :: "delta_codec \<Rightarrow> rpc_message \<Rightarrow> rpc_message \<Rightarrow> text_delta option" where
  "joined_delta C old m =
     (if length (rpc_id old) = 0 \<and> rpc_method old = rpc_method m then
        case (decode_delta C (rpc_params old), decode_delta C (rpc_params m)) of
          (Some a, Some b) \<Rightarrow>
            if delta_thread a = delta_thread b \<and> delta_turn a = delta_turn b \<and> delta_item a = delta_item b
               \<and> delta_thread a \<noteq> '''' \<and> delta_turn a \<noteq> '''' \<and> delta_item a \<noteq> ''''
               \<and> length (delta_text a) + length (delta_text b) \<le> 64 * 1024
            then Some (a\<lparr>delta_text := delta_text a @ delta_text b\<rparr>) else None
        | _ \<Rightarrow> None
      else None)"

text \<open>How an event is added to the live events: the bytes added, and the events when it merged.\<close>

definition try_merge :: "delta_codec \<Rightarrow> int \<Rightarrow> rpc_message list \<Rightarrow> rpc_message \<Rightarrow> int \<times> rpc_message list option" where
  "try_merge C bytes live m =
     (if length (rpc_id m) = 0 \<and> rpc_method m = deltaMethod \<and> live \<noteq> [] then
        case joined_delta C (last live) m of
          None \<Rightarrow> (event_bytes m, None)
        | Some d \<Rightarrow>
            let encoded = encode_delta C d;
                added = int (length encoded) - int (length (rpc_params (last live)))
            in if bytes + added \<le> maxQueuedBytes
               then (added, Some (butlast live @ [(last live)\<lparr>rpc_params := encoded\<rparr>]))
               else (added, None)
      else (event_bytes m, None))"

definition queue_push :: "delta_codec \<Rightarrow> rpc_message \<Rightarrow> notification_queue \<Rightarrow>
    queue_error option \<times> notification_queue" where
  "queue_push C m q =
     (case q_err q of
        Some e \<Rightarrow> (Some e, q)
      | None \<Rightarrow>
          let (added, merged) = try_merge C (q_bytes q) (drop (q_head q) (q_items q)) m;
              q = (case merged of
                     None \<Rightarrow> q
                   | Some live \<Rightarrow> q\<lparr>q_items := take (q_head q) (q_items q) @ live, coalesced := coalesced q + 1\<rparr>)
          in if q_bytes q + added > maxQueuedBytes
                \<or> (merged = None \<and> length (q_items q) - q_head q \<ge> maxQueuedEvents)
             then (Some EventQueueOverflow,
                   queue_wake (q\<lparr>q_err := Some EventQueueOverflow, overflows := overflows q + 1\<rparr>))
             else let q = (if merged = None then q\<lparr>q_items := q_items q @ [m]\<rparr> else q);
                      q = q\<lparr>q_bytes := q_bytes q + added\<rparr>;
                      q = q\<lparr>high_entries := max (high_entries q) (length (q_items q) - q_head q),
                            high_bytes := max (high_bytes q) (q_bytes q)\<rparr>
                  in (None, queue_wake q))"

text \<open>What \<open>pop\<close> hands out: the event, or none with the error to report.\<close>

datatype popped = Popped rpc_message | NotReady "queue_error option"

definition queue_pop :: "notification_queue \<Rightarrow> popped \<times> notification_queue" where
  "queue_pop q =
     (case q_err q of
        Some e \<Rightarrow> (NotReady (Some e), q)
      | None \<Rightarrow>
          if q_head q = length (q_items q) then (NotReady (q_ended q), q)
          else
            let m = q_items q ! q_head q;
                q = q\<lparr>q_items := (q_items q)[q_head q := empty_rpc], q_head := q_head q + 1,
                      q_bytes := q_bytes q - event_bytes m\<rparr>
            in if q_head q = length (q_items q)
               then (Popped m, let q = q\<lparr>q_items := [], q_head := 0\<rparr>
                               in if q_ended q \<noteq> None then queue_wake q else q)
               else (Popped m, queue_wake (if q_head q \<ge> 1024
                                           then q\<lparr>q_items := drop (q_head q) (q_items q), q_head := 0\<rparr> else q)))"

definition queue_fail :: "queue_error \<Rightarrow> notification_queue \<Rightarrow> notification_queue" where
  "queue_fail e q = queue_wake (case q_err q of None \<Rightarrow> q\<lparr>q_err := Some e\<rparr> | Some _ \<Rightarrow> q)"

definition queue_end :: "queue_error \<Rightarrow> notification_queue \<Rightarrow> notification_queue" where
  "queue_end e q = queue_wake (q\<lparr>q_ended := Some e\<rparr>)"

datatype queue_op = Push rpc_message | Pop | Fail queue_error | End queue_error

datatype queue_answer = Pushed "queue_error option" | Took popped | Done

fun queue_step :: "delta_codec \<Rightarrow> queue_op \<Rightarrow> notification_queue \<Rightarrow> queue_answer \<times> notification_queue" where
  "queue_step C (Push m) q = map_prod Pushed id (queue_push C m q)"
| "queue_step C Pop q = map_prod Took id (queue_pop q)"
| "queue_step C (Fail e) q = (Done, queue_fail e q)"
| "queue_step C (End e) q = (Done, queue_end e q)"

section \<open>The specification\<close>

text \<open>A list of events with a sticky error and an end of stream; the bytes are those of the events.\<close>

record event_list =
  events :: "rpc_message list"
  failed :: "queue_error option"
  ended :: "queue_error option"

definition total_bytes :: "rpc_message list \<Rightarrow> int" where
  "total_bytes ms = sum_list (map event_bytes ms)"

definition spec_push :: "delta_codec \<Rightarrow> rpc_message \<Rightarrow> event_list \<Rightarrow> queue_error option \<times> event_list" where
  "spec_push C m s =
     (case failed s of
        Some e \<Rightarrow> (Some e, s)
      | None \<Rightarrow>
          let (added, merged) = try_merge C (total_bytes (events s)) (events s) m
          in if total_bytes (events s) + added > maxQueuedBytes
                \<or> (merged = None \<and> length (events s) \<ge> maxQueuedEvents)
             then (Some EventQueueOverflow, s\<lparr>failed := Some EventQueueOverflow\<rparr>)
             else (None, s\<lparr>events := (case merged of None \<Rightarrow> events s @ [m] | Some live \<Rightarrow> live)\<rparr>))"

definition spec_pop :: "event_list \<Rightarrow> popped \<times> event_list" where
  "spec_pop s =
     (case failed s of
        Some e \<Rightarrow> (NotReady (Some e), s)
      | None \<Rightarrow> (case events s of [] \<Rightarrow> (NotReady (ended s), s) | m # ms \<Rightarrow> (Popped m, s\<lparr>events := ms\<rparr>)))"

fun spec_step :: "delta_codec \<Rightarrow> queue_op \<Rightarrow> event_list \<Rightarrow> queue_answer \<times> event_list" where
  "spec_step C (Push m) s = map_prod Pushed id (spec_push C m s)"
| "spec_step C Pop s = map_prod Took id (spec_pop s)"
| "spec_step C (Fail e) s = (Done, case failed s of None \<Rightarrow> s\<lparr>failed := Some e\<rparr> | Some _ \<Rightarrow> s)"
| "spec_step C (End e) s = (Done, s\<lparr>ended := Some e\<rparr>)"

definition live :: "notification_queue \<Rightarrow> rpc_message list" where
  "live q = drop (q_head q) (q_items q)"

definition queue_abs :: "notification_queue \<Rightarrow> event_list" where
  "queue_abs q = \<lparr>events = live q, failed = q_err q, ended = q_ended q\<rparr>"

definition queue_good :: "notification_queue \<Rightarrow> bool" where
  "queue_good q \<longleftrightarrow>
     q_head q \<le> length (q_items q) \<and> q_head q < 1024 \<and> (live q = [] \<longrightarrow> q_items q = []) \<and>
     q_bytes q = total_bytes (live q) \<and> q_bytes q \<le> maxQueuedBytes \<and> length (live q) \<le> maxQueuedEvents \<and>
     length (live q) \<le> high_entries q \<and> high_entries q \<le> maxQueuedEvents \<and>
     q_bytes q \<le> high_bytes q \<and> high_bytes q \<le> maxQueuedBytes"

section \<open>The queue refines the specification\<close>

lemma total_bytes_simps [simp]:
  "total_bytes [] = 0" "total_bytes (m # ms) = event_bytes m + total_bytes ms"
  "total_bytes (xs @ ys) = total_bytes xs + total_bytes ys"
  by (simp_all add: total_bytes_def)

lemma event_bytes_pos: "0 \<le> event_bytes m"
  by (simp add: event_bytes_def)

lemma total_bytes_pos: "0 \<le> total_bytes ms"
  using event_bytes_pos by (induction ms) (simp_all add: add_nonneg_nonneg)

text \<open>A merge replaces the last event and accounts for the difference.\<close>

lemma try_merge_Some:
  assumes "try_merge C n ms m = (added, Some ms')"
  shows "total_bytes ms' = total_bytes ms + added" "length ms' = length ms" "ms \<noteq> []" "n + added \<le> maxQueuedBytes"
proof -
  from assms obtain d where ne: "ms \<noteq> []" and ms': "ms' = butlast ms @ [(last ms)\<lparr>rpc_params := encode_delta C d\<rparr>]"
    and added: "added = int (length (encode_delta C d)) - int (length (rpc_params (last ms)))"
    and fits: "n + added \<le> maxQueuedBytes"
    by (auto simp: try_merge_def Let_def split: if_splits option.splits)
  have "total_bytes ms = total_bytes (butlast ms) + event_bytes (last ms)"
    by (subst append_butlast_last_id [OF ne, symmetric]) (simp del: append_butlast_last_id)
  with ms' added show "total_bytes ms' = total_bytes ms + added" by (simp add: event_bytes_def)
  from ne ms' show "length ms' = length ms" "ms \<noteq> []" by simp_all
  from fits show "n + added \<le> maxQueuedBytes" .
qed

lemma try_merge_None_added:
  "try_merge C n ms m = (added, None) \<Longrightarrow> added = event_bytes m \<or> n + added > maxQueuedBytes"
  by (auto simp: try_merge_def Let_def split: if_splits option.splits)

lemma live_simps [simp]:
  "live (queue_wake q) = live q" "queue_abs (queue_wake q) = queue_abs q" "queue_good (queue_wake q) = queue_good q"
  by (simp_all add: live_def queue_wake_def queue_abs_def queue_good_def)

lemma wake_fields [simp]:
  "q_items (queue_wake q) = q_items q" "q_head (queue_wake q) = q_head q" "q_bytes (queue_wake q) = q_bytes q"
  "q_err (queue_wake q) = q_err q" "q_ended (queue_wake q) = q_ended q"
  "high_entries (queue_wake q) = high_entries q" "high_bytes (queue_wake q) = high_bytes q"
  "coalesced (queue_wake q) = coalesced q" "q_ready (queue_wake q)"
  by (simp_all add: queue_wake_def)

lemma good_flags [simp]:
  "queue_good (q\<lparr>q_err := e\<rparr>) = queue_good q" "queue_good (q\<lparr>q_ended := x\<rparr>) = queue_good q"
  "queue_good (q\<lparr>q_err := e, overflows := n\<rparr>) = queue_good q"
  "live (q\<lparr>q_err := e\<rparr>) = live q" "live (q\<lparr>q_ended := x\<rparr>) = live q" "live (q\<lparr>q_err := e, overflows := n\<rparr>) = live q"
  by (simp_all add: queue_good_def live_def)

lemma new_queue_good: "queue_good new_queue" "queue_abs new_queue = \<lparr>events = [], failed = None, ended = None\<rparr>"
  by (simp_all add: queue_good_def new_queue_def live_def maxQueuedBytes_def queue_abs_def)

text \<open>An accepted push, by what happens to the live events.\<close>

definition accept :: "rpc_message list \<Rightarrow> nat \<Rightarrow> notification_queue \<Rightarrow> notification_queue" where
  "accept ms c q = queue_wake (q\<lparr>q_items := take (q_head q) (q_items q) @ ms, q_bytes := total_bytes ms,
     high_entries := max (high_entries q) (length ms), high_bytes := max (high_bytes q) (total_bytes ms),
     coalesced := c\<rparr>)"

lemma accept_good:
  assumes "queue_good q" "ms \<noteq> []" "length ms \<le> maxQueuedEvents" "total_bytes ms \<le> maxQueuedBytes"
  shows "queue_good (accept ms c q)" "queue_abs (accept ms c q) = (queue_abs q)\<lparr>events := ms\<rparr>"
  using assms by (auto simp: queue_good_def accept_def live_def queue_abs_def queue_wake_def)

lemma queue_push_cases:
  assumes "queue_good q"
  obtains (stuck) e where "q_err q = Some e" "queue_push C m q = (Some e, q)"
  | (overflow) added merged where "q_err q = None" "try_merge C (q_bytes q) (live q) m = (added, merged)"
    "q_bytes q + added > maxQueuedBytes \<or> (merged = None \<and> length (live q) \<ge> maxQueuedEvents)"
    "queue_push C m q = (Some EventQueueOverflow,
       queue_wake (q\<lparr>q_err := Some EventQueueOverflow, overflows := overflows q + 1\<rparr>))"
  | (merged) added ms where "q_err q = None" "try_merge C (q_bytes q) (live q) m = (added, Some ms)"
    "queue_push C m q = (None, accept ms (coalesced q + 1) q)"
  | (added) "q_err q = None" "try_merge C (q_bytes q) (live q) m = (event_bytes m, None)"
    "total_bytes (live q @ [m]) \<le> maxQueuedBytes" "length (live q @ [m]) \<le> maxQueuedEvents"
    "queue_push C m q = (None, accept (live q @ [m]) (coalesced q) q)"
proof (cases "q_err q")
  case (Some e)
  then show thesis by (intro stuck) (simp_all add: queue_push_def)
next
  case None
  obtain added mg where tm: "try_merge C (q_bytes q) (live q) m = (added, mg)"
    by (cases "try_merge C (q_bytes q) (live q) m")
  note tm' = tm [unfolded live_def]
  have h: "q_head q \<le> length (q_items q)" "q_bytes q = total_bytes (live q)"
    using assms by (simp_all add: queue_good_def)
  show thesis
  proof (cases mg)
    case (Some ms)
    note m = try_merge_Some [OF tm [unfolded Some]]
    have "\<not> q_bytes q + added > maxQueuedBytes" using m(4) by simp
    moreover have "length (take (q_head q) (q_items q) @ ms) - q_head q = length ms" using h(1) by simp
    moreover have "q_bytes q + added = total_bytes ms" using m(1) h(2) by simp
    ultimately have "queue_push C m q = (None, accept ms (coalesced q + 1) q)"
      using None tm' Some by (simp add: queue_push_def accept_def Let_def) (cases q, simp add: queue_wake_def)
    with None tm Some show thesis by (intro merged) simp_all
  next
    case none: None
    show thesis
    proof (cases "q_bytes q + added > maxQueuedBytes \<or> length (live q) \<ge> maxQueuedEvents")
      case True
      then have "queue_push C m q = (Some EventQueueOverflow,
          queue_wake (q\<lparr>q_err := Some EventQueueOverflow, overflows := overflows q + 1\<rparr>))"
        using None tm' none by (simp add: queue_push_def Let_def live_def)
      with None tm none True show thesis by (intro overflow [where added = added and merged = mg]) auto
    next
      case False
      with try_merge_None_added [OF tm [unfolded none]] have a: "added = event_bytes m" by auto
      have items: "take (q_head q) (q_items q) @ live q = q_items q" by (simp add: live_def)
      have len: "length (q_items q @ [m]) - q_head q = length (live q @ [m])" using h(1) by (simp add: live_def)
      have "queue_push C m q = (None, accept (live q @ [m]) (coalesced q) q)"
        using None tm' none False a h(2) len
        by (simp add: queue_push_def accept_def Let_def live_def add.commute)
          (simp only: append_assoc [symmetric] append_take_drop_id)
      with None tm none False a h(2) show thesis by (intro added) simp_all
    qed
  qed
qed

text \<open>A successful pop, by what happens to the live events.\<close>

lemma queue_pop_cases:
  assumes "queue_good q"
  obtains (stuck) e where "q_err q = Some e" "queue_pop q = (NotReady (Some e), q)"
  | (empty) "q_err q = None" "live q = []" "queue_pop q = (NotReady (q_ended q), q)"
  | (popped) m ms u where "q_err q = None" "live q = m # ms" "queue_pop q = (Popped m, u)" "live u = ms"
    "queue_good u" "q_err u = None" "q_ended u = q_ended q"
    "q_ready u \<longleftrightarrow> q_ready q \<or> ms \<noteq> [] \<or> q_ended q \<noteq> None"
proof (cases "q_err q")
  case (Some e)
  then show thesis by (intro stuck) (simp_all add: queue_pop_def)
next
  case None
  show thesis
  proof (cases "live q")
    case Nil
    with assms have "q_head q = length (q_items q)" by (simp add: queue_good_def live_def)
    with None Nil show thesis by (intro empty) (simp_all add: queue_pop_def)
  next
    case (Cons m ms)
    then have d: "drop (q_head q) (q_items q) = m # ms" by (simp add: live_def)
    then have h: "q_head q < length (q_items q)" by (metis drop_all list.distinct(1) not_less)
    have m: "q_items q ! q_head q = m" and ms: "drop (Suc (q_head q)) (q_items q) = ms"
      using d nth_via_drop [OF d] by (simp_all add: drop_Suc flip: tl_drop)
    have bytes: "q_bytes q - event_bytes m = total_bytes ms" using assms Cons by (simp add: queue_good_def)
    have pos: "0 \<le> event_bytes m" by (rule event_bytes_pos)
    show thesis
    proof (cases "ms = []")
      case True
      with h ms have l: "length (q_items q) = Suc (q_head q)" by simp
      let ?u = "q\<lparr>q_items := [], q_head := 0, q_bytes := 0, q_ready := q_ready q \<or> q_ended q \<noteq> None\<rparr>"
      have "queue_pop q = (Popped m, ?u)"
        using None h m l bytes True by (cases q) (auto simp: queue_pop_def Let_def queue_wake_def)
      moreover have "queue_good ?u"
        using assms pos Cons True by (auto simp: queue_good_def live_def maxQueuedBytes_def)
      ultimately show thesis using None Cons True
        by (intro popped [where m = m and ms = ms and u = ?u]) (simp_all add: live_def)
    next
      case False
      with h ms have l: "Suc (q_head q) \<noteq> length (q_items q)" by auto
      let ?v = "q\<lparr>q_items := (q_items q)[q_head q := empty_rpc], q_head := Suc (q_head q), q_bytes := total_bytes ms\<rparr>"
      let ?u = "queue_wake (if Suc (q_head q) \<ge> 1024
                  then ?v\<lparr>q_items := drop (q_head ?v) (q_items ?v), q_head := 0\<rparr> else ?v)"
      have "queue_pop q = (Popped m, ?u)"
        using None h m l bytes by (simp add: queue_pop_def Let_def)
      moreover have live: "live ?u = ms" using ms by (simp add: live_def)
      moreover have "queue_good ?u"
      proof -
        have "length ms < length (live q)" using Cons by simp
        then show ?thesis using assms False live pos Cons ms l h
          by (auto simp: queue_good_def live_def)
      qed
      ultimately show thesis using None Cons False
        by (intro popped [where m = m and ms = ms and u = ?u]) (simp_all add: queue_wake_def)
    qed
  qed
qed

lemma queue_step_good: "queue_good q \<Longrightarrow> queue_good (snd (queue_step C r q))"
proof (cases r)
  case (Push m)
  assume g: "queue_good q"
  then show ?thesis
  proof (cases rule: queue_push_cases [of q C m])
    case (merged added ms)
    note m = try_merge_Some [OF merged(2)]
    have "queue_good (accept ms (coalesced q + 1) q)"
      using g m merged by (intro accept_good(1)) (auto simp: queue_good_def)
    with merged Push show ?thesis by simp
  next
    case added
    with g Push show ?thesis by (simp add: accept_good(1))
  qed (use g Push in simp_all)
next
  case Pop
  assume g: "queue_good q"
  then show ?thesis by (cases rule: queue_pop_cases) (use Pop g in simp_all)
next
  case (Fail e)
  assume "queue_good q"
  then show ?thesis by (simp add: Fail queue_fail_def split: option.split)
next
  case (End e)
  assume "queue_good q"
  then show ?thesis by (simp add: End queue_end_def)
qed

lemma queue_step_sim:
  "queue_good q \<Longrightarrow> spec_step C r (queue_abs q) = (fst (queue_step C r q), queue_abs (snd (queue_step C r q)))"
proof (cases r)
  case (Push m)
  assume g: "queue_good q"
  then have b: "q_bytes q = total_bytes (live q)" by (simp add: queue_good_def)
  from g show ?thesis
  proof (cases rule: queue_push_cases [of q C m])
    case (stuck e)
    then show ?thesis by (simp add: Push spec_push_def queue_abs_def)
  next
    case (overflow added merged)
    then show ?thesis using b by (auto simp: Push spec_push_def queue_abs_def live_def queue_wake_def)
  next
    case (merged added ms)
    note m = try_merge_Some [OF merged(2)]
    have "queue_abs (accept ms (coalesced q + 1) q) = (queue_abs q)\<lparr>events := ms\<rparr>"
      using g m b merged by (intro accept_good(2)) (auto simp: queue_good_def)
    with merged b m(4) show ?thesis by (simp add: Push spec_push_def queue_abs_def)
  next
    case added
    have "queue_abs (accept (live q @ [m]) (coalesced q) q) = (queue_abs q)\<lparr>events := live q @ [m]\<rparr>"
      using g added by (intro accept_good(2)) simp_all
    with added b show ?thesis by (simp add: Push spec_push_def queue_abs_def)
  qed
next
  case Pop
  assume "queue_good q"
  then show ?thesis
    by (cases rule: queue_pop_cases) (auto simp: Pop spec_pop_def queue_abs_def)
next
  case (Fail e)
  then show ?thesis by (auto simp: queue_fail_def queue_abs_def live_def queue_wake_def split: option.split)
next
  case (End e)
  then show ?thesis by (simp add: queue_end_def queue_abs_def live_def queue_wake_def)
qed

interpretation queue: implementation "queue_step C" "spec_step C" queue_abs queue_good for C
  by unfold_locales (simp_all add: queue_step_good queue_step_sim)

section \<open>Nothing is lost by merging\<close>

text \<open>
  What a sequence of events says: each text delta of an item says its characters, one after the
  other; every other event says itself.
\<close>

datatype utterance = Text_Char string string string char | Event rpc_message

definition says :: "delta_codec \<Rightarrow> rpc_message \<Rightarrow> utterance list" where
  "says C m =
     (if rpc_id m = '''' \<and> rpc_method m = deltaMethod then
        case decode_delta C (rpc_params m) of
          Some d \<Rightarrow> if delta_thread d \<noteq> '''' \<and> delta_turn d \<noteq> '''' \<and> delta_item d \<noteq> ''''
                    then map (Text_Char (delta_thread d) (delta_turn d) (delta_item d)) (delta_text d)
                    else [Event m]
        | None \<Rightarrow> [Event m]
      else [Event m])"

definition says_all :: "delta_codec \<Rightarrow> rpc_message list \<Rightarrow> utterance list" where
  "says_all C ms = concat (map (says C) ms)"

lemma says_all_simps [simp]:
  "says_all C [] = []" "says_all C (m # ms) = says C m @ says_all C ms"
  "says_all C (xs @ ys) = says_all C xs @ says_all C ys"
  by (simp_all add: says_all_def)

definition codec_ok :: "delta_codec \<Rightarrow> bool" where
  "codec_ok C \<longleftrightarrow> (\<forall>d. decode_delta C (encode_delta C d) = Some d)"

lemma says_joined:
  assumes "codec_ok C" "joined_delta C old m = Some d" "rpc_id m = ''''" "rpc_method m = deltaMethod"
  shows "says C (old\<lparr>rpc_params := encode_delta C d\<rparr>) = says C old @ says C m"
  using assms by (auto simp: joined_delta_def says_def codec_ok_def split: if_splits option.splits)

lemma try_merge_says:
  assumes "codec_ok C" "try_merge C n ms m = (added, Some ms')"
  shows "says_all C ms' = says_all C ms @ says C m"
proof -
  from assms(2) obtain d where d: "joined_delta C (last ms) m = Some d" and m: "rpc_id m = ''''" "rpc_method m = deltaMethod"
    and ne: "ms \<noteq> []" and ms': "ms' = butlast ms @ [(last ms)\<lparr>rpc_params := encode_delta C d\<rparr>]"
    by (auto simp: try_merge_def Let_def split: if_splits option.splits)
  have "says_all C ms = says_all C (butlast ms) @ says C (last ms)"
    by (subst append_butlast_last_id [OF ne, symmetric]) (simp del: append_butlast_last_id)
  with ms' says_joined [OF assms(1) d m] show ?thesis by simp
qed

text \<open>The events a run accepted and the events it handed out.\<close>

fun accepted :: "queue_op list \<Rightarrow> queue_answer list \<Rightarrow> rpc_message list" where
  "accepted (Push m # rs) (Pushed None # xs) = m # accepted rs xs"
| "accepted (r # rs) (x # xs) = accepted rs xs"
| "accepted rs xs = []"

fun handed_out :: "queue_answer list \<Rightarrow> rpc_message list" where
  "handed_out (Took (Popped m) # xs) = m # handed_out xs"
| "handed_out (x # xs) = handed_out xs"
| "handed_out [] = []"

lemma spec_push_says:
  assumes "codec_ok C" "spec_push C m s = (None, t)"
  shows "says_all C (events t) = says_all C (events s) @ says C m"
  using assms try_merge_says [OF assms(1)]
  by (auto simp: spec_push_def split: option.splits prod.splits if_splits)

lemma spec_push_failed: "spec_push C m s = (Some e, t) \<Longrightarrow> events t = events s"
  by (auto simp: spec_push_def split: option.splits prod.splits if_splits)

lemma spec_run_says:
  assumes "codec_ok C"
  shows "says_all C (events s) @ says_all C (accepted rs (fst (run_all (spec_step C) rs s))) =
     says_all C (handed_out (fst (run_all (spec_step C) rs s))) @ says_all C (events (snd (run_all (spec_step C) rs s)))"
proof (induction rs arbitrary: s)
  case (Cons r rs)
  show ?case
  proof (cases r)
    case (Push m)
    obtain x t where p: "spec_push C m s = (x, t)" by (cases "spec_push C m s")
    show ?thesis
    proof (cases x)
      case None
      with p spec_push_says [OF assms] have "says_all C (events t) = says_all C (events s) @ says C m" by simp
      with Cons.IH [of t] show ?thesis using Push p None by (simp add: split_beta Let_def)
    next
      case (Some e)
      with p spec_push_failed have "events t = events s" by blast
      with Cons.IH [of t] show ?thesis using Push p Some by (simp add: split_beta Let_def)
    qed
  next
    case Pop
    show ?thesis
    proof (cases "failed s = None \<and> events s \<noteq> []")
      case True
      then obtain m ms where e: "failed s = None" "events s = m # ms" by (cases "events s") auto
      then have "spec_pop s = (Popped m, s\<lparr>events := ms\<rparr>)" by (simp add: spec_pop_def)
      with Cons.IH [of "s\<lparr>events := ms\<rparr>"] show ?thesis using Pop e by (simp add: split_beta Let_def)
    next
      case False
      then have "\<exists>y. spec_pop s = (NotReady y, s)"
        by (cases "failed s"; cases "events s") (auto simp: spec_pop_def)
      then obtain y where "spec_pop s = (NotReady y, s)" ..
      with Cons.IH [of s] show ?thesis using Pop by (simp add: split_beta Let_def)
    qed
  next
    case (Fail e)
    with Cons.IH [of "case failed s of None \<Rightarrow> s\<lparr>failed := Some e\<rparr> | Some _ \<Rightarrow> s"] show ?thesis
      by (cases "failed s") (simp_all add: split_beta Let_def)
  next
    case (End e)
    with Cons.IH [of "s\<lparr>ended := Some e\<rparr>"] show ?thesis by (simp add: split_beta Let_def)
  qed
qed simp

section \<open>No wake-up is lost\<close>

text \<open>
  The reader pushes and ends, \<open>Close\<close> fails, and the turn receives from the wake-up channel and
  then pops.  Between the two it is \<open>Popping\<close>; once it saw an error it stops.
\<close>

datatype consumer = Idle | Popping | Stopped queue_error

record queue_system =
  shared_queue :: notification_queue
  turn_state :: consumer

inductive queue_system_step :: "delta_codec \<Rightarrow> queue_system \<Rightarrow> queue_system \<Rightarrow> bool" for C where
  push: "queue_push C m (shared_queue S) = (e, q) \<Longrightarrow> queue_system_step C S (S\<lparr>shared_queue := q\<rparr>)"
| fail: "queue_system_step C S (S\<lparr>shared_queue := queue_fail e (shared_queue S)\<rparr>)"
| ends: "queue_system_step C S (S\<lparr>shared_queue := queue_end e (shared_queue S)\<rparr>)"
| receive: "turn_state S = Idle \<Longrightarrow> q_ready (shared_queue S) \<Longrightarrow>
    queue_system_step C S (S\<lparr>shared_queue := (shared_queue S)\<lparr>q_ready := False\<rparr>, turn_state := Popping\<rparr>)"
| pop: "turn_state S = Popping \<Longrightarrow> queue_pop (shared_queue S) = (x, q) \<Longrightarrow>
    queue_system_step C S (S\<lparr>shared_queue := q,
      turn_state := (case x of NotReady (Some e) \<Rightarrow> Stopped e | _ \<Rightarrow> Idle)\<rparr>)"

definition queue_start :: queue_system where
  "queue_start = \<lparr>shared_queue = new_queue, turn_state = Idle\<rparr>"

definition queue_reachable :: "delta_codec \<Rightarrow> queue_system \<Rightarrow> bool" where
  "queue_reachable C S \<longleftrightarrow> (queue_system_step C)\<^sup>*\<^sup>* queue_start S"

text \<open>There is something the turn has to be told.\<close>

definition something_to_say :: "notification_queue \<Rightarrow> bool" where
  "something_to_say q \<longleftrightarrow> live q \<noteq> [] \<or> q_err q \<noteq> None \<or> q_ended q \<noteq> None"

definition wake_inv :: "queue_system \<Rightarrow> bool" where
  "wake_inv S \<longleftrightarrow> queue_good (shared_queue S) \<and>
     (turn_state S = Idle \<longrightarrow> something_to_say (shared_queue S) \<longrightarrow> q_ready (shared_queue S))"

lemma ready_after: "q_ready (queue_wake q)" "q_ready (queue_fail e q)" "q_ready (queue_end e q)"
  by (simp_all add: queue_wake_def queue_fail_def queue_end_def)

lemma push_ready:
  assumes "queue_good q" "queue_push C m q = (x, u)"
  shows "q_ready u \<or> (u = q \<and> q_err q \<noteq> None)"
  using assms(1)
  by (cases rule: queue_push_cases [of q C m]) (use assms(2) in \<open>auto simp: ready_after accept_def\<close>)

lemma queue_good_ready [simp]: "queue_good (q\<lparr>q_ready := b\<rparr>) = queue_good q"
  by (simp add: queue_good_def live_def)

lemma wake_step:
  assumes "queue_system_step C S T" "wake_inv S"
  shows "wake_inv T"
  using assms
proof (induction rule: queue_system_step.induct)
  case (push m S e q)
  then have g: "queue_good (shared_queue S)" by (simp add: wake_inv_def)
  then have "queue_good q" using queue_step_good [of "shared_queue S" C "Push m"] push(1) by simp
  with push push_ready [OF g push(1)] show ?case by (auto simp: wake_inv_def something_to_say_def)
next
  case (fail S e)
  then have g: "queue_good (shared_queue S)" by (simp add: wake_inv_def)
  then have "queue_good (queue_fail e (shared_queue S))"
    using queue_step_good [of "shared_queue S" C "Fail e"] by simp
  then show ?case by (simp add: wake_inv_def ready_after)
next
  case (ends S e)
  then have g: "queue_good (shared_queue S)" by (simp add: wake_inv_def)
  then have "queue_good (queue_end e (shared_queue S))"
    using queue_step_good [of "shared_queue S" C "End e"] by simp
  then show ?case by (simp add: wake_inv_def ready_after)
next
  case (receive S)
  then show ?case by (simp add: wake_inv_def)
next
  case (pop S x q)
  then have g: "queue_good (shared_queue S)" by (simp add: wake_inv_def)
  then show ?case
    by (cases rule: queue_pop_cases) (use pop in \<open>auto simp: wake_inv_def something_to_say_def\<close>)
qed

lemma wake_start: "wake_inv queue_start"
  by (simp add: queue_start_def wake_inv_def something_to_say_def new_queue_good)
    (simp add: live_def new_queue_def)

lemma wake_reachable: "queue_reachable C S \<Longrightarrow> wake_inv S"
  unfolding queue_reachable_def by (induction rule: rtranclp_induct) (auto intro: wake_step wake_start)

section \<open>Properties\<close>

text \<open>C35. The queue refines a plain list with a sticky error: from the new queue every sequence of
  pushes, pops, failures and ends gets the answers of the specification, and the queue never holds
  more than its entry and byte limits, its byte count being that of the events it holds.\<close>
theorem queue_refines_list:
  "run_all (spec_step C) rs \<lparr>events = [], failed = None, ended = None\<rparr> =
     (fst (run_all (queue_step C) rs new_queue), queue_abs (snd (run_all (queue_step C) rs new_queue))) \<and>
   length (live (snd (run_all (queue_step C) rs new_queue))) \<le> maxQueuedEvents \<and>
   q_bytes (snd (run_all (queue_step C) rs new_queue)) =
     total_bytes (live (snd (run_all (queue_step C) rs new_queue))) \<and>
   q_bytes (snd (run_all (queue_step C) rs new_queue)) \<le> maxQueuedBytes"
proof -
  have "queue_good (snd (run_all (queue_step C) rs new_queue))"
    by (rule queue.good_run) (rule new_queue_good)
  moreover have "run_all (spec_step C) rs (queue_abs new_queue) =
      (fst (run_all (queue_step C) rs new_queue), queue_abs (snd (run_all (queue_step C) rs new_queue)))"
    by (rule queue.run_sim) (rule new_queue_good)
  ultimately show ?thesis by (simp add: new_queue_good(2) queue_good_def)
qed

text \<open>C21. Merging loses, repeats and reorders nothing: what the events handed out and still queued
  say, character by character and event by event, is what the accepted events said.\<close>
theorem queue_lossless:
  assumes "codec_ok C"
  shows "says_all C (accepted rs (fst (run_all (queue_step C) rs new_queue))) =
     says_all C (handed_out (fst (run_all (queue_step C) rs new_queue))) @
     says_all C (live (snd (run_all (queue_step C) rs new_queue)))"
  using spec_run_says [OF assms, of "\<lparr>events = [], failed = None, ended = None\<rparr>" rs]
    queue.run_sim [OF new_queue_good(1), of C rs]
  by (simp add: new_queue_good(2)) (simp add: queue_abs_def)

text \<open>A codec: every character is escaped, every field is closed by a semicolon.\<close>

definition escape :: "string \<Rightarrow> string" where
  "escape s = concat (map (\<lambda>c. [CHR ''.'', c]) s) @ '';''"

fun unescape :: "string \<Rightarrow> (string \<times> string) option" where
  "unescape (x # r) =
     (if x = CHR '';'' then Some ([], r)
      else case r of [] \<Rightarrow> None | c # r \<Rightarrow> map_option (\<lambda>(s, t). (c # s, t)) (unescape r))"
| "unescape [] = None"

definition escaped_decode :: "string \<Rightarrow> text_delta option" where
  "escaped_decode s =
     (case unescape s of None \<Rightarrow> None | Some (a, s) \<Rightarrow>
      case unescape s of None \<Rightarrow> None | Some (b, s) \<Rightarrow>
      case unescape s of None \<Rightarrow> None | Some (c, s) \<Rightarrow>
      case unescape s of None \<Rightarrow> None | Some (d, s) \<Rightarrow>
        Some \<lparr>delta_thread = a, delta_turn = b, delta_item = c, delta_text = d\<rparr>)"

definition escaped_codec :: delta_codec where
  "escaped_codec = \<lparr>decode_delta = escaped_decode,
     encode_delta = (\<lambda>d. escape (delta_thread d) @ escape (delta_turn d) @ escape (delta_item d)
                         @ escape (delta_text d))\<rparr>"

lemma unescape_escape: "unescape (escape s @ t) = Some (s, t)"
  by (induction s) (simp_all add: escape_def)

lemma escaped_codec_ok: "codec_ok escaped_codec"
  using unescape_escape [of _ "[]"]
  by (simp add: codec_ok_def escaped_codec_def escaped_decode_def unescape_escape)

definition sample_delta :: "string \<Rightarrow> rpc_message" where
  "sample_delta t = \<lparr>rpc_id = '''', rpc_method = deltaMethod, rpc_params = encode_delta escaped_codec
     \<lparr>delta_thread = ''t'', delta_turn = ''u'', delta_item = ''i'', delta_text = t\<rparr>, rpc_result = ''''\<rparr>"

definition sample_ops :: "queue_op list" where
  "sample_ops = [Push (sample_delta ''he''), Push (sample_delta ''llo''), Pop, Push (sample_delta ''!'')]"

lemma sample_ops_run:
  "says_all escaped_codec (accepted sample_ops (fst (run_all (queue_step escaped_codec) sample_ops new_queue))) =
     map (Text_Char ''t'' ''u'' ''i'') ''hello!''"
  "coalesced (snd (run_all (queue_step escaped_codec) sample_ops new_queue)) = 1"
  by code_simp+

theorem queue_lossless_witness:
  "says_all escaped_codec (handed_out (fst (run_all (queue_step escaped_codec) sample_ops new_queue))) @
     says_all escaped_codec (live (snd (run_all (queue_step escaped_codec) sample_ops new_queue))) =
     map (Text_Char ''t'' ''u'' ''i'') ''hello!'' \<and>
   coalesced (snd (run_all (queue_step escaped_codec) sample_ops new_queue)) = 1"
  using queue_lossless [OF escaped_codec_ok, of sample_ops] sample_ops_run by simp

text \<open>C16. No wake-up is lost, under every interleaving of the reader, \<open>Close\<close> and the turn: whenever
  the turn waits and an event, a failure or the end of the stream is there for it, the wake-up
  channel is filled and the turn can go on.\<close>
theorem queue_no_lost_wakeup:
  assumes "queue_reachable C S" "turn_state S = Idle" "something_to_say (shared_queue S)"
  shows "\<exists>T. queue_system_step C S T \<and> turn_state T = Popping \<and> live (shared_queue T) = live (shared_queue S)"
proof -
  have "q_ready (shared_queue S)" using wake_reachable [OF assms(1)] assms(2,3) by (simp add: wake_inv_def)
  from queue_system_step.receive [OF assms(2) this] show ?thesis by (force simp: live_def)
qed

definition pushed_system :: queue_system where
  "pushed_system = \<lparr>shared_queue = snd (queue_push escaped_codec (sample_delta ''a'') new_queue), turn_state = Idle\<rparr>"

lemma pushed_reachable: "queue_reachable escaped_codec pushed_system"
proof -
  have "queue_system_step escaped_codec queue_start
      (queue_start\<lparr>shared_queue := snd (queue_push escaped_codec (sample_delta ''a'') new_queue)\<rparr>)"
    by (rule queue_system_step.push [where e = "fst (queue_push escaped_codec (sample_delta ''a'') new_queue)"
          and m = "sample_delta ''a''"]) (simp add: queue_start_def)
  then show ?thesis by (simp add: queue_reachable_def queue_start_def pushed_system_def r_into_rtranclp)
qed

lemma pushed_waits: "turn_state pushed_system = Idle" "something_to_say (shared_queue pushed_system)"
  by code_simp+

theorem queue_no_lost_wakeup_witness:
  "\<exists>T. queue_system_step escaped_codec pushed_system T \<and> turn_state T = Popping \<and>
     live (shared_queue T) = live (shared_queue pushed_system)"
  by (rule queue_no_lost_wakeup [OF pushed_reachable pushed_waits])

end
