(* ===== verification/Tool_Loop.thy ===== *)
theory Tool_Loop
  imports Mo_Prelude
begin

text \<open>
  The advisory loop detector of a provider turn, \<^verbatim>\<open>internal/room/tool_loop.go\<close>: it follows tool
  executions and reports when the same cycle of failures repeats three times.  The Go map of
  executions is an association list.  \<open>ToolFingerprint\<close>
  (\<^verbatim>\<open>internal/agent/tool_observation.go\<close>, a hash of canonical JSON) is the argument
  \<open>fingerprints\<close>: its use on one attempt and its use on a list of signatures.
\<close>

section \<open>Observations\<close>

definition ToolStarted :: string where "ToolStarted = ''started''"
definition ToolCompleted :: string where "ToolCompleted = ''completed''"
definition ToolFailed :: string where "ToolFailed = ''failed''"

lemma tool_phases [simp]: "ToolStarted \<noteq> ToolCompleted" "ToolCompleted \<noteq> ToolStarted"
  by (simp_all add: ToolStarted_def ToolCompleted_def)

record tool_observation =
  invocation_id :: string
  operation :: string
  phase :: string
  tool_outcome :: string
  tool_result :: string
  complete :: bool
  non_transient :: bool

record fingerprints =
  attempt_print :: "string \<Rightarrow> string \<Rightarrow> string \<Rightarrow> string"
  cycle_print :: "string list \<Rightarrow> string"

section \<open>The monitor\<close>

definition maxTrackedToolExecutions :: nat where "maxTrackedToolExecutions = 256"

record tool_execution =
  ex_start :: tool_observation
  ex_end :: "tool_observation option"
  ex_done :: bool
  overlapped :: bool

record tool_attempt =
  signature :: string
  eligible :: bool

record loop_monitor =
  executions :: "(string \<times> tool_execution) list"
  in_flight :: int
  attempts :: "tool_attempt list"
  warned :: string
  disabled :: bool

record loop_decision =
  recover :: bool
  reason :: string

definition new_monitor :: loop_monitor where
  "new_monitor = \<lparr>executions = [], in_flight = 0, attempts = [], warned = '''', disabled = False\<rparr>"

definition no_decision :: loop_decision where
  "no_decision = \<lparr>recover = False, reason = ''''\<rparr>"

definition reset_sequence :: "loop_monitor \<Rightarrow> loop_monitor" where
  "reset_sequence m = m\<lparr>attempts := [], warned := ''''\<rparr>"

definition disable :: "loop_monitor \<Rightarrow> loop_monitor" where
  "disable m = reset_sequence (m\<lparr>disabled := True\<rparr>)"

section \<open>Cycles\<close>

definition cycle_matches :: "nat \<Rightarrow> tool_attempt list \<Rightarrow> bool" where
  "cycle_matches period tail \<longleftrightarrow>
     list_all (\<lambda>i. signature (tail ! i) = signature (tail ! (i mod period))) [0..<length tail]"

definition find_cycle :: "tool_attempt list \<Rightarrow> nat option" where
  "find_cycle as = find (\<lambda>period. period * 3 \<le> length as \<and> cycle_matches period (take_last (period * 3) as)) [1, 2, 3, 4]"

text \<open>The least print of the rotations of a cycle.\<close>

definition cycle_warning :: "fingerprints \<Rightarrow> string list \<Rightarrow> string" where
  "cycle_warning F keys =
     foldl (\<lambda>warning offset.
         let key = cycle_print F (drop offset keys @ take offset keys)
         in if key < warning then key else warning)
       (cycle_print F keys) [1..<length keys]"

definition cycle_reason :: "nat \<Rightarrow> string" where
  "cycle_reason period =
     (if period > 1 then ''a cycle of '' @ show_nat period @ '' sequential completed failures repeated three times''
      else ''three sequential completed attempts returned the same failure'')"

definition judge :: "fingerprints \<Rightarrow> loop_monitor \<Rightarrow> loop_decision \<times> loop_monitor" where
  "judge F m =
     (case find_cycle (attempts m) of
        None \<Rightarrow> (no_decision, m)
      | Some period \<Rightarrow>
          let tail = take_last (period * 3) (attempts m);
              warning = cycle_warning F (map signature (take period tail))
          in if warned m = warning then (no_decision, m)
             else (if list_all eligible tail
                   then \<lparr>recover = True, reason = cycle_reason period @
                          ''; structured protocol errors identify a non-transient failure''\<rparr>
                   else \<lparr>recover = False, reason = cycle_reason period @
                          ''; retry intent is uncertain, so work continues''\<rparr>,
                   m\<lparr>warned := warning\<rparr>))"

section \<open>Observing\<close>

definition tracking_limit :: loop_decision where
  "tracking_limit = \<lparr>recover = False, reason =
     ''tool tracking limit reached; loop detection is advisory for this turn and work continues''\<rparr>"

definition mark_overlapped :: "(string \<times> tool_execution) list \<Rightarrow> (string \<times> tool_execution) list" where
  "mark_overlapped xs = map (\<lambda>(k, e). (k, if ex_done e then e else e\<lparr>overlapped := True\<rparr>)) xs"

definition start_tool :: "tool_observation \<Rightarrow> loop_monitor \<Rightarrow> loop_decision \<times> loop_monitor" where
  "start_tool v m =
     (case map_of (executions m) (invocation_id v) of
        Some e \<Rightarrow> (no_decision, if ex_start e \<noteq> v then disable m else m)
      | None \<Rightarrow>
          if length (executions m) \<ge> maxTrackedToolExecutions then (tracking_limit, disable m)
          else let overlap = in_flight m > 0;
                   m = (if overlap
                        then (reset_sequence m)\<lparr>executions := mark_overlapped (executions m)\<rparr>
                        else m)
               in (no_decision, m\<lparr>executions := (invocation_id v,
                     \<lparr>ex_start = v, ex_end = None, ex_done = False, overlapped = overlap\<rparr>) # executions m,
                     in_flight := in_flight m + 1\<rparr>))"

definition add_attempt :: "tool_attempt list \<Rightarrow> tool_attempt \<Rightarrow> tool_attempt list" where
  "add_attempt as a = (let as = as @ [a] in if length as > 12 then drop (length as - 12) as else as)"

definition complete_tool :: "fingerprints \<Rightarrow> tool_observation \<Rightarrow> tool_execution \<Rightarrow> loop_monitor \<Rightarrow>
    loop_decision \<times> loop_monitor" where
  "complete_tool F v e m =
     (let m = m\<lparr>executions := update_first (\<lambda>x. fst x = invocation_id v)
                  (\<lambda>x. (fst x, (snd x)\<lparr>ex_done := True, ex_end := Some v\<rparr>)) (executions m),
                in_flight := in_flight m - 1\<rparr>
      in if operation (ex_start e) \<noteq> operation v \<or> overlapped e \<or> in_flight m \<noteq> 0
            \<or> tool_outcome v \<noteq> ToolFailed \<or> tool_result v = ''''
         then (no_decision, reset_sequence m)
         else judge F (m\<lparr>attempts := add_attempt (attempts m)
                \<lparr>signature = attempt_print F (operation v) (tool_outcome v) (tool_result v),
                 eligible = non_transient v\<rparr>\<rparr>))"

definition observe :: "fingerprints \<Rightarrow> tool_observation option \<Rightarrow> loop_monitor \<Rightarrow> loop_decision \<times> loop_monitor" where
  "observe F value m =
     (case value of
        None \<Rightarrow> (no_decision, disable m)
      | Some v \<Rightarrow>
          if disabled m then (no_decision, m)
          else if invocation_id v = '''' \<or> operation v = '''' \<or> \<not> complete v then (no_decision, disable m)
          else if phase v = ToolStarted then start_tool v m
          else case map_of (executions m) (invocation_id v) of
                 None \<Rightarrow> (no_decision, disable m)
               | Some e \<Rightarrow>
                   if phase v \<noteq> ToolCompleted then (no_decision, disable m)
                   else if ex_done e then (no_decision, if ex_end e \<noteq> Some v then disable m else m)
                   else complete_tool F v e m)"

text \<open>\<open>observeWorkflowTool\<close>: one monitor per turn, created on its first observation.\<close>

definition observe_workflow_tool :: "fingerprints \<Rightarrow> string \<Rightarrow> string \<Rightarrow> tool_observation option \<Rightarrow>
    (string \<rightharpoonup> loop_monitor) \<Rightarrow> loop_decision \<times> (string \<rightharpoonup> loop_monitor)" where
  "observe_workflow_tool F workflow turn value ms =
     (if workflow = '''' \<or> turn = '''' then (no_decision, ms)
      else let (d, m) = observe F value (case ms turn of None \<Rightarrow> new_monitor | Some m \<Rightarrow> m)
           in (d, ms(turn \<mapsto> m)))"

interpretation attempts: bounded_history add_attempt 12
  by unfold_locales (auto simp: add_attempt_def take_last_def Let_def)

section \<open>The warning does not depend on where a cycle is entered\<close>

lemma foldl_min: "foldl (\<lambda>w k. if f k < w then f k else w) (x :: 'a :: linorder) ks = Min (insert x (f ` set ks))"
proof (induction ks arbitrary: x)
  case (Cons k ks)
  have "(if f k < x then f k else x) = min x (f k)" by (simp add: min_def not_less) (metis order.order_iff_strict not_less)
  with Cons [of "min x (f k)"] show ?case
    by (cases "ks = []") (simp_all add: Min_insert2 min.assoc)
qed simp

lemma cycle_warning_Min:
  assumes "keys \<noteq> []"
  shows "cycle_warning F keys = Min ((\<lambda>n. cycle_print F (rotate n keys)) ` {..<length keys})"
proof -
  have r: "drop n keys @ take n keys = rotate n keys" if "n \<in> set [1..<length keys]" for n
    using that by (simp add: rotate_drop_take)
  have "insert (cycle_print F keys) ((\<lambda>n. cycle_print F (drop n keys @ take n keys)) ` set [1..<length keys]) =
      insert (cycle_print F keys) ((\<lambda>n. cycle_print F (rotate n keys)) ` set [1..<length keys])"
    using r by (metis (no_types, lifting) image_cong)
  also have "\<dots> = (\<lambda>n. cycle_print F (rotate n keys)) ` insert 0 (set [1..<length keys])" by simp
  also have "insert 0 (set [1..<length keys]) = {..<length keys}" using assms by auto
  finally show ?thesis by (simp add: cycle_warning_def Let_def foldl_min)
qed

lemma rotations_rotate:
  assumes "keys \<noteq> []"
  shows "(\<lambda>n. rotate n (rotate k keys)) ` {..<length keys} = (\<lambda>n. rotate n keys) ` {..<length keys}"
proof -
  let ?n = "length keys"
  have "rotate i (rotate k keys) \<in> (\<lambda>n. rotate n keys) ` {..<?n}" for i
    using assms by (auto simp: rotate_rotate intro!: image_eqI [of _ _ "(i + k) mod ?n"] simp flip: rotate_conv_mod)
  moreover have "rotate i keys \<in> (\<lambda>n. rotate n (rotate k keys)) ` {..<?n}" for i
  proof -
    let ?j = "(i + (?n - k mod ?n)) mod ?n"
    have "(?j + k) mod ?n = (i + (?n - k mod ?n) + k mod ?n) mod ?n" by (metis mod_add_left_eq mod_add_right_eq)
    also have "i + (?n - k mod ?n) + k mod ?n = i + ?n"
    proof -
      have "k mod ?n < ?n" using assms by simp
      then show ?thesis by arith
    qed
    finally have "(?j + k) mod ?n = i mod ?n" by simp
    then have "rotate ?j (rotate k keys) = rotate i keys"
      by (metis rotate_conv_mod rotate_rotate)
    then show ?thesis using assms by (intro image_eqI [of _ _ ?j]) simp_all
  qed
  ultimately show ?thesis by blast
qed

lemma cycle_warning_rotate: "cycle_warning F (rotate k keys) = cycle_warning F keys"
proof (cases "keys = []")
  case False
  then have "(\<lambda>n. cycle_print F (rotate n (rotate k keys))) ` {..<length keys} =
      (\<lambda>n. cycle_print F (rotate n keys)) ` {..<length keys}"
    using rotations_rotate [OF False, of k] by (metis image_image)
  with False show ?thesis by (simp add: cycle_warning_Min)
qed simp

section \<open>What a recovery rests on\<close>

text \<open>The first completion of every invocation, in order.\<close>

definition add_completion :: "tool_observation list \<Rightarrow> tool_observation option \<Rightarrow> tool_observation list" where
  "add_completion cs value =
     (case value of
        None \<Rightarrow> cs
      | Some v \<Rightarrow> if phase v = ToolCompleted \<and> invocation_id v \<notin> invocation_id ` set cs then cs @ [v] else cs)"

definition completions :: "tool_observation option list \<Rightarrow> tool_observation list" where
  "completions h = foldl add_completion [] h"

definition monitor_after :: "fingerprints \<Rightarrow> tool_observation option list \<Rightarrow> loop_monitor" where
  "monitor_after F h = foldl (\<lambda>m v. snd (observe F v m)) new_monitor h"

definition attempt_of :: "fingerprints \<Rightarrow> tool_observation \<Rightarrow> tool_attempt" where
  "attempt_of F v = \<lparr>signature = attempt_print F (operation v) (tool_outcome v) (tool_result v),
     eligible = non_transient v\<rparr>"

definition failure :: "tool_observation \<Rightarrow> bool" where
  "failure v \<longleftrightarrow> tool_outcome v = ToolFailed \<and> tool_result v \<noteq> ''''"

definition done_ids :: "loop_monitor \<Rightarrow> string set" where
  "done_ids m = fst ` set (filter (\<lambda>x. ex_done (snd x)) (executions m))"

text \<open>The attempts are the latest completions, all failures.\<close>

definition follows :: "fingerprints \<Rightarrow> tool_observation list \<Rightarrow> loop_monitor \<Rightarrow> bool" where
  "follows F cs m \<longleftrightarrow> (\<exists>xs ys. cs = xs @ ys \<and> attempts m = map (attempt_of F) ys \<and> list_all failure ys)"

definition monitor_inv :: "fingerprints \<Rightarrow> tool_observation list \<Rightarrow> loop_monitor \<Rightarrow> bool" where
  "monitor_inv F cs m \<longleftrightarrow>
     length (executions m) \<le> maxTrackedToolExecutions \<and> length (attempts m) \<le> 12 \<and>
     distinct (map fst (executions m)) \<and>
     in_flight m = int (length (filter (\<lambda>x. \<not> ex_done (snd x)) (executions m))) \<and>
     (\<not> disabled m \<longrightarrow> done_ids m = invocation_id ` set cs \<and> follows F cs m) \<and>
     (disabled m \<longrightarrow> attempts m = [])"

lemma follows_reset: "follows F cs (reset_sequence m)"
  by (auto simp: follows_def reset_sequence_def intro!: exI [of _ cs] exI [of _ "[]"])

lemma reset_simps [simp]:
  "executions (reset_sequence m) = executions m" "in_flight (reset_sequence m) = in_flight m"
  "disabled (reset_sequence m) = disabled m" "attempts (reset_sequence m) = []"
  "executions (disable m) = executions m" "in_flight (disable m) = in_flight m"
  "disabled (disable m)" "attempts (disable m) = []"
  by (simp_all add: reset_sequence_def disable_def)

lemma disable_inv: "monitor_inv F cs m \<Longrightarrow> monitor_inv F ds (disable m)"
  by (simp add: monitor_inv_def)

lemma judge_fields [simp]:
  "executions (snd (judge F m)) = executions m" "in_flight (snd (judge F m)) = in_flight m"
  "attempts (snd (judge F m)) = attempts m" "disabled (snd (judge F m)) = disabled m"
  by (auto simp: judge_def Let_def split: option.split)

lemma judge_inv [simp]: "monitor_inv F cs (snd (judge F m)) = monitor_inv F cs m"
  by (simp add: monitor_inv_def done_ids_def follows_def)

lemma mark_overlapped_simps [simp]:
  "map fst (mark_overlapped xs) = map fst xs" "length (mark_overlapped xs) = length xs"
  "filter (\<lambda>x. ex_done (snd x)) (mark_overlapped xs) = filter (\<lambda>x. ex_done (snd x)) xs"
  "length (filter (\<lambda>x. \<not> ex_done (snd x)) (mark_overlapped xs)) = length (filter (\<lambda>x. \<not> ex_done (snd x)) xs)"
  by (induction xs) (auto simp: mark_overlapped_def split: if_splits)

lemma start_tool_inv:
  assumes "monitor_inv F cs m" "\<not> disabled m"
  shows "monitor_inv F cs (snd (start_tool v m))"
proof (cases "map_of (executions m) (invocation_id v)")
  case (Some e)
  then show ?thesis using assms disable_inv by (auto simp: start_tool_def)
next
  case None
  show ?thesis
  proof (cases "length (executions m) \<ge> maxTrackedToolExecutions")
    case True
    with None assms show ?thesis by (simp add: start_tool_def disable_inv)
  next
    case False
    have new: "invocation_id v \<notin> fst ` set (executions m)" using None by (simp add: map_of_eq_None_iff)
    show ?thesis
    proof (cases "in_flight m > 0")
      case True
      have "invocation_id v \<notin> set (map fst (mark_overlapped (executions m)))" using new by simp
      with True False None assms new show ?thesis
        by (simp add: start_tool_def Let_def monitor_inv_def done_ids_def follows_def)
    next
      case no: False
      with False None assms new show ?thesis
        by (simp add: start_tool_def Let_def monitor_inv_def done_ids_def follows_def)
    qed
  qed
qed

lemma update_first_key:
  assumes "map_of xs k = Some e" "distinct (map fst xs)"
  obtains ys zs where "xs = ys @ (k, e) # zs"
    "update_first (\<lambda>x. fst x = k) f xs = ys @ f (k, e) # zs" "k \<notin> fst ` set ys"
  using assms
proof (induction xs arbitrary: thesis)
  case (Cons x xs)
  show ?case
  proof (cases "fst x = k")
    case True
    with Cons.prems show thesis by (intro Cons.prems(1) [of "[]" xs]) (auto simp: prod_eq_iff)
  next
    case False
    with Cons.prems obtain ys zs where "xs = ys @ (k, e) # zs"
      "update_first (\<lambda>x. fst x = k) f xs = ys @ f (k, e) # zs" "k \<notin> fst ` set ys"
      by (auto intro: Cons.IH)
    with False show thesis by (intro Cons.prems(1) [of "x # ys" zs]) auto
  qed
qed simp

lemma completed_inv:
  assumes "monitor_inv F cs m" "\<not> disabled m" "map_of (executions m) (invocation_id v) = Some e" "\<not> ex_done e"
    and "phase v = ToolCompleted"
  shows "monitor_inv F (add_completion cs (Some v)) (snd (complete_tool F v e m))"
    "add_completion cs (Some v) = cs @ [v]"
proof -
  let ?k = "invocation_id v" and ?f = "\<lambda>x. (fst x, (snd x)\<lparr>ex_done := True, ex_end := Some v\<rparr>)"
  have d: "distinct (map fst (executions m))" using assms(1) by (simp add: monitor_inv_def)
  obtain ys zs where xs: "executions m = ys @ (?k, e) # zs"
    and us: "update_first (\<lambda>x. fst x = ?k) ?f (executions m) = ys @ ?f (?k, e) # zs"
    by (rule update_first_key [OF assms(3) d, where f = ?f]) blast
  have new: "?k \<notin> invocation_id ` set cs"
    using assms(1,2,4) d by (auto simp: monitor_inv_def done_ids_def xs)
  then show cs: "add_completion cs (Some v) = cs @ [v]" using assms(5) by (simp add: add_completion_def)
  let ?m = "m\<lparr>executions := ys @ ?f (?k, e) # zs, in_flight := in_flight m - 1\<rparr>"
  have inv: "length (executions ?m) \<le> maxTrackedToolExecutions" "distinct (map fst (executions ?m))"
    "in_flight ?m = int (length (filter (\<lambda>x. \<not> ex_done (snd x)) (executions ?m)))"
    "done_ids ?m = invocation_id ` set (cs @ [v])"
    using assms(1,2,4) d by (auto simp: monitor_inv_def done_ids_def xs)
  show "monitor_inv F (add_completion cs (Some v)) (snd (complete_tool F v e m))"
  proof (cases "operation (ex_start e) \<noteq> operation v \<or> overlapped e \<or> in_flight ?m \<noteq> 0
        \<or> tool_outcome v \<noteq> ToolFailed \<or> tool_result v = ''''")
    case True
    then have "snd (complete_tool F v e m) = reset_sequence ?m" by (simp add: complete_tool_def us Let_def)
    with inv assms(2) follows_reset show ?thesis
      by (simp add: monitor_inv_def cs done_ids_def)
  next
    case False
    let ?n = "?m\<lparr>attempts := add_attempt (attempts m) (attempt_of F v)\<rparr>"
    have eq: "snd (complete_tool F v e m) = snd (judge F ?n)"
      using False by (simp add: complete_tool_def us Let_def attempt_of_def)
    obtain as bs where ab: "cs = as @ bs" "attempts m = map (attempt_of F) bs" "list_all failure bs"
      using assms(1,2) by (auto simp: monitor_inv_def follows_def)
    have bound: "length (attempts m) \<le> 12" using assms(1) by (simp add: monitor_inv_def)
    let ?t = "take_last 12 (bs @ [v])"
    have att: "attempts ?n = map (attempt_of F) ?t"
      using attempts.push_law [OF bound, of "attempt_of F v"] ab by (simp add: take_last_def drop_map)
    have "cs @ [v] = (as @ take (length (bs @ [v]) - 12) (bs @ [v])) @ ?t"
      using ab by (simp add: take_last_def)
    moreover have "list_all failure ?t"
      using ab(3) False set_take_last [of 12 "bs @ [v]"] by (auto simp: list_all_iff failure_def)
    ultimately have "follows F (cs @ [v]) ?n" unfolding follows_def using att by blast
    then have "monitor_inv F (cs @ [v]) ?n" using inv assms(2) attempts.push_bound [OF bound]
      by (simp add: monitor_inv_def done_ids_def)
    then show ?thesis unfolding eq cs judge_inv .
  qed
qed

lemma repeated_completion:
  assumes "monitor_inv F cs m" "\<not> disabled m" "map_of (executions m) (invocation_id v) = Some e" "ex_done e"
  shows "add_completion cs (Some v) = cs"
proof -
  from assms(3,4) have "invocation_id v \<in> done_ids m"
    by (force simp: done_ids_def dest: map_of_SomeD)
  with assms(1,2) show ?thesis by (simp add: monitor_inv_def add_completion_def)
qed

lemma observe_inv:
  assumes "monitor_inv F cs m"
  shows "monitor_inv F (add_completion cs value) (snd (observe F value m))"
proof (cases "value")
  case None
  with assms show ?thesis by (simp add: observe_def disable_inv)
next
  case (Some v)
  show ?thesis
  proof (cases "disabled m \<or> invocation_id v = '''' \<or> operation v = '''' \<or> \<not> complete v")
    case True
    with Some assms disable_inv [OF assms] show ?thesis by (auto simp: observe_def monitor_inv_def)
  next
    case ok: False
    show ?thesis
    proof (cases "phase v = ToolStarted")
      case True
      with ok Some start_tool_inv [OF assms] show ?thesis by (simp add: observe_def add_completion_def)
    next
      case False
      show ?thesis
      proof (cases "phase v = ToolCompleted")
        case ph: True
        show ?thesis
        proof (cases "map_of (executions m) (invocation_id v)")
          case None
          with ok False Some assms show ?thesis by (simp add: observe_def disable_inv)
        next
          case e: (Some e)
          show ?thesis
          proof (cases "ex_done e")
            case True
            with ok assms e repeated_completion [OF assms] have "add_completion cs (Some v) = cs" by simp
            with ok False ph Some assms e True disable_inv [OF assms] show ?thesis by (simp add: observe_def)
          next
            case d: False
            with ok False ph Some assms e completed_inv(1) [OF assms _ e d ph] show ?thesis
              by (simp add: observe_def)
          qed
        qed
      next
        case ph: False
        with ok False Some assms disable_inv [OF assms] show ?thesis
          by (simp add: observe_def split: option.split)
      qed
    qed
  qed
qed

lemma monitor_after_inv: "monitor_inv F (completions h) (monitor_after F h)"
proof (induction h rule: rev_induct)
  case Nil
  show ?case
    by (simp add: completions_def monitor_after_def new_monitor_def monitor_inv_def done_ids_def follows_def
        maxTrackedToolExecutions_def)
next
  case (snoc v h)
  from observe_inv [OF snoc, of v] show ?case by (simp add: completions_def monitor_after_def)
qed

section \<open>Sequential calls\<close>

text \<open>
  What a history says of its calls, apart from the monitor: the first start of each, the calls that run
  now (started and not completed), and the calls that ran while another one did.
\<close>

record call_trace =
  started_calls :: "tool_observation list"
  running_calls :: "string list"
  overlapping_calls :: "string list"

definition trace_call :: "call_trace \<Rightarrow> tool_observation option \<Rightarrow> call_trace" where
  "trace_call t value =
     (case value of
        None \<Rightarrow> t
      | Some v \<Rightarrow>
          let i = invocation_id v
          in if phase v = ToolStarted then
               (if i \<in> invocation_id ` set (started_calls t) then t
                else \<lparr>started_calls = started_calls t @ [v], running_calls = i # running_calls t,
                       overlapping_calls = (if running_calls t = [] then overlapping_calls t
                          else i # running_calls t @ overlapping_calls t)\<rparr>)
             else if phase v = ToolCompleted then t\<lparr>running_calls := removeAll i (running_calls t)\<rparr>
             else t)"

definition calls_of :: "tool_observation option list \<Rightarrow> call_trace" where
  "calls_of h = foldl trace_call \<lparr>started_calls = [], running_calls = [], overlapping_calls = []\<rparr> h"

text \<open>A completed call that no other call overlapped, and whose start named the same operation.\<close>

definition alone :: "call_trace \<Rightarrow> tool_observation \<Rightarrow> bool" where
  "alone t v \<longleftrightarrow> invocation_id v \<notin> set (overlapping_calls t) \<and>
     list_ex (\<lambda>s. invocation_id s = invocation_id v \<and> operation s = operation v) (started_calls t)"

definition executions_traced :: "call_trace \<Rightarrow> (string \<times> tool_execution) list \<Rightarrow> bool" where
  "executions_traced t xs \<longleftrightarrow>
     (\<forall>(k, e)\<in>set xs. ex_start e \<in> set (started_calls t) \<and> invocation_id (ex_start e) = k \<and>
        (k \<in> set (overlapping_calls t) \<longrightarrow> overlapped e)) \<and>
     fst ` set xs = invocation_id ` set (started_calls t) \<and>
     set (overlapping_calls t) \<subseteq> invocation_id ` set (started_calls t) \<and>
     set (running_calls t) = fst ` {x \<in> set xs. \<not> ex_done (snd x)}"

definition traced :: "call_trace \<Rightarrow> tool_observation list \<Rightarrow> loop_monitor \<Rightarrow> bool" where
  "traced t cs m \<longleftrightarrow>
     (\<not> disabled m \<longrightarrow> executions_traced t (executions m) \<and> list_all (alone t) (take_last (length (attempts m)) cs))"

lemma not_done_Cons:
  "fst ` {y \<in> set (x # xs). \<not> ex_done (snd y)} =
     (if ex_done (snd x) then {} else {fst x}) \<union> fst ` {y \<in> set xs. \<not> ex_done (snd y)}"
  by auto

lemma traced_disabled [simp]: "disabled m \<Longrightarrow> traced t cs m"
  by (simp add: traced_def)

lemma mark_overlapped_in:
  "x \<in> set (mark_overlapped xs) \<longleftrightarrow>
     (\<exists>e. (fst x, e) \<in> set xs \<and> snd x = (if ex_done e then e else e\<lparr>overlapped := True\<rparr>))"
  by (cases x) (force simp: mark_overlapped_def)

lemma start_traced:
  assumes "monitor_inv F cs m" "traced t cs m" "\<not> disabled m" "phase v = ToolStarted"
  shows "traced (trace_call t (Some v)) cs (snd (start_tool v m))"
proof (cases "map_of (executions m) (invocation_id v)")
  case (Some e)
  then have "invocation_id v \<in> fst ` set (executions m)" by (force dest: map_of_SomeD)
  then have "invocation_id v \<in> invocation_id ` set (started_calls t)"
    using assms(2,3) by (auto simp: traced_def executions_traced_def)
  then show ?thesis using Some assms by (simp add: start_tool_def trace_call_def Let_def)
next
  case None
  have ex: "executions_traced t (executions m)" and al: "list_all (alone t) (take_last (length (attempts m)) cs)"
    using assms(2,3) by (simp_all add: traced_def)
  have new: "invocation_id v \<notin> fst ` set (executions m)" using None by (simp add: map_of_eq_None_iff)
  then have fresh: "invocation_id v \<notin> invocation_id ` set (started_calls t)"
    using ex by (simp add: executions_traced_def)
  have flight: "running_calls t = [] \<longleftrightarrow> \<not> in_flight m > 0"
  proof -
    have "running_calls t = [] \<longleftrightarrow> filter (\<lambda>x. \<not> ex_done (snd x)) (executions m) = []"
      using ex by (auto simp: executions_traced_def filter_empty_conv simp flip: set_empty)
    then show ?thesis using assms(1) by (simp add: monitor_inv_def)
  qed
  show ?thesis
  proof (cases "length (executions m) \<ge> maxTrackedToolExecutions")
    case True
    with None show ?thesis by (simp add: start_tool_def)
  next
    case room: False
    show ?thesis
    proof (cases "in_flight m > 0")
      case True
      let ?e = "\<lparr>ex_start = v, ex_end = None, ex_done = False, overlapped = True\<rparr>"
      have d: "distinct (map fst (executions m))" using assms(1) by (simp add: monitor_inv_def)
      have once: "e = e'" if "(k, e) \<in> set (executions m)" "(k, e') \<in> set (executions m)" for k e e'
        using d that by (simp add: eq_key_imp_eq_value)
      let ?t = "trace_call t (Some v)" and ?xs = "(invocation_id v, ?e) # mark_overlapped (executions m)"
      have t: "started_calls ?t = started_calls t @ [v]" "running_calls ?t = invocation_id v # running_calls t"
        "overlapping_calls ?t = invocation_id v # running_calls t @ overlapping_calls t"
        using fresh flight True assms(4) by (simp_all add: trace_call_def Let_def)
      have keys: "fst ` set (mark_overlapped (executions m)) = fst ` set (executions m)"
        by (metis mark_overlapped_simps(1) list.set_map)
      have run: "fst ` {x \<in> set (mark_overlapped (executions m)). \<not> ex_done (snd x)} =
          fst ` {x \<in> set (executions m). \<not> ex_done (snd x)}"
        by (force simp: mark_overlapped_in image_iff split: if_splits)
      have "executions_traced ?t ?xs"
        unfolding executions_traced_def t
      proof (intro conjI ballI)
        fix x assume "x \<in> set ?xs"
        then consider "x = (invocation_id v, ?e)" | "x \<in> set (mark_overlapped (executions m))" by auto
        then show "case x of (k, e) \<Rightarrow> ex_start e \<in> set (started_calls t @ [v]) \<and> invocation_id (ex_start e) = k \<and>
            (k \<in> set (invocation_id v # running_calls t @ overlapping_calls t) \<longrightarrow> overlapped e)"
        proof cases
          case 2
          then obtain e where e: "(fst x, e) \<in> set (executions m)" "snd x = (if ex_done e then e else e\<lparr>overlapped := True\<rparr>)"
            by (auto simp: mark_overlapped_in)
          then have "fst x \<noteq> invocation_id v" using new by (metis fst_conv image_eqI)
          moreover have "\<not> ex_done e" if "fst x \<in> set (running_calls t)"
          proof -
            have "fst x \<in> fst ` {x \<in> set (executions m). \<not> ex_done (snd x)}"
              using that ex by (simp only: executions_traced_def)
            then obtain e' where "(fst x, e') \<in> set (executions m)" "\<not> ex_done e'" by auto
            then show ?thesis using once [OF e(1)] by simp
          qed
          moreover have "ex_start e \<in> set (started_calls t)" "invocation_id (ex_start e) = fst x"
            "fst x \<in> set (overlapping_calls t) \<Longrightarrow> overlapped e"
            using e(1) ex unfolding executions_traced_def by blast+
          moreover have "ex_start (snd x) = ex_start e" "overlapped e \<Longrightarrow> overlapped (snd x)"
            "\<not> ex_done e \<Longrightarrow> overlapped (snd x)"
            by (simp_all add: e(2))
          ultimately show ?thesis by (cases x) auto
        qed simp
      next
        show "fst ` set ?xs = invocation_id ` set (started_calls t @ [v])" using ex keys by (simp add: executions_traced_def)
        show "set (invocation_id v # running_calls t @ overlapping_calls t) \<subseteq> invocation_id ` set (started_calls t @ [v])"
          using ex by (auto simp: executions_traced_def)
        show "set (invocation_id v # running_calls t) = fst ` {x \<in> set ?xs. \<not> ex_done (snd x)}"
          using ex run by (simp add: executions_traced_def not_done_Cons del: list.set(2)) simp
      qed
      with True room None show ?thesis
        by (simp add: start_tool_def Let_def traced_def take_last_def)
    next
      case False
      let ?t = "trace_call t (Some v)"
      have t: "started_calls ?t = started_calls t @ [v]" "running_calls ?t = [invocation_id v]"
        "overlapping_calls ?t = overlapping_calls t" "running_calls t = []"
        using fresh flight False assms(4) by (simp_all add: trace_call_def Let_def)
      have "executions_traced ?t ((invocation_id v, \<lparr>ex_start = v, ex_end = None, ex_done = False, overlapped = False\<rparr>) # executions m)"
        using ex new unfolding executions_traced_def t(1-3)
        by (simp add: not_done_Cons t(4) del: list.set(2)) auto
      moreover have "list_all (alone ?t) (take_last (length (attempts m)) cs)"
        using al by (auto simp: list_all_iff alone_def t)
      ultimately show ?thesis using False room None by (simp add: start_tool_def Let_def traced_def)
    qed
  qed
qed

lemma latest_completions:
  "set (take_last (length (add_attempt as a)) (cs @ [v])) \<subseteq> insert v (set (take_last (length as) cs))"
proof -
  have "length (add_attempt as a) \<le> length as + 1" by (simp add: add_attempt_def Let_def)
  then have "length cs - length as \<le> length (cs @ [v]) - length (add_attempt as a)" by simp
  from set_drop_subset_set_drop [OF this, of cs] show ?thesis by (auto simp: take_last_def dest: in_set_dropD)
qed

lemma completed_traced:
  assumes "monitor_inv F cs m" "traced t cs m" "\<not> disabled m"
    "map_of (executions m) (invocation_id v) = Some e" "\<not> ex_done e" "phase v = ToolCompleted"
  shows "traced (trace_call t (Some v)) (cs @ [v]) (snd (complete_tool F v e m))"
proof -
  let ?k = "invocation_id v" and ?f = "\<lambda>x. (fst x, (snd x)\<lparr>ex_done := True, ex_end := Some v\<rparr>)"
  let ?t = "trace_call t (Some v)"
  have d: "distinct (map fst (executions m))" using assms(1) by (simp add: monitor_inv_def)
  obtain ys zs where xs: "executions m = ys @ (?k, e) # zs"
    and us: "update_first (\<lambda>x. fst x = ?k) ?f (executions m) = ys @ ?f (?k, e) # zs"
    by (rule update_first_key [OF assms(4) d, where f = ?f])
  have ex: "executions_traced t (executions m)" and al: "list_all (alone t) (take_last (length (attempts m)) cs)"
    using assms(2,3) by (simp_all add: traced_def)
  have t: "started_calls ?t = started_calls t" "overlapping_calls ?t = overlapping_calls t"
    "running_calls ?t = removeAll ?k (running_calls t)"
    using assms(6) by (simp_all add: trace_call_def Let_def)
  have "?k \<notin> fst ` set ys" "?k \<notin> fst ` set zs" using d by (auto simp: xs)
  then have k: "(?k, b) \<notin> set ys" "(?k, b) \<notin> set zs" for b by (metis fst_conv image_eqI)+
  have entry: "case x of (k, e) \<Rightarrow> ex_start e \<in> set (started_calls t) \<and> invocation_id (ex_start e) = k \<and>
      (k \<in> set (overlapping_calls t) \<longrightarrow> overlapped e)" if "x \<in> insert (?k, e) (set ys \<union> set zs)" for x
  proof -
    have "x \<in> set (executions m)" using that by (auto simp: xs)
    with ex show ?thesis unfolding executions_traced_def by (rule conjunct1 [THEN bspec])
  qed
  have run: "set (removeAll ?k (running_calls t)) = fst ` {x \<in> insert (?k, e) (set ys \<union> set zs). \<not> ex_done (snd x)} - {?k}"
    using ex unfolding executions_traced_def xs by simp
  have 1: "executions_traced ?t (ys @ ?f (?k, e) # zs)"
    unfolding executions_traced_def t
  proof (intro conjI ballI)
    fix x assume "x \<in> set (ys @ ?f (?k, e) # zs)"
    then show "case x of (k, e) \<Rightarrow> ex_start e \<in> set (started_calls t) \<and> invocation_id (ex_start e) = k \<and>
        (k \<in> set (overlapping_calls t) \<longrightarrow> overlapped e)"
    proof (cases "x = ?f (?k, e)")
      case True
      then show ?thesis using entry [of "(?k, e)"] by simp
    next
      case False
      with \<open>x \<in> _\<close> have "x \<in> insert (?k, e) (set ys \<union> set zs)" by auto
      then show ?thesis by (rule entry)
    qed
  next
    show "set (removeAll ?k (running_calls t)) = fst ` {x \<in> set (ys @ ?f (?k, e) # zs). \<not> ex_done (snd x)}"
      unfolding run using k assms(5) by (auto simp: image_iff Bex_def)
  qed (use ex in \<open>simp_all add: executions_traced_def xs\<close>)
  have 2: "alone ?t v" if "operation (ex_start e) = operation v" "\<not> overlapped e"
    using ex that unfolding executions_traced_def alone_def t xs by (auto simp: list_ex_iff)
  have 3: "list_all (alone ?t) (take_last (length (attempts m)) cs)"
    using al unfolding alone_def t .
  note facts = 1 2 3
  show ?thesis
  proof (cases "operation (ex_start e) \<noteq> operation v \<or> overlapped e \<or> in_flight m - 1 \<noteq> 0
      \<or> tool_outcome v \<noteq> ToolFailed \<or> tool_result v = ''''")
    case True
    then show ?thesis using facts(1) by (simp add: complete_tool_def us Let_def traced_def take_last_def)
  next
    case False
    then have "snd (complete_tool F v e m) = snd (judge F (m\<lparr>executions := ys @ ?f (?k, e) # zs, in_flight := in_flight m - 1,
        attempts := add_attempt (attempts m) (attempt_of F v)\<rparr>))"
      by (simp add: complete_tool_def us Let_def attempt_of_def)
    moreover have "list_all (alone ?t) (take_last (length (add_attempt (attempts m) (attempt_of F v))) (cs @ [v]))"
      using facts(2,3) False latest_completions [of "attempts m" "attempt_of F v" cs v] by (auto simp: list_all_iff)
    ultimately show ?thesis using facts(1) by (simp add: traced_def)
  qed
qed

lemma observe_traced:
  assumes "monitor_inv F cs m" "traced t cs m"
  shows "traced (trace_call t value) (add_completion cs value) (snd (observe F value m))"
proof (cases "disabled (snd (observe F value m))")
  case live: False
  then obtain v where v: "value = Some v" "\<not> disabled m" "invocation_id v \<noteq> ''''" "operation v \<noteq> ''''" "complete v"
    by (auto simp: observe_def split: option.splits if_splits)
  show ?thesis
  proof (cases "phase v = ToolStarted")
    case True
    then have "add_completion cs value = cs" by (simp add: v add_completion_def)
    moreover have "observe F value m = start_tool v m" using v True by (simp add: observe_def)
    ultimately show ?thesis using start_traced [OF assms v(2) True] by (simp add: v(1))
  next
    case False
    with live v obtain e where e: "map_of (executions m) (invocation_id v) = Some e" "phase v = ToolCompleted"
      by (auto simp: observe_def split: option.splits if_splits)
    show ?thesis
    proof (cases "ex_done e")
      case True
      then have "snd (observe F value m) = m" using live v e False by (auto simp: observe_def split: if_splits)
      moreover have "add_completion cs value = cs" using repeated_completion [OF assms(1) v(2) e(1) True] by (simp add: v(1))
      moreover have "invocation_id v \<notin> set (running_calls t)"
      proof -
        have "distinct (map fst (executions m))" using assms(1) by (simp add: monitor_inv_def)
        then have "\<And>b. (invocation_id v, b) \<in> set (executions m) \<Longrightarrow> b = e" using e(1) by simp
        then show ?thesis using assms(2) v(2) True by (auto simp: traced_def executions_traced_def)
      qed
      then have "trace_call t value = t" using v(1) e(2) by (simp add: trace_call_def Let_def)
      ultimately show ?thesis using assms(2) by simp
    next
      case d: False
      then have "observe F value m = complete_tool F v e m" using v e False by (simp add: observe_def)
      moreover have "add_completion cs value = cs @ [v]"
        using completed_inv(2) [OF assms(1) v(2) e(1) d e(2)] by (simp add: v(1))
      ultimately show ?thesis using completed_traced [OF assms v(2) e(1) d e(2)] by (simp add: v(1))
    qed
  qed
qed simp

lemma monitor_after_traced: "traced (calls_of h) (completions h) (monitor_after F h)"
proof (induction h rule: rev_induct)
  case Nil
  show ?case
    by (simp add: calls_of_def completions_def monitor_after_def new_monitor_def traced_def executions_traced_def take_last_def)
next
  case (snoc v h)
  from observe_traced [OF monitor_after_inv snoc, of v]
  show ?case by (simp add: calls_of_def completions_def monitor_after_def)
qed

text \<open>Only a completion that was just recorded leads to a recovery.\<close>

lemma no_recover [simp]: "\<not> recover no_decision" "\<not> recover tracking_limit"
  by (simp_all add: no_decision_def tracking_limit_def)

lemma judge_recover:
  assumes "recover (fst (judge F m))"
  obtains n where "n \<in> {1..4}" "n * 3 \<le> length (attempts m)" "cycle_matches n (take_last (n * 3) (attempts m))"
    "list_all eligible (take_last (n * 3) (attempts m))"
proof -
  from assms obtain n where f: "find_cycle (attempts m) = Some n"
    and "list_all eligible (take_last (n * 3) (attempts m))"
    by (auto simp: judge_def Let_def no_decision_def split: option.splits if_splits)
  with find_SomeD [OF f [unfolded find_cycle_def]] show thesis by (intro that [of n]) auto
qed

lemma observe_recover:
  assumes "recover (fst (observe F value m))"
  obtains v e where "value = Some v" "\<not> disabled m" "phase v = ToolCompleted"
    "map_of (executions m) (invocation_id v) = Some e" "\<not> ex_done e"
    "observe F value m = complete_tool F v e m"
proof -
  have s: "\<not> recover (fst (start_tool v m))" for v
    by (simp add: start_tool_def Let_def split: option.split)
  show thesis
  proof (cases "value")
    case None
    with assms show thesis by (simp add: observe_def)
  next
    case (Some v)
    show thesis
    proof (cases "disabled m \<or> invocation_id v = '''' \<or> operation v = '''' \<or> \<not> complete v \<or> phase v = ToolStarted")
      case True
      with assms Some s show thesis by (auto simp: observe_def split: if_splits)
    next
      case False
      note ok = this
      show thesis
      proof (cases "map_of (executions m) (invocation_id v)")
        case None
        with ok assms Some show thesis by (simp add: observe_def)
      next
        case e: (Some e)
        with ok assms Some have "phase v = ToolCompleted" "\<not> ex_done e"
          by (simp_all add: observe_def split: if_splits)
        with ok e Some show thesis by (intro that [of v e]) (simp_all add: observe_def)
      qed
    qed
  qed
qed

lemma complete_tool_recover:
  assumes "recover (fst (complete_tool F v e m))"
  obtains u where "complete_tool F v e m = judge F u"
  using assms unfolding complete_tool_def Let_def by (simp split: if_splits)
lemma cycle_matches_map:
  assumes "length ts = n * 3" "1 \<le> n" "cycle_matches n (map f ts)"
  shows "list_all (\<lambda>i. signature (f (ts ! i)) = signature (f (ts ! (i mod n)))) [0..<n * 3]"
proof -
  have lt: "i mod n < length ts" for i
    by (rule less_le_trans [of _ n]) (use assms(1,2) in simp_all)
  have "signature (f (ts ! i)) = signature (f (ts ! (i mod n)))" if i: "i < length ts" for i
  proof -
    have "signature (map f ts ! i) = signature (map f ts ! (i mod n))"
      using assms(3) i unfolding cycle_matches_def list_all_iff by (metis atLeastLessThan_upt atLeastLessThan_iff length_map zero_le)
    then show ?thesis by (simp only: nth_map [OF i] nth_map [OF lt])
  qed
  then show ?thesis unfolding list_all_iff assms(1) by auto
qed

text \<open>C25. A recovery rests on evidence: it is only asked for right after a completion, when the latest
  distinct completions of the turn are three repetitions of one cycle of one to four calls, all of
  them failures with the same signatures that structured errors mark as non-transient, with no
  other completion in between; and they were sequential: each of these calls was started for the
  operation it completed, and no other call of the turn ran while it did (\<open>alone\<close>).\<close>
theorem recovery_evidence:
  assumes "recover (fst (observe F value (monitor_after F h)))"
  shows "\<exists>n ts. 1 \<le> n \<and> n \<le> 4 \<and> length ts = n * 3 \<and> ts = take_last (n * 3) (completions (h @ [value])) \<and>
     value = Some (last ts) \<and> list_all (\<lambda>t. failure t \<and> non_transient t) ts \<and>
     list_all (\<lambda>i. signature (attempt_of F (ts ! i)) = signature (attempt_of F (ts ! (i mod n)))) [0..<n * 3] \<and>
     list_all (alone (calls_of (h @ [value]))) ts"
proof -
  let ?m = "monitor_after F h"
  obtain v e where v: "value = Some v" and live: "\<not> disabled ?m" "phase v = ToolCompleted"
    "map_of (executions ?m) (invocation_id v) = Some e" "\<not> ex_done e"
    and c: "observe F value ?m = complete_tool F v e ?m"
    by (rule observe_recover [OF assms])
  from assms c have "recover (fst (complete_tool F v e ?m))" by simp
  then obtain w where w: "complete_tool F v e ?m = judge F w" by (rule complete_tool_recover)
  let ?u = "snd (complete_tool F v e ?m)"
  have r: "recover (fst (judge F w))" using assms c w by simp
  obtain n where n: "n \<in> {1..4}" "n * 3 \<le> length (attempts ?u)"
    "cycle_matches n (take_last (n * 3) (attempts ?u))" "list_all eligible (take_last (n * 3) (attempts ?u))"
    by (rule judge_recover [OF r]) (simp add: w)
  have cs: "completions (h @ [value]) = completions h @ [v]" and
    inv: "monitor_inv F (completions h @ [v]) ?u"
    using completed_inv [OF monitor_after_inv live(1) live(3,4,2)] by (simp_all add: completions_def v)
  have "attempts ?u \<noteq> []" using n(1,2) by auto
  then have "\<not> disabled ?u" using inv by (auto simp: monitor_inv_def)
  with inv obtain xs ys where ys: "completions h @ [v] = xs @ ys" "attempts ?u = map (attempt_of F) ys" "list_all failure ys"
    by (auto simp: monitor_inv_def follows_def)
  let ?ts = "take_last (n * 3) ys"
  have len: "n * 3 \<le> length ys" using n ys by simp
  then have ts: "?ts = take_last (n * 3) (completions (h @ [value]))"
    unfolding cs ys(1) by (simp add: take_last_def)
  have ts': "take_last (n * 3) (attempts ?u) = map (attempt_of F) ?ts" using ys(2) by (simp add: take_last_def drop_map)
  have lt: "length ?ts = n * 3" using len by simp
  have "?ts \<noteq> []" using lt n(1) by (metis atLeastAtMost_iff length_0_conv mult_is_0 not_one_le_zero zero_neq_numeral)
  then have "last ?ts = last (xs @ ys)" by (subst last_appendR) (auto simp: last_take_last take_last_def)
  also have "\<dots> = v" using ys(1) by (metis last_snoc)
  finally have "last ?ts = v" .
  moreover have "list_all (\<lambda>t. failure t \<and> non_transient t) ?ts"
    using ys(3) n(4) set_take_last [of "n * 3" ys] unfolding ts' by (auto simp: list_all_iff attempt_of_def)
  moreover have "list_all (\<lambda>i. signature (attempt_of F (?ts ! i)) = signature (attempt_of F (?ts ! (i mod n)))) [0..<n * 3]"
    by (rule cycle_matches_map [OF lt]) (use n(1,3) ts' in simp_all)
  moreover have "list_all (alone (calls_of (h @ [value]))) ?ts"
  proof -
    have "monitor_after F (h @ [value]) = ?u" using c by (simp add: monitor_after_def)
    then have "list_all (alone (calls_of (h @ [value]))) (take_last (length (attempts ?u)) (completions h @ [v]))"
      using monitor_after_traced [of "h @ [value]" F] \<open>\<not> disabled ?u\<close> by (simp add: traced_def cs)
    moreover have "length (attempts ?u) = length ys" by (simp add: ys(2))
    ultimately show ?thesis using set_take_last [of "n * 3" ys] by (auto simp: ys(1) list_all_iff take_last_def)
  qed
  ultimately show ?thesis using n(1) lt ts v by (intro exI [of _ n] exI [of _ ?ts]) auto
qed

definition sample_prints :: fingerprints where
  "sample_prints = \<lparr>attempt_print = (\<lambda>c s r. c @ s @ r), cycle_print = concat\<rparr>"

definition tool_event :: "string \<Rightarrow> string \<Rightarrow> string \<Rightarrow> tool_observation option" where
  "tool_event i c p = Some \<lparr>invocation_id = i, operation = c, phase = p,
     tool_outcome = (if p = ToolCompleted then ToolFailed else ''unknown''),
     tool_result = (if p = ToolCompleted then ''no such file'' else ''''), complete = True, non_transient = True\<rparr>"

definition sample_history :: "tool_observation option list" where
  "sample_history =
     [tool_event ''1'' ''ls'' ToolStarted, tool_event ''1'' ''ls'' ToolCompleted,
      tool_event ''2'' ''ls'' ToolStarted, tool_event ''2'' ''ls'' ToolCompleted,
      tool_event ''3'' ''ls'' ToolStarted]"

lemma sample_recovers:
  "recover (fst (observe sample_prints (tool_event ''3'' ''ls'' ToolCompleted) (monitor_after sample_prints sample_history)))"
  by code_simp

theorem recovery_evidence_witness:
  "\<exists>n ts. 1 \<le> n \<and> n \<le> 4 \<and> length ts = n * 3 \<and>
     ts = take_last (n * 3) (completions (sample_history @ [tool_event ''3'' ''ls'' ToolCompleted])) \<and>
     tool_event ''3'' ''ls'' ToolCompleted = Some (last ts) \<and> list_all (\<lambda>t. failure t \<and> non_transient t) ts \<and>
     list_all (\<lambda>i. signature (attempt_of sample_prints (ts ! i)) =
        signature (attempt_of sample_prints (ts ! (i mod n)))) [0..<n * 3] \<and>
     list_all (alone (calls_of (sample_history @ [tool_event ''3'' ''ls'' ToolCompleted]))) ts"
  by (rule recovery_evidence [OF sample_recovers])

text \<open>An unchanged cycle is reported once: as long as nothing resets the monitor, a state whose
  repeated cycle is the reported one, entered at any of its calls, gives no further decision.\<close>
theorem cycle_reported_once:
  assumes "find_cycle (attempts m) = Some n" "find_cycle (attempts u) = Some n"
    and "map signature (take n (take_last (n * 3) (attempts u))) =
      rotate k (map signature (take n (take_last (n * 3) (attempts m))))"
    and "warned u = warned (snd (judge F m))"
  shows "fst (judge F u) = no_decision"
proof -
  have "warned (snd (judge F m)) = cycle_warning F (map signature (take n (take_last (n * 3) (attempts m))))"
    using assms(1) by (simp add: judge_def Let_def)
  also have "\<dots> = cycle_warning F (map signature (take n (take_last (n * 3) (attempts u))))"
    unfolding assms(3) by (simp add: cycle_warning_rotate)
  finally show ?thesis using assms(2,4) by (simp add: judge_def Let_def)
qed

definition sample_monitor :: "string list \<Rightarrow> loop_monitor" where
  "sample_monitor ss = new_monitor\<lparr>attempts := map (\<lambda>s. \<lparr>signature = s, eligible = True\<rparr>) ss\<rparr>"

lemma sample_cycles:
  "find_cycle (attempts (sample_monitor [''a'', ''b'', ''a'', ''b'', ''a'', ''b''])) = Some 2"
  by code_simp

definition reported_again :: loop_monitor where
  "reported_again = (sample_monitor [''a'', ''b'', ''a'', ''b'', ''a'', ''b'', ''a''])
     \<lparr>warned := warned (snd (judge sample_prints (sample_monitor [''a'', ''b'', ''a'', ''b'', ''a'', ''b''])))\<rparr>"

lemma sample_again:
  "find_cycle (attempts reported_again) = Some 2"
  "map signature (take 2 (take_last (2 * 3) (attempts reported_again))) =
     rotate 1 (map signature (take 2 (take_last (2 * 3) (attempts (sample_monitor [''a'', ''b'', ''a'', ''b'', ''a'', ''b''])))))"
  "warned reported_again = warned (snd (judge sample_prints (sample_monitor [''a'', ''b'', ''a'', ''b'', ''a'', ''b''])))"
  by code_simp+

theorem cycle_reported_once_witness: "fst (judge sample_prints reported_again) = no_decision"
  by (rule cycle_reported_once [OF sample_cycles(1) sample_again])

end
