(* ===== verification/Core_Peers.thy ===== *)
theory Core_Peers
  imports Conversations
begin

text \<open>
  Who may answer and who leads, \<^verbatim>\<open>internal/room/orchestrator.go\<close>: the start gate
  \<open>providerEligibilityLocked\<close>, the active core peers, \<open>reconcileCoreStateLocked\<close> (cooldowns,
  promotions, failover, moderator) and every operation that changes the core: presence,
  availability, moderator, policy, promotion and restoration.  Go maps are association lists.
  An operation returns its error and the state it leaves; writing the room file is the argument
  \<open>saved\<close>, and what it would report to the transcript is left out.
\<close>

section \<open>State\<close>

record availability =
  av_reason :: string
  av_source :: string
  av_detected_at :: time
  av_retry_at :: "time option"
  av_confidence :: string

record provider_hold =
  hold_reason :: string
  hold_created_at :: time

definition CorePromotionManual :: string where "CorePromotionManual = ''manual''"
definition CorePromotionPresence :: string where "CorePromotionPresence = ''presence''"
definition CorePromotionAvailability :: string where "CorePromotionAvailability = ''availability''"

lemma promotion_sources [simp]:
  "CorePromotionPresence \<noteq> CorePromotionManual" "CorePromotionAvailability \<noteq> CorePromotionManual"
  "CorePromotionManual \<noteq> CorePromotionPresence" "CorePromotionManual \<noteq> CorePromotionAvailability"
  by (simp_all add: CorePromotionManual_def CorePromotionPresence_def CorePromotionAvailability_def)

definition valid_promotion_source :: "string \<Rightarrow> bool" where
  "valid_promotion_source s \<longleftrightarrow>
     s = CorePromotionManual \<or> s = CorePromotionPresence \<or> s = CorePromotionAvailability"

record core_promotion =
  promoted :: participant
  replaces :: participant
  promotion_source :: string
  promotion_reason :: string
  promoted_at :: time

record core_room =
  members :: "(participant \<times> bool) list option"
  chatgpt_here :: bool
  availabilities :: "(participant \<times> availability) list"
  provider_holds :: "(participant \<times> provider_hold) list"
  session_keys :: "participant list"
  core_promotions :: "core_promotion list"
  moderator :: participant
  moderator_preference :: participant
  moderator_explicit :: bool
  room_policy :: "core_policy option"
  room_conversations :: "conversation_job list"

record core_host =
  room :: core_room
  policy :: core_policy
  agents :: "participant list"
  temporary_for :: "(participant \<times> string) list"
  delegated :: "participant list"
  active_calls :: "participant list"
  active_work :: nat
  concurrency :: "(participant \<Rightarrow> int) option"
  default_policy :: "core_policy option"

section \<open>Presence and eligibility\<close>

definition present :: "core_room \<Rightarrow> participant \<Rightarrow> bool" where
  "present r p =
     (if p = ChatGPT then chatgpt_here r
      else valid_agent p \<and>
        (case members r of
           None \<Rightarrow> p = Codex \<or> p = Claude
         | Some m \<Rightarrow> map_of m p = Some True))"

definition present_agents :: "core_room \<Rightarrow> participant list" where
  "present_agents r =
     (case members r of
        None \<Rightarrow> default_agents
      | Some m \<Rightarrow> ordered_participants (map fst (filter (\<lambda>x. snd x \<and> valid_agent (fst x)) m)))"

record eligibility_options =
  ignore_saturation :: bool
  temporary_runtime :: bool
  allow_absent :: bool
  allow_delegated :: bool
  option_conversation :: string

definition plain_options :: eligibility_options where
  "plain_options = \<lparr>ignore_saturation = False, temporary_runtime = False, allow_absent = False,
     allow_delegated = False, option_conversation = ''''\<rparr>"

record provider_eligibility =
  eligible :: bool
  eligibility_reason :: string
  waitable :: bool

definition ineligible :: "string \<Rightarrow> provider_eligibility" where
  "ineligible s = \<lparr>eligible = False, eligibility_reason = s, waitable = False\<rparr>"

definition eligible_now :: provider_eligibility where
  "eligible_now = \<lparr>eligible = True, eligibility_reason = '''', waitable = False\<rparr>"

definition cooling :: "availability \<Rightarrow> time \<Rightarrow> bool" where
  "cooling a now = (case av_retry_at a of None \<Rightarrow> True | Some t \<Rightarrow> now < t)"

definition cooldown_of :: "core_room \<Rightarrow> participant \<Rightarrow> time \<Rightarrow> string option" where
  "cooldown_of r p now =
     (case map_of (availabilities r) p of
        None \<Rightarrow> None
      | Some a \<Rightarrow> if cooling a now then Some (av_reason a) else None)"

text \<open>The checks up to the saturation ones.\<close>

definition unavailable_reason :: "core_host \<Rightarrow> participant \<Rightarrow> time \<Rightarrow> eligibility_options \<Rightarrow> string option" where
  "unavailable_reason h p now opts =
     (if \<not> valid_agent p \<or> \<not> is_primary_agent (provider p) then Some ''invalid participant''
      else case map_of (provider_holds (room h)) (provider p) of
        Some hold \<Rightarrow> Some (if trim_space (hold_reason hold) = '''' then ''provider is on manual hold''
                          else trim_space (hold_reason hold))
      | None \<Rightarrow>
          if \<not> present (room h) (provider p) then Some ''primary provider is away''
          else if p \<noteq> provider p \<and> \<not> present (room h) p \<and> \<not> temporary_runtime opts \<and> \<not> allow_absent opts
          then Some ''participant is away''
          else case cooldown_of (room h) (provider p) now of
            Some reason \<Rightarrow> Some reason
          | None \<Rightarrow>
              (case (if p \<noteq> provider p then cooldown_of (room h) p now else None) of
                 Some reason \<Rightarrow> Some reason
               | None \<Rightarrow> if \<not> temporary_runtime opts \<and> p \<notin> set (agents h)
                         then Some ''provider runtime is not configured'' else None))"

definition provider_calls :: "core_host \<Rightarrow> participant \<Rightarrow> string \<Rightarrow> nat" where
  "provider_calls h pr conversation =
     length (filter (\<lambda>q. provider q = pr) (active_calls h)) +
     length (filter (\<lambda>j. job_id j \<noteq> conversation \<and> provider (assigned j) = pr \<and>
         (job_state j = ConversationAnswering \<or> job_state j = ConversationRetrying) \<and>
         assigned j \<notin> set (active_calls h)) (room_conversations (room h)))"

definition provider_capacity :: "core_host \<Rightarrow> participant \<Rightarrow> int" where
  "provider_capacity h pr =
     (case concurrency h of
        Some f \<Rightarrow> max 1 (f pr)
      | None \<Rightarrow> let identities = int (length (filter (\<lambda>q. provider q = pr) (agents h)))
                in if identities > 1 then min 2 identities else 1)"

definition provider_eligibility_of :: "core_host \<Rightarrow> participant \<Rightarrow> time \<Rightarrow> eligibility_options \<Rightarrow>
    provider_eligibility" where
  "provider_eligibility_of h p now opts =
     (case unavailable_reason h p now opts of
        Some reason \<Rightarrow> ineligible reason
      | None \<Rightarrow>
          if ignore_saturation opts then eligible_now
          else if (case map_of (temporary_for h) p of None \<Rightarrow> False | Some c \<Rightarrow> c \<noteq> option_conversation opts)
          then ineligible ''temporary responder is reserved for another conversation''
          else if p \<in> set (delegated h) \<and> \<not> allow_delegated opts
          then ineligible ''participant is running delegated work''
          else if p \<in> set (active_calls h) then ineligible ''participant already has an active call''
          else let calls = provider_calls h (provider p) (option_conversation opts);
                   capacity = provider_capacity h (provider p)
               in if int calls \<ge> capacity
                  then \<lparr>eligible = False,
                        eligibility_reason = provider p @ '' provider is at capacity ('' @ show_nat calls @ ''/''
                          @ itoa capacity @ '' active calls)'',
                        waitable = True\<rparr>
                  else eligible_now)"

definition operational :: "core_host \<Rightarrow> participant \<Rightarrow> time \<Rightarrow> bool" where
  "operational h p now = eligible (provider_eligibility_of h p now (plain_options\<lparr>ignore_saturation := True\<rparr>))"

definition startable :: "core_host \<Rightarrow> participant \<Rightarrow> time \<Rightarrow> bool" where
  "startable h p now = eligible (provider_eligibility_of h p now plain_options)"

definition operational_participants :: "core_host \<Rightarrow> time \<Rightarrow> participant list" where
  "operational_participants h now = filter (\<lambda>p. operational h p now) (present_agents (room h))"

definition workflow_participants :: "core_host \<Rightarrow> time \<Rightarrow> participant list" where
  "workflow_participants h now =
     filter (\<lambda>p. map_of (temporary_for h) p = None) (operational_participants h now)"

definition workflow_start_participants :: "core_host \<Rightarrow> time \<Rightarrow> participant list" where
  "workflow_start_participants h now =
     filter (\<lambda>p. map_of (temporary_for h) p = None \<and> startable h p now) (present_agents (room h))"

section \<open>The active core\<close>

definition replacements :: "core_host \<Rightarrow> time \<Rightarrow> (participant \<times> participant) list" where
  "replacements h now =
     foldl (\<lambda>m p. if is_primary_agent (replaces p) \<and> operational h (promoted p) now
                  then put (replaces p) (promoted p) m else m) [] (core_promotions (room h))"

definition add_once :: "participant list \<Rightarrow> participant \<Rightarrow> participant list" where
  "add_once ps p = (if is_primary_agent p \<and> p \<notin> set ps then ps @ [p] else ps)"

definition active_core :: "core_host \<Rightarrow> time \<Rightarrow> participant list" where
  "active_core h now =
     foldl (\<lambda>ps q. if is_primary_agent (replaces q) then ps else add_once ps (promoted q))
       (foldl (\<lambda>ps p. add_once ps
            (case map_of (replacements h now) p of
               Some r \<Rightarrow> if is_primary_agent r then r else p
             | None \<Rightarrow> p)) [] (preferred (policy h)))
       (core_promotions (room h))"

definition active_present_core :: "core_host \<Rightarrow> time \<Rightarrow> participant list" where
  "active_present_core h now = filter (\<lambda>p. operational h p now) (active_core h now)"

definition active_startable_core :: "core_host \<Rightarrow> time \<Rightarrow> participant list" where
  "active_startable_core h now = filter (\<lambda>p. startable h p now) (active_present_core h now)"

definition has_startable_core :: "core_host \<Rightarrow> time \<Rightarrow> bool" where
  "has_startable_core h now \<longleftrightarrow>
     active_startable_core h now \<noteq> [] \<or>
     (failover (policy h) = CoreFailoverAuto \<and>
      list_ex (\<lambda>f. startable h f now) (slice (fallbacks (policy h))))"

definition has_routable_core :: "core_host \<Rightarrow> time \<Rightarrow> bool" where
  "has_routable_core h now \<longleftrightarrow>
     active_present_core h now \<noteq> [] \<or>
     (failover (policy h) = CoreFailoverAuto \<and>
      list_ex (\<lambda>f. operational h f now) (slice (fallbacks (policy h))))"

section \<open>Reconciliation\<close>

abbreviation set_room :: "(core_room \<Rightarrow> core_room) \<Rightarrow> core_host \<Rightarrow> core_host" where
  "set_room f h \<equiv> h\<lparr>room := f (room h)\<rparr>"

definition expire :: "time \<Rightarrow> core_host \<Rightarrow> bool \<times> core_host" where
  "expire now h =
     (list_ex (\<lambda>x. \<not> cooling (snd x) now) (availabilities (room h)),
      set_room (\<lambda>r. r\<lparr>availabilities := filter (\<lambda>x. cooling (snd x) now) (availabilities r)\<rparr>) h)"

definition keeps_promotion :: "core_host \<Rightarrow> time \<Rightarrow> participant list \<Rightarrow> participant list \<Rightarrow> core_promotion \<Rightarrow> bool" where
  "keeps_promotion h now used filled p \<longleftrightarrow>
     \<not> (\<not> is_primary_agent (promoted p) \<or> \<not> valid_promotion_source (promotion_source p) \<or>
        promoted p \<in> set (preferred (policy h)) \<or> promoted p \<in> set used) \<and>
     \<not> (replaces p \<noteq> '''' \<and> \<not> is_primary_agent (replaces p)) \<and>
     \<not> (is_primary_agent (replaces p) \<and> replaces p \<notin> set (preferred (policy h))) \<and>
     \<not> (is_primary_agent (replaces p) \<and> replaces p \<in> set filled) \<and>
     operational h (promoted p) now \<and>
     \<not> (promotion_source p \<noteq> CorePromotionManual \<and> is_primary_agent (replaces p) \<and>
        operational h (replaces p) now \<and> restore (policy h) = CoreRestoreAuto)"

fun keep_promotions :: "core_host \<Rightarrow> time \<Rightarrow> core_promotion list \<Rightarrow> participant list \<Rightarrow> participant list \<Rightarrow>
    bool \<times> core_promotion list" where
  "keep_promotions h now [] used filled = (False, [])"
| "keep_promotions h now (p # ps) used filled =
     (if keeps_promotion h now used filled p
      then apsnd (Cons p) (keep_promotions h now ps (promoted p # used)
             (if is_primary_agent (replaces p) then replaces p # filled else filled))
      else (True, snd (keep_promotions h now ps used filled)))"

definition failover_promotion :: "core_host \<Rightarrow> time \<Rightarrow> participant \<Rightarrow> participant \<Rightarrow> core_promotion" where
  "failover_promotion h now p f =
     (case map_of (availabilities (room h)) p of
        Some a \<Rightarrow> \<lparr>promoted = f, replaces = p, promotion_source = CorePromotionAvailability,
                  promotion_reason = av_reason a, promoted_at = now\<rparr>
      | None \<Rightarrow> \<lparr>promoted = f, replaces = p, promotion_source = CorePromotionPresence,
                 promotion_reason = p @ '' is away or unavailable'', promoted_at = now\<rparr>)"

text \<open>The preferred peers that are left, the used and the replaced ones, the promotions so far.\<close>

fun fail_over :: "core_host \<Rightarrow> time \<Rightarrow> participant list \<Rightarrow> participant list \<Rightarrow> participant list \<Rightarrow>
    core_promotion list \<Rightarrow> bool \<times> core_promotion list" where
  "fail_over h now [] used replaced qs = (False, qs)"
| "fail_over h now (p # ps) used replaced qs =
     (if operational h p now \<or> p \<in> set replaced then fail_over h now ps (p # used) replaced qs
      else case find (\<lambda>f. \<not> (f \<in> set used \<or> \<not> operational h f now)) (slice (fallbacks (policy h))) of
             None \<Rightarrow> fail_over h now ps used replaced qs
           | Some f \<Rightarrow> (True, snd (fail_over h now ps (f # used) (p # replaced) (qs @ [failover_promotion h now p f]))))"

definition replaced_peers :: "core_promotion list \<Rightarrow> participant list" where
  "replaced_peers ps = map replaces (filter (\<lambda>p. is_primary_agent (replaces p)) ps)"

definition reconcile_promotions :: "core_host \<Rightarrow> time \<Rightarrow> bool \<times> core_promotion list" where
  "reconcile_promotions h now =
     (let (c1, ps) = keep_promotions h now (core_promotions (room h)) [] []
      in if failover (policy h) = CoreFailoverAuto
         then let (c2, qs) = fail_over h now (preferred (policy h)) (map promoted ps) (replaced_peers ps) ps
              in (c1 \<or> c2, qs)
         else (c1, ps))"

definition settle_preference :: "core_room \<Rightarrow> bool \<times> core_room" where
  "settle_preference r =
     (let (c1, r) = (if \<not> moderator_explicit r \<and> moderator_preference r \<noteq> ''''
                     then (True, r\<lparr>moderator_preference := ''''\<rparr>) else (False, r));
          (c2, r) = (if moderator_explicit r \<and> \<not> is_primary_agent (moderator_preference r)
                     then (True, r\<lparr>moderator_explicit := False, moderator_preference := ''''\<rparr>) else (False, r))
      in (c1 \<or> c2, r))"

text \<open>The moderator the human chose, or the peer that stands in for it.\<close>

definition chosen_moderator :: "core_room \<Rightarrow> participant list \<Rightarrow> participant" where
  "chosen_moderator r active =
     (if moderator_explicit r \<and> moderator_preference r \<in> set active then moderator_preference r
      else if moderator_explicit r
      then (case find (\<lambda>p. replaces p = moderator_preference r \<and> promoted p \<in> set active)
                   (core_promotions r) of
              Some p \<Rightarrow> promoted p | None \<Rightarrow> '''')
      else '''')"

definition effective_moderator :: "core_room \<Rightarrow> participant list \<Rightarrow> participant" where
  "effective_moderator r active =
     (let m = chosen_moderator r active;
          m = (if \<not> valid_agent m \<and> moderator r \<in> set active then moderator r else m)
      in if \<not> valid_agent m \<and> active \<noteq> [] then hd active else m)"

definition reconcile_moderator :: "core_host \<Rightarrow> time \<Rightarrow> bool \<times> core_host" where
  "reconcile_moderator h now =
     (let active = active_present_core h now;
          (c1, r) = settle_preference (room h);
          m = effective_moderator r active
      in (c1 \<or> moderator r \<noteq> m, h\<lparr>room := r\<lparr>moderator := m\<rparr>\<rparr>))"

definition reconcile :: "time \<Rightarrow> core_host \<Rightarrow> bool \<times> core_host" where
  "reconcile now h =
     (let h = h\<lparr>policy := with_defaults (policy h)\<rparr>;
          (c1, h) = expire now h;
          (c2, ps) = reconcile_promotions h now;
          h = set_room (\<lambda>r. r\<lparr>core_promotions := ps\<rparr>) h;
          (c3, h) = reconcile_moderator h now
      in (c1 \<or> c2 \<or> c3, h))"

section \<open>Operations\<close>

datatype core_error =
  InvalidParticipant participant | InvalidReplaced participant | BusyRoom | NotActiveCore participant
| NotConfigured participant | PolicyError policy_error | NoCorePreferences | PreferencesFailed
| NotOperational participant | NotPreferred participant | AlreadyPreferred participant
| PromotedElsewhere participant | HasReplacement participant | StillUnavailable participant
| NoPromotion participant | SaveFailed

type_synonym core_result = "core_error option \<times> core_host"

definition save_host :: "bool \<Rightarrow> core_host \<Rightarrow> core_result" where
  "save_host saved h = (if saved then None else Some SaveFailed, h)"

definition refresh_core :: "bool \<Rightarrow> time \<Rightarrow> core_host \<Rightarrow> core_result" where
  "refresh_core saved now h =
     (if active_work h > 0 then (None, h)
      else let (changed, h) = reconcile now h in if changed then save_host saved h else (None, h))"

definition set_moderator :: "bool \<Rightarrow> time \<Rightarrow> participant \<Rightarrow> core_host \<Rightarrow> core_result" where
  "set_moderator saved now p h =
     (if \<not> is_primary_agent p then (Some (InvalidParticipant p), h)
      else if active_work h > 0 then (Some BusyRoom, h)
      else if p \<notin> set (active_present_core h now) then (Some (NotActiveCore p), h)
      else if moderator (room h) = p \<and> moderator_preference (room h) = p \<and> moderator_explicit (room h) then (None, h)
      else save_host saved (set_room (\<lambda>r. r\<lparr>moderator := p, moderator_preference := p, moderator_explicit := True\<rparr>) h))"

definition set_moderator_automatic :: "bool \<Rightarrow> time \<Rightarrow> core_host \<Rightarrow> core_result" where
  "set_moderator_automatic saved now h =
     (if active_work h > 0 then (Some BusyRoom, h)
      else if \<not> moderator_explicit (room h) \<and> moderator_preference (room h) = '''' then (None, h)
      else save_host saved (snd (reconcile now
             (set_room (\<lambda>r. r\<lparr>moderator_explicit := False, moderator_preference := ''''\<rparr>) h))))"

definition default_members :: "(participant \<times> bool) list" where
  "default_members = [(Codex, True), (Claude, True)]"

definition members_of :: "core_room \<Rightarrow> (participant \<times> bool) list" where
  "members_of r = (case members r of None \<Rightarrow> default_members | Some m \<Rightarrow> m)"

definition join_room :: "participant \<Rightarrow> core_room \<Rightarrow> core_room" where
  "join_room p r =
     (let r = r\<lparr>members := Some (put p True (members_of r))\<rparr>
      in if is_primary_agent p then r\<lparr>provider_holds := remove_key (provider p) (provider_holds r)\<rparr> else r)"

definition leave_room :: "string \<Rightarrow> time \<Rightarrow> participant \<Rightarrow> core_room \<Rightarrow> core_room" where
  "leave_room reason now p r =
     (let r = r\<lparr>members := Some (put p False (members_of r))\<rparr>
      in if is_primary_agent p
         then r\<lparr>provider_holds := put (provider p) \<lparr>hold_reason = reason, hold_created_at = now\<rparr> (provider_holds r)\<rparr>
         else r)"

definition ensure_session :: "participant \<Rightarrow> core_room \<Rightarrow> core_room" where
  "ensure_session p r = (if p \<in> set (session_keys r) then r else r\<lparr>session_keys := p # session_keys r\<rparr>)"

definition set_presence :: "bool \<Rightarrow> time \<Rightarrow> participant \<Rightarrow> bool \<Rightarrow> core_host \<Rightarrow> core_result" where
  "set_presence saved now p here h =
     (if \<not> valid_agent p then (Some (InvalidParticipant p), h)
      else if here \<and> p \<notin> set (agents h) then (Some (NotConfigured p), h)
      else
        let h = set_room (\<lambda>r. r\<lparr>members := Some (members_of r)\<rparr>) h;
            held = map_of (provider_holds (room h)) (provider p) \<noteq> None;
            hold_matches = (\<not> is_primary_agent p \<or> (here \<and> \<not> held) \<or> (\<not> here \<and> held));
            member = (map_of (members_of (room h)) p = Some True)
        in if member = here \<and> hold_matches then (None, h)
           else let h = set_room (\<lambda>r. if here then join_room p r
                                   else leave_room ''manual hold: primary left the room'' now p r) h;
                    h = snd (reconcile now h)
                in save_host saved (set_room (ensure_session p) h))"

definition set_core_policy :: "bool \<Rightarrow> bool \<Rightarrow> time \<Rightarrow> core_policy \<Rightarrow> bool \<Rightarrow> core_host \<Rightarrow> core_result" where
  "set_core_policy pref_saved saved now v personal h =
     (case validate_policy v of
        Some e \<Rightarrow> (Some (PolicyError e), h)
      | None \<Rightarrow>
          let v = with_defaults v
          in if active_work h > 0 then (Some BusyRoom, h)
             else if personal \<and> default_policy h = None then (Some NoCorePreferences, h)
             else if personal \<and> \<not> pref_saved then (Some PreferencesFailed, h)
             else let h = (if personal then h\<lparr>default_policy := Some v\<rparr> else h)
                  in if personal \<and> room_policy (room h) \<noteq> None then (None, h)
                     else let h = (if personal then h else set_room (\<lambda>r. r\<lparr>room_policy := Some v\<rparr>) h)
                          in save_host saved (snd (reconcile now (h\<lparr>policy := v\<rparr>))))"

definition inherit_core_policy :: "bool \<Rightarrow> time \<Rightarrow> core_host \<Rightarrow> core_result" where
  "inherit_core_policy saved now h =
     (if active_work h > 0 then (Some BusyRoom, h)
      else let delete = (room_policy (room h) \<noteq> None);
               h = set_room (\<lambda>r. r\<lparr>room_policy := None\<rparr>) h;
               h = h\<lparr>policy := (case default_policy h of Some p \<Rightarrow> with_defaults p | None \<Rightarrow> built_in_core_policy)\<rparr>;
               h = snd (reconcile now h)
           in if delete then save_host saved h else (None, h))"

definition manual_promotion :: "time \<Rightarrow> participant \<Rightarrow> participant \<Rightarrow> core_promotion" where
  "manual_promotion now p q = \<lparr>promoted = p, replaces = q, promotion_source = CorePromotionManual,
     promotion_reason = ''manual promotion'', promoted_at = now\<rparr>"

text \<open>The scan of the present promotions: a refusal, the promotions with one made manual, or neither.\<close>

fun scan_promotions :: "time \<Rightarrow> participant \<Rightarrow> participant \<Rightarrow> core_promotion list \<Rightarrow> core_promotion list \<Rightarrow>
    core_error + core_promotion list option" where
  "scan_promotions now p q seen [] = Inr None"
| "scan_promotions now p q seen (x # xs) =
     (if promoted x = p then
        (if replaces x \<noteq> q then Inl (PromotedElsewhere p)
         else Inr (Some (seen @ x\<lparr>promotion_source := CorePromotionManual,
                promotion_reason := ''manual promotion'', promoted_at := now\<rparr> # xs)))
      else if valid_agent q \<and> replaces x = q then Inl (HasReplacement q)
      else scan_promotions now p q (seen @ [x]) xs)"

definition promote_core :: "bool \<Rightarrow> time \<Rightarrow> participant \<Rightarrow> participant \<Rightarrow> core_host \<Rightarrow> core_result" where
  "promote_core saved now p q h =
     (if \<not> is_primary_agent p then (Some (InvalidParticipant p), h)
      else if q \<noteq> '''' \<and> \<not> is_primary_agent q then (Some (InvalidReplaced q), h)
      else if active_work h > 0 then (Some BusyRoom, h)
      else if \<not> operational h p now then (Some (NotOperational p), h)
      else if valid_agent q \<and> q \<notin> set (preferred (policy h)) then (Some (NotPreferred q), h)
      else if p \<in> set (preferred (policy h)) then (Some (AlreadyPreferred p), h)
      else case scan_promotions now p q [] (core_promotions (room h)) of
             Inl e \<Rightarrow> (Some e, h)
           | Inr found \<Rightarrow>
               let ps = (case found of Some ps \<Rightarrow> ps | None \<Rightarrow> core_promotions (room h) @ [manual_promotion now p q])
               in save_host saved (snd (reconcile now (set_room (\<lambda>r. r\<lparr>core_promotions := ps\<rparr>) h))))"

text \<open>
  \<open>RestoreCore\<close> filters the slice in place.  \<open>kept\<close> is the prefix written so far; an early return
  leaves it in front of what the slice held beyond it.
\<close>

fun restore_scan :: "core_host \<Rightarrow> time \<Rightarrow> participant \<Rightarrow> core_promotion list \<Rightarrow> bool \<Rightarrow> core_promotion list \<Rightarrow>
    (core_error \<times> core_promotion list) + (bool \<times> core_promotion list)" where
  "restore_scan h now p kept matched [] = Inr (matched, kept)"
| "restore_scan h now p kept matched (x # xs) =
     (if \<not> (p = '''' \<or> replaces x = p \<or> promoted x = p)
      then restore_scan h now p (kept @ [x]) matched xs
      else if failover (policy h) = CoreFailoverAuto \<and> valid_agent (replaces x) \<and> \<not> operational h (replaces x) now
      then (if p \<noteq> '''' then Inl (StillUnavailable (replaces x), kept)
            else restore_scan h now p (kept @ [x]) True xs)
      else restore_scan h now p kept True xs)"

definition restore_core :: "bool \<Rightarrow> time \<Rightarrow> participant \<Rightarrow> core_host \<Rightarrow> core_result" where
  "restore_core saved now p h =
     (if p \<noteq> '''' \<and> \<not> is_primary_agent p then (Some (InvalidParticipant p), h)
      else if active_work h > 0 then (Some BusyRoom, h)
      else let ps = core_promotions (room h); in_place = (\<lambda>kept. kept @ drop (length kept) ps)
           in case restore_scan h now p [] False ps of
                Inl (e, kept) \<Rightarrow> (Some e, set_room (\<lambda>r. r\<lparr>core_promotions := in_place kept\<rparr>) h)
              | Inr (matched, kept) \<Rightarrow>
                  if p \<noteq> '''' \<and> \<not> matched
                  then (Some (NoPromotion p), set_room (\<lambda>r. r\<lparr>core_promotions := in_place kept\<rparr>) h)
                  else save_host saved (snd (reconcile now (set_room (\<lambda>r. r\<lparr>core_promotions := kept\<rparr>) h))))"

definition set_availability :: "bool \<Rightarrow> time \<Rightarrow> participant \<Rightarrow> availability option \<Rightarrow> core_host \<Rightarrow> core_result" where
  "set_availability saved now p v h =
     (if \<not> valid_agent p then (Some (InvalidParticipant p), h)
      else if active_work h > 0 then (Some BusyRoom, h)
      else let h = set_room (\<lambda>r. r\<lparr>availabilities :=
                 (case v of
                    None \<Rightarrow> remove_key p (availabilities r)
                  | Some a \<Rightarrow>
                      let a = a\<lparr>av_reason := (if trim_space (av_reason a) = '''' then ''manually marked unavailable''
                                            else trim_space (av_reason a)),
                                av_detected_at := (if av_detected_at a = 0 then now else av_detected_at a),
                                av_source := (if av_source a = '''' then ''manual'' else av_source a)\<rparr>
                      in put p a (availabilities r))\<rparr>) h
           in save_host saved (snd (reconcile now h)))"

datatype core_op =
  RefreshCore | SetModerator participant | SetModeratorAutomatic | SetPresence participant bool
| SetCorePolicy core_policy bool | InheritCorePolicy | PromoteCore participant participant
| RestoreCore participant | SetAvailability participant "availability option"

record core_io =
  core_now :: time
  core_saved :: bool
  prefs_saved :: bool

fun core_step :: "core_op \<times> core_io \<Rightarrow> core_host \<Rightarrow> core_result" where
  "core_step (RefreshCore, i) h = refresh_core (core_saved i) (core_now i) h"
| "core_step (SetModerator p, i) h = set_moderator (core_saved i) (core_now i) p h"
| "core_step (SetModeratorAutomatic, i) h = set_moderator_automatic (core_saved i) (core_now i) h"
| "core_step (SetPresence p b, i) h = set_presence (core_saved i) (core_now i) p b h"
| "core_step (SetCorePolicy v b, i) h = set_core_policy (prefs_saved i) (core_saved i) (core_now i) v b h"
| "core_step (InheritCorePolicy, i) h = inherit_core_policy (core_saved i) (core_now i) h"
| "core_step (PromoteCore p q, i) h = promote_core (core_saved i) (core_now i) p q h"
| "core_step (RestoreCore p, i) h = restore_core (core_saved i) (core_now i) p h"
| "core_step (SetAvailability p v, i) h = set_availability (core_saved i) (core_now i) p v h"

section \<open>Lemmas on eligibility and the active core\<close>

text \<open>What being operational depends on.\<close>

definition same_roster :: "core_host \<Rightarrow> core_host \<Rightarrow> bool" where
  "same_roster g h \<longleftrightarrow>
     members (room g) = members (room h) \<and> chatgpt_here (room g) = chatgpt_here (room h) \<and>
     provider_holds (room g) = provider_holds (room h) \<and> availabilities (room g) = availabilities (room h) \<and>
     agents g = agents h"

lemma operational_same: "same_roster g h \<Longrightarrow> operational g p now = operational h p now"
proof -
  assume s: "same_roster g h"
  then have "present (room g) q = present (room h) q" for q by (simp add: same_roster_def present_def)
  moreover have "cooldown_of (room g) q now = cooldown_of (room h) q now" for q
    using s by (simp add: same_roster_def cooldown_of_def)
  ultimately have "unavailable_reason g p now opts = unavailable_reason h p now opts" for opts
    using s by (simp add: same_roster_def unavailable_reason_def cong: option.case_cong)
  then show ?thesis
    by (simp add: operational_def provider_eligibility_of_def plain_options_def split: option.split)
qed

lemma add_once_primary: "\<forall>p\<in>set ps. is_primary_agent p \<Longrightarrow> \<forall>p\<in>set (add_once ps q). is_primary_agent p"
  by (auto simp: add_once_def)

lemma active_core_primary: "p \<in> set (active_core h now) \<Longrightarrow> is_primary_agent p"
proof -
  have "\<forall>p\<in>set (active_core h now). is_primary_agent p"
    unfolding active_core_def
    by (intro foldl_keeps [of "\<lambda>ps. \<forall>p\<in>set ps. is_primary_agent p"] add_once_primary) (auto dest: add_once_primary)
  then show "p \<in> set (active_core h now) \<Longrightarrow> is_primary_agent p" by blast
qed
lemma active_present_primary: "p \<in> set (active_present_core h now) \<Longrightarrow> is_primary_agent p \<and> operational h p now"
  by (simp add: active_present_core_def) (blast intro: active_core_primary)

lemma active_present_same:
  assumes "same_roster g h" "core_promotions (room g) = core_promotions (room h)" "policy g = policy h"
  shows "active_present_core g now = active_present_core h now"
proof -
  have "replacements g now = replacements h now"
    unfolding replacements_def assms(2) operational_same [OF assms(1)] by (rule refl)
  then have "active_core g now = active_core h now"
    unfolding active_core_def assms(2,3) by simp
  then show ?thesis by (simp add: active_present_core_def operational_same [OF assms(1)])
qed

section \<open>Lemmas on promotions\<close>

definition sound_promotion :: "core_host \<Rightarrow> time \<Rightarrow> core_promotion \<Rightarrow> bool" where
  "sound_promotion h now p \<longleftrightarrow>
     is_primary_agent (promoted p) \<and> valid_promotion_source (promotion_source p) \<and>
     promoted p \<notin> set (preferred (policy h)) \<and> operational h (promoted p) now \<and>
     (replaces p = '''' \<or> (is_primary_agent (replaces p) \<and> replaces p \<in> set (preferred (policy h)))) \<and>
     (promotion_source p \<noteq> CorePromotionManual \<longrightarrow> is_primary_agent (replaces p) \<longrightarrow>
        restore (policy h) = CoreRestoreAuto \<longrightarrow> \<not> operational h (replaces p) now)"

definition sound_promotions :: "core_host \<Rightarrow> time \<Rightarrow> core_promotion list \<Rightarrow> bool" where
  "sound_promotions h now ps \<longleftrightarrow>
     distinct (map promoted ps) \<and> distinct (replaced_peers ps) \<and> list_all (sound_promotion h now) ps"

lemma keeps_iff:
  "keeps_promotion h now used filled p \<longleftrightarrow>
     sound_promotion h now p \<and> promoted p \<notin> set used \<and> \<not> (is_primary_agent (replaces p) \<and> replaces p \<in> set filled)"
  by (cases "replaces p = ''''") (auto simp: keeps_promotion_def sound_promotion_def)

lemma replaced_peers_simps [simp]:
  "replaced_peers [] = []"
  "replaced_peers (p # ps) = (if is_primary_agent (replaces p) then replaces p # replaced_peers ps else replaced_peers ps)"
  "replaced_peers (ps @ qs) = replaced_peers ps @ replaced_peers qs"
  by (simp_all add: replaced_peers_def)

lemma sound_promotions_snoc:
  "sound_promotions h now (ps @ [p]) \<longleftrightarrow> sound_promotions h now ps \<and> sound_promotion h now p \<and>
     promoted p \<notin> set (map promoted ps) \<and> (is_primary_agent (replaces p) \<longrightarrow> replaces p \<notin> set (replaced_peers ps))"
  by (auto simp: sound_promotions_def)

lemma keep_promotions_sound:
  "sound_promotions h now (snd (keep_promotions h now ps used filled)) \<and>
   set (map promoted (snd (keep_promotions h now ps used filled))) \<inter> set used = {} \<and>
   set (replaced_peers (snd (keep_promotions h now ps used filled))) \<inter> set filled = {}"
proof (induction ps arbitrary: used filled)
  case Nil
  then show ?case by (simp add: sound_promotions_def)
next
  case (Cons p ps)
  show ?case
  proof (cases "keeps_promotion h now used filled p")
    case True
    with Cons [of "promoted p # used" "if is_primary_agent (replaces p) then replaces p # filled else filled"]
    show ?thesis by (auto simp: keeps_iff sound_promotions_def split: if_splits)
  next
    case False
    with Cons [of used filled] show ?thesis by simp
  qed
qed

lemma keep_promotions_id:
  assumes "sound_promotions h now ps" "set (map promoted ps) \<inter> set used = {}" "set (replaced_peers ps) \<inter> set filled = {}"
  shows "keep_promotions h now ps used filled = (False, ps)"
  using assms
proof (induction ps arbitrary: used filled)
  case (Cons p ps)
  have "keeps_promotion h now used filled p"
    using Cons.prems by (auto simp: keeps_iff sound_promotions_def)
  moreover have "keep_promotions h now ps (promoted p # used)
      (if is_primary_agent (replaces p) then replaces p # filled else filled) = (False, ps)"
    using Cons.prems by (intro Cons.IH) (auto simp: sound_promotions_def split: if_splits)
  ultimately show ?case by simp
qed simp

lemma failover_promotion_simps [simp]:
  "promoted (failover_promotion h now p f) = f" "replaces (failover_promotion h now p f) = p"
  "valid_promotion_source (promotion_source (failover_promotion h now p f))"
  "promotion_source (failover_promotion h now p f) \<noteq> CorePromotionManual"
  by (simp_all add: failover_promotion_def valid_promotion_source_def split: option.split)

lemma find_fallback:
  "find (\<lambda>f. \<not> (f \<in> set used \<or> \<not> operational h f now)) fs = Some f \<Longrightarrow>
     f \<in> set fs \<and> f \<notin> set used \<and> operational h f now"
  by (drule find_SomeD) simp

lemma fail_over_sound:
  assumes "policy_ok (policy h)" "sound_promotions h now qs" "set (map promoted qs) \<subseteq> set used"
    "set (replaced_peers qs) \<subseteq> set replaced" "set ps \<subseteq> set (preferred (policy h))"
  shows "sound_promotions h now (snd (fail_over h now ps used replaced qs))"
  using assms(2-)
proof (induction ps arbitrary: used replaced qs)
  case (Cons p ps)
  show ?case
  proof (cases "operational h p now \<or> p \<in> set replaced")
    case True
    with Cons.prems show ?thesis by (simp add: Cons.IH subset_insertI2)
  next
    case out: False
    show ?thesis
    proof (cases "find (\<lambda>f. \<not> (f \<in> set used \<or> \<not> operational h f now)) (slice (fallbacks (policy h)))")
      case None
      with out Cons.prems show ?thesis by (simp add: Cons.IH)
    next
      case (Some f)
      note f = find_fallback [OF Some]
      have p: "p \<in> set (preferred (policy h))" "is_primary_agent p"
        using Cons.prems(4) assms(1) by (auto simp: policy_ok_def list_all_iff)
      have "sound_promotion h now (failover_promotion h now p f)"
        using f p out assms(1) by (auto simp: sound_promotion_def policy_ok_def list_all_iff)
      then have "sound_promotions h now (qs @ [failover_promotion h now p f])"
        using Cons.prems f out by (auto simp: sound_promotions_snoc)
      then show ?thesis using out Some Cons.prems p
        by (simp add: Cons.IH subset_insertI2)
    qed
  qed
qed simp

lemma fail_over_extends: "\<exists>rs. snd (fail_over h now ps used replaced qs) = qs @ rs"
proof (induction ps arbitrary: used replaced qs)
  case (Cons p ps)
  show ?case
  proof (cases "find (\<lambda>f. \<not> (f \<in> set used \<or> \<not> operational h f now)) (slice (fallbacks (policy h)))")
    case None
    then show ?thesis using Cons by simp
  next
    case (Some f)
    from Cons [of "f # used" "p # replaced" "qs @ [failover_promotion h now p f]"] Some Cons show ?thesis by auto
  qed
qed simp

text \<open>A second pass over what the first one left finds nothing to do.\<close>

lemma fail_over_stable:
  assumes "set used \<union> set (map promoted (snd (fail_over h now ps used replaced qs))) \<subseteq> set used'"
    "set replaced \<union> set (replaced_peers (snd (fail_over h now ps used replaced qs))) \<subseteq> set replaced'"
    "list_all is_primary_agent ps"
  shows "fail_over h now ps used' replaced' rs = (False, rs)"
  using assms
proof (induction ps arbitrary: used replaced qs used')
  case (Cons p ps)
  show ?case
  proof (cases "operational h p now \<or> p \<in> set replaced")
    case True
    have "fail_over h now ps (p # used') replaced' rs = (False, rs)"
      by (rule Cons.IH [of "p # used" replaced qs]) (use Cons.prems True in auto)
    moreover have "operational h p now \<or> p \<in> set replaced'" using True Cons.prems by auto
    ultimately show ?thesis by simp
  next
    case out: False
    show ?thesis
    proof (cases "find (\<lambda>f. \<not> (f \<in> set used \<or> \<not> operational h f now)) (slice (fallbacks (policy h)))")
      case None
      have n: "find (\<lambda>f. \<not> (f \<in> set used' \<or> \<not> operational h f now)) (slice (fallbacks (policy h))) = None"
        using None Cons.prems(1) by (auto simp: find_None_iff)
      show ?thesis
      proof (cases "p \<in> set replaced'")
        case True
        then have "fail_over h now ps (p # used') replaced' rs = (False, rs)"
          by (intro Cons.IH [of used replaced qs]) (use Cons.prems out None in auto)
        with True show ?thesis by simp
      next
        case False
        have "fail_over h now ps used' replaced' rs = (False, rs)"
          by (rule Cons.IH [of used replaced qs]) (use Cons.prems out None in auto)
        with n out False show ?thesis by simp
      qed
    next
      case (Some f)
      let ?q = "qs @ [failover_promotion h now p f]"
      obtain rest where rest: "snd (fail_over h now ps (f # used) (p # replaced) ?q) = ?q @ rest"
        using fail_over_extends by blast
      have res: "snd (fail_over h now (p # ps) used replaced qs) = ?q @ rest" using out Some rest by simp
      note sub = Cons.prems(1,2) [unfolded res]
      have p: "p \<in> set replaced'" "f \<in> set used'" using Cons.prems(3) sub by auto
      have "list_all is_primary_agent ps" using Cons.prems(3) by simp
      moreover have "set (f # used) \<union> set (map promoted (?q @ rest)) \<subseteq> set (p # used')" using sub by auto
      moreover have "set (p # replaced) \<union> set (replaced_peers (?q @ rest)) \<subseteq> set replaced'" using sub p by auto
      ultimately have "fail_over h now ps (p # used') replaced' rs = (False, rs)"
        by (intro Cons.IH [of "f # used" "p # replaced" ?q]) (simp_all only: rest)
      with p show ?thesis by simp
    qed
  qed
qed simp

text \<open>An unavailable peer is replaced unless every operational fallback already stands in.\<close>

lemma fail_over_complete:
  assumes "policy_ok (policy h)" "set ps \<subseteq> set (preferred (policy h))"
    "set used \<subseteq> set (map promoted qs) \<union> set (preferred (policy h))" "set replaced \<subseteq> set (replaced_peers qs)" "p \<in> set ps"
  shows "operational h p now \<or> p \<in> set (replaced_peers (snd (fail_over h now ps used replaced qs))) \<or>
    (\<forall>f\<in>set (slice (fallbacks (policy h))). operational h f now \<longrightarrow>
       f \<in> set (map promoted (snd (fail_over h now ps used replaced qs))))"
  using assms(2-)
proof (induction ps arbitrary: used replaced qs)
  case (Cons q ps)
  obtain rs where ext: "snd (fail_over h now (q # ps) used replaced qs) = qs @ rs" using fail_over_extends by blast
  have q: "q \<in> set (preferred (policy h))" "is_primary_agent q"
    using Cons.prems(1) assms(1) by (auto simp: policy_ok_def list_all_iff)
  show ?case
  proof (cases "operational h q now \<or> q \<in> set replaced")
    case True
    show ?thesis
    proof (cases "p = q")
      case p: True
      with True Cons.prems(3) ext show ?thesis by auto
    next
      case False
      have "set (q # used) \<subseteq> set (map promoted qs) \<union> set (preferred (policy h))" using Cons.prems q by auto
      with Cons.IH [of "q # used" qs replaced] False True Cons.prems show ?thesis by simp
    qed
  next
    case out: False
    show ?thesis
    proof (cases "find (\<lambda>f. \<not> (f \<in> set used \<or> \<not> operational h f now)) (slice (fallbacks (policy h)))")
      case None
      have all: "f \<in> set (map promoted qs)" if "f \<in> set (slice (fallbacks (policy h)))" "operational h f now" for f
        using None Cons.prems(2) that assms(1) by (auto simp: find_None_iff policy_ok_def)
      show ?thesis
      proof (cases "p = q")
        case True
        with all ext show ?thesis by auto
      next
        case False
        with Cons.IH [of used qs replaced] None out Cons.prems show ?thesis by simp
      qed
    next
      case (Some f)
      let ?q = "qs @ [failover_promotion h now q f]"
      obtain rest where rest: "snd (fail_over h now ps (f # used) (q # replaced) ?q) = ?q @ rest"
        using fail_over_extends by blast
      have res: "snd (fail_over h now (q # ps) used replaced qs) = ?q @ rest" using out Some rest by simp
      show ?thesis
      proof (cases "p = q")
        case True
        with q res show ?thesis by auto
      next
        case False
        have "set (f # used) \<subseteq> set (map promoted ?q) \<union> set (preferred (policy h))"
          "set (q # replaced) \<subseteq> set (replaced_peers ?q)" using Cons.prems q by auto
        with Cons.IH [of "f # used" ?q "q # replaced"] False Cons.prems res rest show ?thesis by simp
      qed
    qed
  qed
qed simp

section \<open>Lemmas on reconciliation\<close>

lemma with_defaults_idem: "with_defaults (with_defaults p) = with_defaults p"
proof -
  obtain fs where "fallbacks (with_defaults p) = Some fs" by (auto simp: with_defaults_def Let_def)
  then show ?thesis using with_defaults_id [OF with_defaults_ok [of p]]
    by (cases "with_defaults p") (simp add: slice_def)
qed

text \<open>The host after its cooldowns expired and its policy got its defaults, and after its promotions.\<close>

definition expired :: "time \<Rightarrow> core_host \<Rightarrow> core_host" where
  "expired now h = snd (expire now (h\<lparr>policy := with_defaults (policy h)\<rparr>))"

definition with_promotions :: "time \<Rightarrow> core_host \<Rightarrow> core_host" where
  "with_promotions now h =
     set_room (\<lambda>r. r\<lparr>core_promotions := snd (reconcile_promotions (expired now h) now)\<rparr>) (expired now h)"

lemma reconcile_eq:
  "reconcile now h =
     (fst (expire now (h\<lparr>policy := with_defaults (policy h)\<rparr>)) \<or> fst (reconcile_promotions (expired now h) now) \<or>
      fst (reconcile_moderator (with_promotions now h) now),
      snd (reconcile_moderator (with_promotions now h) now))"
  by (simp add: reconcile_def expired_def with_promotions_def split_beta Let_def)

lemma moderator_only:
  "same_roster (snd (reconcile_moderator h now)) h" "policy (snd (reconcile_moderator h now)) = policy h"
  "core_promotions (room (snd (reconcile_moderator h now))) = core_promotions (room h)"
  by (simp_all add: reconcile_moderator_def settle_preference_def same_roster_def Let_def)

lemma with_promotions_same:
  "same_roster (with_promotions now h) (expired now h)" "policy (with_promotions now h) = with_defaults (policy h)"
  "policy (expired now h) = with_defaults (policy h)"
  by (simp_all add: with_promotions_def expired_def expire_def same_roster_def)

lemma reconcile_promotions_sound:
  assumes "policy_ok (policy h)"
  shows "sound_promotions h now (snd (reconcile_promotions h now))"
proof -
  have "sound_promotions h now (snd (keep_promotions h now ps [] []))" for ps
    using keep_promotions_sound by blast
  then show ?thesis using fail_over_sound [OF assms]
    by (simp add: reconcile_promotions_def split_beta Let_def)
qed

lemma reconcile_promotions_stable:
  assumes "policy_ok (policy h)" "same_roster g h" "policy g = policy h"
    "core_promotions (room g) = snd (reconcile_promotions h now)"
  shows "reconcile_promotions g now = (False, core_promotions (room g))"
proof -
  let ?ps = "snd (reconcile_promotions h now)"
  have op: "operational g p now = operational h p now" for p by (rule operational_same [OF assms(2)])
  have "sound_promotions g now ?ps"
    using reconcile_promotions_sound [OF assms(1), of now]
    by (simp add: sound_promotions_def sound_promotion_def op assms(3) list_all_iff)
  then have keep: "keep_promotions g now ?ps [] [] = (False, ?ps)" by (intro keep_promotions_id) simp_all
  show ?thesis
  proof (cases "failover (policy h) = CoreFailoverAuto")
    case True
    define qs where "qs = snd (keep_promotions h now (core_promotions (room h)) [] [])"
    have ps: "?ps = snd (fail_over h now (preferred (policy h)) (map promoted qs) (replaced_peers qs) qs)"
      using True by (simp add: reconcile_promotions_def qs_def split_beta Let_def)
    obtain rs where rs: "?ps = qs @ rs" using fail_over_extends [of h now] unfolding ps by blast
    have "fail_over h now (preferred (policy h)) (map promoted ?ps) (replaced_peers ?ps) ?ps = (False, ?ps)"
      using assms(1)
      by (intro fail_over_stable [where used = "map promoted qs" and replaced = "replaced_peers qs" and qs = qs])
        (simp_all add: rs flip: ps add: policy_ok_def)
    moreover have "fail_over g now xs u r q = fail_over h now xs u r q" for xs u r q
    proof -
      have same: "availabilities (room g) = availabilities (room h)" using assms(2) by (simp add: same_roster_def)
      show ?thesis
        by (induction xs arbitrary: u r q) (simp_all add: op assms(3) failover_promotion_def same cong: option.case_cong)
    qed
    ultimately show ?thesis using keep True assms(3,4)
      by (simp add: reconcile_promotions_def)
  next
    case False
    with keep assms(3,4) show ?thesis by (simp add: reconcile_promotions_def)
  qed
qed

text \<open>The preference that is kept, and the moderator.\<close>

lemma settle_preference_idem: "settle_preference (snd (settle_preference r)) = (False, snd (settle_preference r))"
  by (auto simp: settle_preference_def)

lemma settle_preference_moderator:
  "settle_preference (r\<lparr>moderator := m\<rparr>) = (fst (settle_preference r), (snd (settle_preference r))\<lparr>moderator := m\<rparr>)"
  by (simp add: settle_preference_def)

lemma not_valid_nobody [simp]: "\<not> valid_agent ''''"
  by code_simp

lemma chosen_member: "valid_agent (chosen_moderator r active) \<Longrightarrow> chosen_moderator r active \<in> set active"
  by (auto simp: chosen_moderator_def dest: find_SomeD split: option.splits if_splits)

lemma chosen_nobody:
  "\<forall>p\<in>set active. is_primary_agent p \<Longrightarrow> chosen_moderator r active = '''' \<or> valid_agent (chosen_moderator r active)"
  by (auto simp: chosen_moderator_def primary_valid dest: find_SomeD split: option.split)

lemma chosen_same [simp]: "chosen_moderator (r\<lparr>moderator := m\<rparr>) active = chosen_moderator r active"
  by (simp add: chosen_moderator_def)

lemma effective_cases:
  assumes "\<forall>p\<in>set active. is_primary_agent p"
  shows "effective_moderator r active =
     (if valid_agent (chosen_moderator r active) then chosen_moderator r active
      else if moderator r \<in> set active then moderator r
      else if active \<noteq> [] then hd active else '''')"
  using assms chosen_nobody [OF assms, of r] primary_valid
  by (auto simp: effective_moderator_def Let_def)

lemma effective_moderator_member:
  assumes "\<forall>p\<in>set active. is_primary_agent p"
  shows "if active = [] then effective_moderator r active = '''' else effective_moderator r active \<in> set active"
  unfolding effective_cases [OF assms] using chosen_member [of r active] by auto

lemma effective_moderator_stable:
  assumes "\<forall>p\<in>set active. is_primary_agent p"
  shows "effective_moderator (r\<lparr>moderator := effective_moderator r active\<rparr>) active = effective_moderator r active"
  using effective_moderator_member [OF assms, of r] by (simp add: effective_cases [OF assms] split: if_splits)

lemma expired_again:
  assumes "same_roster g (expired now h)" "policy g = with_defaults (policy h)"
  shows "expire now (g\<lparr>policy := with_defaults (policy g)\<rparr>) = (False, g)"
proof -
  have "filter (\<lambda>x. cooling (snd x) now) (availabilities (room g)) = availabilities (room g)"
    "\<not> list_ex (\<lambda>x. \<not> cooling (snd x) now) (availabilities (room g))"
    using assms(1) by (auto simp: same_roster_def expired_def expire_def list_ex_iff)
  then show ?thesis using assms(2)
    by (cases g) (simp add: expire_def with_defaults_idem)
qed

lemma reconcile_moderator_stable:
  assumes "active_present_core g now = active_present_core h now" "room g = room (snd (reconcile_moderator h now))"
  shows "reconcile_moderator g now = (False, g)"
proof -
  let ?a = "active_present_core h now" and ?r = "snd (settle_preference (room h))"
  let ?m = "effective_moderator ?r ?a"
  have r: "room g = ?r\<lparr>moderator := ?m\<rparr>"
    unfolding assms(2) by (simp add: reconcile_moderator_def split_beta Let_def)
  have "\<forall>p\<in>set ?a. is_primary_agent p" using active_present_primary by blast
  then have m: "effective_moderator (?r\<lparr>moderator := ?m\<rparr>) ?a = ?m" by (rule effective_moderator_stable)
  have "settle_preference (room g) = (False, room g)"
    unfolding r settle_preference_moderator by (simp add: settle_preference_idem)
  then show ?thesis unfolding reconcile_moderator_def assms(1)
    by (simp add: m r)
qed

lemma same_roster_trans: "same_roster f g \<Longrightarrow> same_roster g h \<Longrightarrow> same_roster f h"
  by (simp add: same_roster_def)

lemma reconcile_result:
  "same_roster (snd (reconcile now h)) (expired now h)" "policy (snd (reconcile now h)) = with_defaults (policy h)"
  "core_promotions (room (snd (reconcile now h))) = snd (reconcile_promotions (expired now h) now)"
  "active_present_core (snd (reconcile now h)) now = active_present_core (with_promotions now h) now"
proof -
  let ?w = "with_promotions now h"
  note m = moderator_only [of ?w now]
  show "same_roster (snd (reconcile now h)) (expired now h)"
    unfolding reconcile_eq snd_conv by (rule same_roster_trans [OF m(1) with_promotions_same(1)])
  show "policy (snd (reconcile now h)) = with_defaults (policy h)"
    by (simp add: reconcile_eq m(2) with_promotions_same(2))
  show "core_promotions (room (snd (reconcile now h))) = snd (reconcile_promotions (expired now h) now)"
    by (simp add: reconcile_eq m(3)) (simp add: with_promotions_def)
  show "active_present_core (snd (reconcile now h)) now = active_present_core ?w now"
    unfolding reconcile_eq snd_conv by (rule active_present_same [OF m(1,3,2)])
qed

lemma reconcile_twice: "reconcile now (snd (reconcile now h)) = (False, snd (reconcile now h))"
proof -
  let ?g = "snd (reconcile now h)"
  note g = reconcile_result [of now h]
  have ok: "policy_ok (policy (expired now h))" by (simp add: with_promotions_same(3) with_defaults_ok)
  have e: "expire now (?g\<lparr>policy := with_defaults (policy ?g)\<rparr>) = (False, ?g)"
    by (rule expired_again [OF g(1,2)])
  then have x: "expired now ?g = ?g" by (simp add: expired_def)
  have p: "reconcile_promotions ?g now = (False, core_promotions (room ?g))"
    by (rule reconcile_promotions_stable [OF ok g(1)]) (simp_all add: g(2,3) with_promotions_same(3))
  then have w: "with_promotions now ?g = ?g"
    unfolding with_promotions_def x by (cases ?g) simp
  have "reconcile_moderator ?g now = (False, ?g)"
    by (rule reconcile_moderator_stable [OF g(4)]) (simp add: reconcile_eq)
  then show ?thesis by (simp add: reconcile_eq [of now ?g] e x p w)
qed

section \<open>Every operation keeps the core well formed\<close>

text \<open>What holds of the promotions whoever is present.\<close>

definition formed_promotions :: "participant list \<Rightarrow> core_promotion list \<Rightarrow> bool" where
  "formed_promotions cores ps \<longleftrightarrow>
     distinct (map promoted ps) \<and> distinct (replaced_peers ps) \<and>
     (\<forall>p\<in>set ps. is_primary_agent (promoted p) \<and> promoted p \<notin> set cores \<and>
        (replaces p = '''' \<or> (is_primary_agent (replaces p) \<and> replaces p \<in> set cores)))"

definition core_inv :: "core_host \<Rightarrow> bool" where
  "core_inv h \<longleftrightarrow>
     policy_ok (policy h) \<and> formed_promotions (preferred (policy h)) (core_promotions (room h)) \<and>
     (moderator (room h) = '''' \<or> is_primary_agent (moderator (room h)))"

lemma reconcile_facts:
  fixes h :: core_host
  shows "policy_ok (policy (snd (reconcile now h)))"
    "sound_promotions (snd (reconcile now h)) now (core_promotions (room (snd (reconcile now h))))"
    "moderator (room (snd (reconcile now h))) =
       effective_moderator (room (snd (reconcile now h))) (active_present_core (snd (reconcile now h)) now)"
proof -
  let ?g = "snd (reconcile now h)"
  note g = reconcile_result [of now h]
  show "policy_ok (policy ?g)" by (simp add: g(2) with_defaults_ok)
  have "policy_ok (policy (expired now h))" by (simp add: with_promotions_same(3) with_defaults_ok)
  from reconcile_promotions_sound [OF this, of now]
  show "sound_promotions ?g now (core_promotions (room ?g))"
    by (simp add: g(2,3) sound_promotions_def sound_promotion_def operational_same [OF g(1)]
        with_promotions_same(3) list_all_iff)
  show "moderator (room ?g) = effective_moderator (room ?g) (active_present_core ?g now)"
  proof -
    let ?w = "with_promotions now h"
    let ?r = "snd (settle_preference (room ?w))" and ?a = "active_present_core ?w now"
    have "room ?g = ?r\<lparr>moderator := effective_moderator ?r ?a\<rparr>"
      by (simp add: reconcile_eq reconcile_moderator_def split_beta Let_def)
    moreover have "\<forall>p\<in>set ?a. is_primary_agent p" using active_present_primary by blast
    ultimately show ?thesis unfolding g(4) using effective_moderator_stable [of ?a ?r] by simp
  qed
qed

lemma reconcile_inv: "core_inv (snd (reconcile now h))"
proof -
  let ?g = "snd (reconcile now h)"
  have "\<forall>p\<in>set (active_present_core ?g now). is_primary_agent p" using active_present_primary by blast
  from effective_moderator_member [OF this, of "room ?g"] this
  have "moderator (room ?g) = '''' \<or> is_primary_agent (moderator (room ?g))"
    unfolding reconcile_facts(3) by (auto split: if_splits)
  moreover have "formed_promotions (preferred (policy ?g)) (core_promotions (room ?g))"
    using reconcile_facts(2) [of now h]
    by (auto simp: formed_promotions_def sound_promotions_def sound_promotion_def list_all_iff)
  ultimately show ?thesis by (simp add: core_inv_def reconcile_facts(1))
qed

definition selects :: "participant \<Rightarrow> core_promotion \<Rightarrow> bool" where
  "selects p x \<longleftrightarrow> p = '''' \<or> replaces x = p \<or> promoted x = p"

text \<open>What an early end of the in-place filter has seen.\<close>

lemma restore_scan_error:
  "restore_scan h now p kept matched xs = Inl (e, kept') \<Longrightarrow>
   \<exists>ys x zs. xs = ys @ x # zs \<and> p \<noteq> '''' \<and> selects p x \<and>
     (list_all (\<lambda>y. \<not> selects p y) ys \<longrightarrow> kept' = kept @ ys)"
proof (induction xs arbitrary: kept matched)
  case (Cons x xs)
  let ?stuck = "failover (policy h) = CoreFailoverAuto \<and> valid_agent (replaces x) \<and> \<not> operational h (replaces x) now"
  show ?case
  proof (cases "selects p x \<and> ?stuck \<and> p \<noteq> ''''")
    case True
    then have "kept' = kept" using Cons.prems by (auto simp: selects_def)
    with True show ?thesis by (intro exI [of _ "[]"] exI [of _ x] exI [of _ xs]) simp
  next
    case False
    then obtain kept1 m where r: "restore_scan h now p kept1 m xs = Inl (e, kept')"
      and k: "\<not> selects p x \<longrightarrow> kept1 = kept @ [x]"
      using Cons.prems by (auto simp: selects_def split: if_splits)
    from Cons.IH [OF r] obtain ys y zs where "xs = ys @ y # zs" "p \<noteq> ''''" "selects p y"
      "list_all (\<lambda>y. \<not> selects p y) ys \<longrightarrow> kept' = kept1 @ ys" by blast
    with k show ?thesis by (intro exI [of _ "x # ys"] exI [of _ y] exI [of _ zs]) auto
  qed
qed simp

lemma replaced_in_peers: "y \<in> set ys \<Longrightarrow> is_primary_agent (replaces y) \<Longrightarrow> replaces y \<in> set (replaced_peers ys)"
  by (auto simp: replaced_peers_def)

lemma selects_unique:
  assumes "formed_promotions cores (ys @ x # zs)" "is_primary_agent p" "selects p x"
  shows "list_all (\<lambda>y. \<not> selects p y) ys"
  unfolding list_all_iff
proof (intro ballI notI)
  fix y
  assume y: "y \<in> set ys" "selects p y"
  have ne: "p \<noteq> ''''" using assms(2) by auto
  have slots: "replaces x = p \<Longrightarrow> p \<in> set cores" "replaces y = p \<Longrightarrow> p \<in> set cores"
    and outs: "promoted x = p \<Longrightarrow> p \<notin> set cores" "promoted y = p \<Longrightarrow> p \<notin> set cores"
    using assms(1) y(1) ne unfolding formed_promotions_def by (metis Un_iff list.set_intros(1) set_append)+
  have "\<not> (replaces x = p \<and> replaces y = p)"
    using assms(1,2) y(1) replaced_in_peers [OF y(1)] by (auto simp: formed_promotions_def)
  moreover have "\<not> (promoted x = p \<and> promoted y = p)"
  proof -
    have "distinct (map promoted ys @ promoted x # map promoted zs)"
      using assms(1) unfolding formed_promotions_def by simp
    then have "promoted x \<notin> promoted ` set ys" by (simp only: distinct_append) simp
    with y(1) show ?thesis by (metis imageI)
  qed
  ultimately show False using slots outs y(2) assms(3) ne unfolding selects_def by blast
qed
lemma restore_scan_unmatched:
  assumes "restore_scan h now p kept matched xs = Inr (False, kept')"
  shows "\<not> matched \<and> kept' = kept @ xs"
  using assms
proof (induction h now p kept matched xs rule: restore_scan.induct)
  case (2 h now p kept matched x xs)
  then show ?case by (auto split: if_splits)
qed simp

lemma in_place_prefix: "kept @ drop (length kept) (kept @ rest) = kept @ rest"
  by simp

lemma restore_keeps:
  assumes "core_inv h"
  shows "core_inv (snd (restore_core saved now p h))"
proof (cases "(p \<noteq> '''' \<and> \<not> is_primary_agent p) \<or> active_work h > 0")
  case True
  with assms show ?thesis by (auto simp: restore_core_def)
next
  case False
  let ?ps = "core_promotions (room h)"
  show ?thesis
  proof (cases "restore_scan h now p [] False ?ps")
    case (Inl ek)
    then obtain e kept where s: "restore_scan h now p [] False ?ps = Inl (e, kept)" by (cases ek) simp
    from restore_scan_error [OF s] obtain ys x zs where ps: "?ps = ys @ x # zs" "p \<noteq> ''''" "selects p x"
      "list_all (\<lambda>y. \<not> selects p y) ys \<longrightarrow> kept = [] @ ys" by blast
    have "kept = ys" using selects_unique [of _ ys x zs p] assms ps False by (auto simp: core_inv_def)
    then have "kept @ drop (length kept) ?ps = ?ps" using ps(1) by simp
    with False s assms show ?thesis by (simp add: restore_core_def Let_def core_inv_def)
  next
    case (Inr mk)
    then obtain m kept where s: "restore_scan h now p [] False ?ps = Inr (m, kept)" by (cases mk) simp
    show ?thesis
    proof (cases "p \<noteq> '''' \<and> \<not> m")
      case True
      with s restore_scan_unmatched [of h now p "[]" False ?ps kept] have "kept = ?ps" by simp
      with False s True assms show ?thesis by (simp add: restore_core_def Let_def core_inv_def)
    next
      case ok: False
      with False s show ?thesis
        by (auto simp: restore_core_def Let_def save_host_def reconcile_inv)
    qed
  qed
qed

lemma core_step_inv:
  assumes "core_inv h"
  shows "core_inv (snd (core_step r h))"
proof -
  obtain c i where r: "r = (c, i)" by (cases r)
  show ?thesis
  proof (cases c)
    case RefreshCore
    then show ?thesis using assms reconcile_inv
      by (auto simp: r refresh_core_def save_host_def split: prod.splits) (metis snd_conv)+
  next
    case (SetModerator p)
    then show ?thesis using assms by (auto simp: r set_moderator_def save_host_def core_inv_def)
  next
    case SetModeratorAutomatic
    then show ?thesis using assms reconcile_inv by (auto simp: r set_moderator_automatic_def save_host_def)
  next
    case (SetPresence p b)
    have "core_inv (set_room (ensure_session p) (snd (reconcile now g)))" for now g
      using reconcile_inv [of now g] by (auto simp: core_inv_def ensure_session_def)
    moreover have "core_inv (set_room (\<lambda>r. r\<lparr>members := Some (members_of r)\<rparr>) h)" using assms by (simp add: core_inv_def)
    ultimately show ?thesis using SetPresence assms
      by (simp add: r set_presence_def save_host_def Let_def)
  next
    case (SetCorePolicy v b)
    then show ?thesis using assms reconcile_inv
      by (auto simp: r set_core_policy_def save_host_def Let_def core_inv_def split: option.split)
  next
    case InheritCorePolicy
    then show ?thesis using assms reconcile_inv by (auto simp: r inherit_core_policy_def save_host_def Let_def)
  next
    case (PromoteCore p q)
    then show ?thesis using assms reconcile_inv
      by (auto simp: r promote_core_def save_host_def Let_def split: sum.split)
  next
    case (RestoreCore p)
    then show ?thesis using restore_keeps [OF assms] by (simp add: r)
  next
    case (SetAvailability p v)
    then show ?thesis using assms reconcile_inv by (auto simp: r set_availability_def save_host_def Let_def)
  qed
qed

section \<open>Properties\<close>

lemma explicit_moderator:
  assumes "moderator_explicit r" "moderator_preference r \<in> set active" "\<forall>p\<in>set active. is_primary_agent p"
  shows "effective_moderator r active = moderator_preference r"
  using assms primary_valid by (auto simp: effective_cases chosen_moderator_def)

text \<open>A sound core at a time.\<close>

definition sound_core :: "core_host \<Rightarrow> time \<Rightarrow> bool" where
  "sound_core h now \<longleftrightarrow>
     policy_ok (policy h) \<and> sound_promotions h now (core_promotions (room h)) \<and>
     (if active_present_core h now = [] then moderator (room h) = ''''
      else moderator (room h) \<in> set (active_present_core h now)) \<and>
     (moderator_explicit (room h) \<longrightarrow> moderator_preference (room h) \<in> set (active_present_core h now) \<longrightarrow>
        moderator (room h) = moderator_preference (room h)) \<and>
     (failover (policy h) = CoreFailoverAuto \<longrightarrow>
        list_all (\<lambda>p. operational h p now \<or> p \<in> set (replaced_peers (core_promotions (room h))) \<or>
            list_all (\<lambda>f. f \<in> set (map promoted (core_promotions (room h))))
              (filter (\<lambda>f. operational h f now) (slice (fallbacks (policy h)))))
          (preferred (policy h)))"

text \<open>C23. Reconciling the core leaves a sound one: the policy is valid; every promotion is of an
  operational primary agent outside the preferred peers, at most one per agent and per slot; the
  moderator is an active operational core peer, the chosen one when that one is active, and there is
  none only when no core peer is; and under automatic failover every preferred peer that is not
  operational is replaced, unless every operational fallback already stands in for another.\<close>
theorem reconcile_sound: "sound_core (snd (reconcile now h)) now"
proof -
  let ?g = "snd (reconcile now h)" and ?e = "expired now h"
  note g = reconcile_result [of now h]
  have prim: "\<forall>p\<in>set (active_present_core ?g now). is_primary_agent p" using active_present_primary by blast
  have ok: "policy_ok (policy ?e)" by (simp add: with_promotions_same(3) with_defaults_ok)
  have op: "operational ?g p now = operational ?e p now" for p by (rule operational_same [OF g(1)])
  have pol: "policy ?g = policy ?e" by (simp add: g(2) with_promotions_same(3))
  have fo: "list_all (\<lambda>p. operational ?g p now \<or> p \<in> set (replaced_peers (core_promotions (room ?g))) \<or>
      list_all (\<lambda>f. f \<in> set (map promoted (core_promotions (room ?g))))
        (filter (\<lambda>f. operational ?g f now) (slice (fallbacks (policy ?g))))) (preferred (policy ?g))"
    if auto: "failover (policy ?g) = CoreFailoverAuto"
  proof -
    define qs where "qs = snd (keep_promotions ?e now (core_promotions (room ?e)) [] [])"
    have ps: "core_promotions (room ?g) =
        snd (fail_over ?e now (preferred (policy ?e)) (map promoted qs) (replaced_peers qs) qs)"
      using auto unfolding g(3) pol by (simp add: reconcile_promotions_def qs_def split_beta Let_def)
    have "operational ?e p now \<or> p \<in> set (replaced_peers (core_promotions (room ?g))) \<or>
        (\<forall>f\<in>set (slice (fallbacks (policy ?e))). operational ?e f now \<longrightarrow> f \<in> set (map promoted (core_promotions (room ?g))))"
      if "p \<in> set (preferred (policy ?e))" for p
      unfolding ps by (rule fail_over_complete [OF ok order_refl _ _ that]) simp_all
    then show ?thesis unfolding list_all_iff op pol by auto
  qed
  have m: "moderator (room ?g) = effective_moderator (room ?g) (active_present_core ?g now)"
    by (rule reconcile_facts)
  have a: "if active_present_core ?g now = [] then moderator (room ?g) = ''''
      else moderator (room ?g) \<in> set (active_present_core ?g now)"
    using effective_moderator_member [OF prim, of "room ?g"] by (simp only: m)
  have c: "moderator_explicit (room ?g) \<Longrightarrow> moderator_preference (room ?g) \<in> set (active_present_core ?g now) \<Longrightarrow>
      moderator (room ?g) = moderator_preference (room ?g)"
    unfolding m by (rule explicit_moderator [OF _ _ prim])
  show ?thesis
    unfolding sound_core_def using reconcile_facts(1,2) a c fo by blast
qed

text \<open>C36. Reconciling is idempotent: done again at the same time it reports no change and leaves the
  state as it is.\<close>
theorem reconcile_idempotent: "reconcile now (snd (reconcile now h)) = (False, snd (reconcile now h))"
  by (rule reconcile_twice)

text \<open>C31. Every sequence of operations on the core (presence, moderator, policy, promotion,
  restoration, availability, refresh), refused, failed or done, keeps it well formed: a valid policy,
  promotions of distinct primary agents outside the preferred peers into distinct preferred slots,
  and a moderator that is a primary agent or none.\<close>
theorem core_stays_formed:
  assumes "core_inv h"
  shows "core_inv (snd (run_all core_step ops h))"
proof -
  have "core_inv (snd (run_all core_step ops h))" if "core_inv h" for h
    using that
  proof (induction ops arbitrary: h)
    case (Cons r ops)
    from Cons.IH [OF core_step_inv [OF Cons.prems, of r]] show ?case by (simp add: split_beta Let_def)
  qed simp
  then show ?thesis using assms by blast
qed

text \<open>A room with four agents: claude leaves, and copilot is promoted in its place by hand.\<close>

definition sample_host :: core_host where
  "sample_host =
     \<lparr>room = \<lparr>members = Some [(Codex, True), (Claude, True), (Agy, True), (Copilot, True)], chatgpt_here = False,
        availabilities = [], provider_holds = [], session_keys = [], core_promotions = [], moderator = Codex,
        moderator_preference = '''', moderator_explicit = False, room_policy = None, room_conversations = []\<rparr>,
      policy = built_in_core_policy, agents = [Codex, Claude, Agy, Copilot], temporary_for = [], delegated = [],
      active_calls = [], active_work = 0, concurrency = None, default_policy = None\<rparr>"

definition sample_core_io :: core_io where
  "sample_core_io = \<lparr>core_now = 5 * second, core_saved = True, prefs_saved = True\<rparr>"

definition sample_core_ops :: "(core_op \<times> core_io) list" where
  "sample_core_ops = [(SetPresence Codex False, sample_core_io), (PromoteCore Copilot '''', sample_core_io),
     (RestoreCore Codex, sample_core_io), (SetPresence Codex True, sample_core_io)]"

lemma sample_host_inv: "core_inv sample_host"
proof -
  have "validate_policy built_in_core_policy = None" by code_simp
  then show ?thesis
    by (simp add: core_inv_def sample_host_def formed_promotions_def validate_policy_iff)
qed



theorem core_stays_formed_witness:
  "core_inv (snd (run_all core_step sample_core_ops sample_host))"
  by (rule core_stays_formed [OF sample_host_inv])

end
