(* ===== verification/Floor_Order.thy ===== *)
theory Floor_Order
  imports Participants "HOL-Library.Multiset"
begin

text \<open>
  Who takes the floor first, \<^verbatim>\<open>internal/room/orchestrator.go\<close>: the choice of the lead from the
  bids of the core peers (\<open>selectLead\<close>) and the order of the core turns (\<open>coreTurnOrder\<close>).
\<close>

record lead_bid =
  bidder :: participant
  preferred_lead :: participant
  bid_valid :: bool

definition votes_for :: "lead_bid list \<Rightarrow> participant list \<Rightarrow> participant \<Rightarrow> nat" where
  "votes_for bids cores p =
     foldl (\<lambda>n b. if \<not> bid_valid b \<or> preferred_lead b \<notin> set cores then n
                  else if preferred_lead b = p then n + 1 else n) 0 bids"

text \<open>The scan for the most votes: the peer selected so far, its votes and whether it is tied.\<close>

definition count_peer :: "(participant \<Rightarrow> nat) \<Rightarrow> participant \<times> nat \<times> bool \<Rightarrow> participant \<Rightarrow>
    participant \<times> nat \<times> bool" where
  "count_peer votes s p =
     (let (selected, most, tied) = s
      in if votes p > most then (p, votes p, False)
         else if votes p > 0 \<and> votes p = most then (selected, most, True)
         else s)"

definition select_lead :: "lead_bid list \<Rightarrow> participant \<Rightarrow> participant list \<Rightarrow> participant" where
  "select_lead bids moderator cores =
     (if cores = [] then ''''
      else if length cores = 1 then hd cores
      else let (selected, most, tied) = foldl (count_peer (votes_for bids cores)) ('''', 0, False) cores
           in if most > 0 \<and> \<not> tied then selected
              else if moderator \<in> set cores then moderator else hd cores)"

definition core_turn_order :: "participant \<Rightarrow> participant \<Rightarrow> participant list \<Rightarrow> participant list" where
  "core_turn_order lead moderator cores =
     (if lead \<notin> set cores then []
      else [lead] @ filter (\<lambda>p. \<not> (p = lead \<or> p = moderator)) cores @
           (if moderator \<noteq> lead \<and> moderator \<in> set cores then [moderator] else []))"

definition next_eligible :: "participant list \<Rightarrow> participant \<Rightarrow> participant set \<Rightarrow> participant" where
  "next_eligible present moderator invited =
     (case find (\<lambda>p. p \<noteq> moderator \<and> p \<notin> invited) present of Some p \<Rightarrow> p | None \<Rightarrow> '''')"

definition intersect_participants :: "participant list \<Rightarrow> participant list \<Rightarrow> participant list" where
  "intersect_participants values allowed = filter (\<lambda>p. p \<in> set allowed) values"

definition append_once :: "participant list \<Rightarrow> participant \<Rightarrow> participant list" where
  "append_once ps p = (if p \<in> set ps then ps else ps @ [p])"

definition without_participant :: "participant list \<Rightarrow> participant \<Rightarrow> participant list" where
  "without_participant values excluded = filter (\<lambda>p. p \<noteq> excluded) values"

section \<open>Lemmas\<close>

text \<open>What the scan knows after a prefix of the peers.\<close>

definition scan_inv :: "(participant \<Rightarrow> nat) \<Rightarrow> participant list \<Rightarrow> participant \<times> nat \<times> bool \<Rightarrow> bool" where
  "scan_inv votes ps s \<longleftrightarrow>
     (case s of (selected, most, tied) \<Rightarrow>
        (\<forall>p\<in>set ps. votes p \<le> most) \<and>
        (most > 0 \<longrightarrow> selected \<in> set ps \<and> votes selected = most \<and>
           (tied \<longleftrightarrow> (\<exists>p\<in>set ps. p \<noteq> selected \<and> votes p = most))))"

lemma count_peer_inv:
  "scan_inv votes ps s \<Longrightarrow> p \<notin> set ps \<Longrightarrow> scan_inv votes (ps @ [p]) (count_peer votes s p)"
  by (cases s) (auto simp: scan_inv_def count_peer_def intro: order.trans)

lemma scan_result:
  "distinct ps \<Longrightarrow> scan_inv votes ps (foldl (count_peer votes) ('''', 0, False) ps)"
proof (induction ps rule: rev_induct)
  case (snoc p ps)
  then show ?case using count_peer_inv by simp
qed (simp add: scan_inv_def)

text \<open>The lead is always a core peer.  A peer that got more votes than every other one, in valid
  bids for core peers, leads; without such a peer the moderator does when it is a core peer, and
  otherwise the first core peer.\<close>
theorem lead_by_plurality:
  assumes "distinct cores" "2 \<le> length cores"
  shows "select_lead bids moderator cores \<in> set cores \<and>
    (\<forall>p\<in>set cores. 0 < votes_for bids cores p \<longrightarrow>
       (\<forall>q\<in>set cores. q \<noteq> p \<longrightarrow> votes_for bids cores q < votes_for bids cores p) \<longrightarrow>
       select_lead bids moderator cores = p) \<and>
    ((\<forall>p\<in>set cores. 0 < votes_for bids cores p \<longrightarrow>
       (\<exists>q\<in>set cores. q \<noteq> p \<and> votes_for bids cores p \<le> votes_for bids cores q)) \<longrightarrow>
       select_lead bids moderator cores = (if moderator \<in> set cores then moderator else hd cores))"
proof -
  obtain s n t where r: "foldl (count_peer (votes_for bids cores)) ('''', 0, False) cores = (s, n, t)"
    by (cases "foldl (count_peer (votes_for bids cores)) ('''', 0, False) cores")
  have inv: "scan_inv (votes_for bids cores) cores (s, n, t)"
    using scan_result [OF assms(1), of "votes_for bids cores"] by (simp only: r)
  have ne: "cores \<noteq> []" "length cores \<noteq> 1" using assms(2) by auto
  have lead: "select_lead bids moderator cores =
      (if n > 0 \<and> \<not> t then s else if moderator \<in> set cores then moderator else hd cores)"
    using ne by (simp add: select_lead_def r)
  show ?thesis
  proof (intro conjI ballI impI)
    show "select_lead bids moderator cores \<in> set cores"
      using inv ne by (auto simp: lead scan_inv_def)
  next
    fix p
    assume p: "p \<in> set cores" "0 < votes_for bids cores p"
      "\<forall>q\<in>set cores. q \<noteq> p \<longrightarrow> votes_for bids cores q < votes_for bids cores p"
    then have n: "votes_for bids cores p \<le> n" "n > 0" using inv by (auto simp: scan_inv_def)
    with inv have s: "s \<in> set cores" "votes_for bids cores s = n" by (auto simp: scan_inv_def)
    with p(3) n(1) have "s = p" by force
    moreover have "\<not> t" using inv n(2) p(3) s \<open>s = p\<close> by (auto simp: scan_inv_def)
    ultimately show "select_lead bids moderator cores = p" using n(2) by (simp add: lead)
  next
    assume tie: "\<forall>p\<in>set cores. 0 < votes_for bids cores p \<longrightarrow>
      (\<exists>q\<in>set cores. q \<noteq> p \<and> votes_for bids cores p \<le> votes_for bids cores q)"
    have "t" if "n > 0"
    proof -
      from inv that have s: "s \<in> set cores" "votes_for bids cores s = n" by (auto simp: scan_inv_def)
      with tie that obtain q where "q \<in> set cores" "q \<noteq> s" "n \<le> votes_for bids cores q" by auto
      with inv that show t by (force simp: scan_inv_def intro: le_antisym)
    qed
    then show "select_lead bids moderator cores = (if moderator \<in> set cores then moderator else hd cores)"
      by (auto simp: lead)
  qed
qed

theorem lead_by_plurality_witness:
  "select_lead [\<lparr>bidder = Codex, preferred_lead = Agy, bid_valid = True\<rparr>] Codex [Codex, Claude, Agy] = Agy \<and>
   select_lead [] Claude [Codex, Claude, Agy] = Claude"
  using lead_by_plurality [of "[Codex, Claude, Agy]" "[\<lparr>bidder = Codex, preferred_lead = Agy, bid_valid = True\<rparr>]" Codex]
    lead_by_plurality [of "[Codex, Claude, Agy]" "[]" Claude]
  by (simp add: votes_for_def)

text \<open>The turn order of the core is the core itself, each peer once: the lead first and, when the
  moderator is another core peer, the moderator last.\<close>
theorem turn_order_permutes:
  assumes "distinct cores" "lead \<in> set cores"
  shows "mset (core_turn_order lead moderator cores) = mset cores \<and>
    hd (core_turn_order lead moderator cores) = lead \<and>
    (moderator \<in> set cores \<longrightarrow> moderator \<noteq> lead \<longrightarrow> last (core_turn_order lead moderator cores) = moderator)"
proof -
  have "set (core_turn_order lead moderator cores) = set cores" "distinct (core_turn_order lead moderator cores)"
    using assms by (auto simp: core_turn_order_def)
  with assms(1) have "mset (core_turn_order lead moderator cores) = mset cores"
    by (simp add: set_eq_iff_mset_eq_distinct)
  then show ?thesis using assms(2) by (simp add: core_turn_order_def)
qed

theorem turn_order_permutes_witness:
  "mset (core_turn_order Agy Codex [Codex, Claude, Agy]) = mset [Codex, Claude, Agy] \<and>
   core_turn_order Agy Codex [Codex, Claude, Agy] = [Agy, Claude, Codex]"
  using turn_order_permutes [of "[Codex, Claude, Agy]" Agy Codex] by (simp add: core_turn_order_def)

end
