(* ===== verification/Roster_Actions.thy ===== *)
theory Roster_Actions
  imports Core_Peers
begin

text \<open>
  Scheduled joins and leaves, \<^verbatim>\<open>internal/room/orchestrator.go\<close>: a human schedules and cancels
  them, the host executes the due ones as one persisted transaction
  (\<open>ScheduleRosterAction\<close>, \<open>CancelRosterAction\<close>, \<open>RefreshRosterActions\<close>,
  \<open>nextRosterActionDelay\<close>).  The new identifier, the clock and the outcome of saving the room are
  arguments; the texts for the transcript are left out.
\<close>

section \<open>Records\<close>

definition RosterActionJoin :: string where "RosterActionJoin = ''join''"
definition RosterActionLeave :: string where "RosterActionLeave = ''leave''"

lemma roster_actions_differ [simp]: "RosterActionLeave \<noteq> RosterActionJoin" "RosterActionJoin \<noteq> RosterActionLeave"
  by (simp_all add: RosterActionJoin_def RosterActionLeave_def)

definition valid_roster_action :: "string \<Rightarrow> bool" where
  "valid_roster_action a \<longleftrightarrow> a = RosterActionJoin \<or> a = RosterActionLeave"

datatype roster_status =
  RosterActionPending | RosterActionExecuted | RosterActionCancelled | RosterActionFailed | OtherRosterStatus string

record roster_action =
  ra_id :: string
  ra_action :: string
  ra_participant :: participant
  ra_execute_at :: time
  ra_created_at :: time
  ra_authorized_by :: participant
  ra_reason :: string
  ra_status :: roster_status
  ra_completed_at :: "time option"
  ra_detail :: string

record roster_host =
  core :: core_host
  roster_actions :: "roster_action list"
  room_closed :: bool

definition maxPendingRosterActions :: nat where "maxPendingRosterActions = 32"
definition maxRosterActionReasonBytes :: nat where "maxRosterActionReasonBytes = 512"

definition pending :: "roster_action \<Rightarrow> bool" where
  "pending a \<longleftrightarrow> ra_status a = RosterActionPending"

datatype roster_error =
  InvalidRosterAction | InvalidRosterParticipant | NotInFuture | ReasonTooLong | NoIdentifier | RoomClosed
| ParticipantNotConfigured participant | PendingExists participant | TooManyPending | IdRequired
| ActionNotFound string | AlreadyDecided roster_status | RosterSaveFailed

section \<open>Scheduling and cancelling\<close>

definition schedule_action :: "time \<Rightarrow> string option \<Rightarrow> bool \<Rightarrow> string \<Rightarrow> participant \<Rightarrow> time \<Rightarrow> string \<Rightarrow>
    roster_host \<Rightarrow> (roster_error + roster_action) \<times> roster_host" where
  "schedule_action now new_id saved action p execute_at why h =
     (if \<not> valid_roster_action action then (Inl InvalidRosterAction, h)
      else if \<not> valid_agent p then (Inl InvalidRosterParticipant, h)
      else if \<not> execute_at > now then (Inl NotInFuture, h)
      else if length (squeeze_spaces why) > maxRosterActionReasonBytes then (Inl ReasonTooLong, h)
      else case new_id of
        None \<Rightarrow> (Inl NoIdentifier, h)
      | Some i \<Rightarrow>
          let r = \<lparr>ra_id = i, ra_action = action, ra_participant = p, ra_execute_at = execute_at,
                   ra_created_at = now, ra_authorized_by = User, ra_reason = squeeze_spaces why,
                   ra_status = RosterActionPending, ra_completed_at = None, ra_detail = ''''\<rparr>;
              open_actions = filter pending (roster_actions h)
          in if room_closed h then (Inl RoomClosed, h)
             else if p \<notin> set (agents (core h)) then (Inl (ParticipantNotConfigured p), h)
             else if p \<in> set (map ra_participant open_actions) then (Inl (PendingExists p), h)
             else if length open_actions \<ge> maxPendingRosterActions then (Inl TooManyPending, h)
             else if \<not> saved then (Inl RosterSaveFailed, h)
             else (Inr r, h\<lparr>roster_actions := roster_actions h @ [r]\<rparr>))"

definition cancel_record :: "time \<Rightarrow> roster_action \<Rightarrow> roster_action" where
  "cancel_record now r = r\<lparr>ra_status := RosterActionCancelled, ra_completed_at := Some now,
     ra_detail := ''cancelled by user''\<rparr>"

definition cancel_action :: "time \<Rightarrow> bool \<Rightarrow> string \<Rightarrow> roster_host \<Rightarrow> (roster_error + unit) \<times> roster_host" where
  "cancel_action now saved i h =
     (let i = trim_space i
      in if i = '''' then (Inl IdRequired, h)
         else if room_closed h then (Inl RoomClosed, h)
         else case find (\<lambda>r. ra_id r = i) (roster_actions h) of
           None \<Rightarrow> (Inl (ActionNotFound i), h)
         | Some r \<Rightarrow>
             if \<not> pending r then (Inl (AlreadyDecided (ra_status r)), h)
             else if \<not> saved then (Inl RosterSaveFailed, h)
             else (Inr (), h\<lparr>roster_actions :=
                     update_first (\<lambda>r. ra_id r = i) (cancel_record now) (roster_actions h)\<rparr>))"

section \<open>Executing what is due\<close>

definition action_failure :: "core_host \<Rightarrow> roster_action \<Rightarrow> string" where
  "action_failure c r =
     (if ra_authorized_by r \<noteq> User then ''missing explicit user authorization''
      else if trim_space (ra_id r) = '''' then ''missing audit record id''
      else if \<not> valid_roster_action (ra_action r) then ''invalid roster action''
      else if \<not> valid_agent (ra_participant r) then ''target is not a valid participant''
      else if ra_participant r \<notin> set (agents c) then ''target is no longer configured''
      else '''')"

definition blocked_join :: "core_host \<Rightarrow> time \<Rightarrow> roster_action \<Rightarrow> bool" where
  "blocked_join c now r \<longleftrightarrow>
     ra_action r = RosterActionJoin \<and>
     (case map_of (availabilities (room c)) (ra_participant r) of None \<Rightarrow> False | Some a \<Rightarrow> cooling a now)"

definition execute_action :: "time \<Rightarrow> roster_action \<Rightarrow> core_host \<Rightarrow> roster_action \<times> core_host" where
  "execute_action now r c =
     (r\<lparr>ra_status := RosterActionExecuted, ra_completed_at := Some now,
        ra_detail := ra_action r @ '' by host scheduler''\<rparr>,
      set_room (\<lambda>m. ensure_session (ra_participant r)
        (if ra_action r = RosterActionJoin then join_room (ra_participant r) m
         else leave_room ''manual hold: scheduled primary leave'' now (ra_participant r) m)) c)"

text \<open>The loop over the records: whether one changed, the records, and the core after them.\<close>

fun run_due :: "time \<Rightarrow> roster_action list \<Rightarrow> core_host \<Rightarrow> bool \<times> roster_action list \<times> core_host" where
  "run_due now [] c = (False, [], c)"
| "run_due now (r # rs) c =
     (if \<not> pending r \<or> now < ra_execute_at r then apsnd (apfst (Cons r)) (run_due now rs c)
      else if action_failure c r \<noteq> '''' then
        apfst (\<lambda>_. True) (apsnd (apfst (Cons (r\<lparr>ra_status := RosterActionFailed, ra_completed_at := Some now,
            ra_detail := action_failure c r\<rparr>))) (run_due now rs c))
      else if blocked_join c now r then apsnd (apfst (Cons r)) (run_due now rs c)
      else let (r, c) = execute_action now r c
           in apfst (\<lambda>_. True) (apsnd (apfst (Cons r)) (run_due now rs c)))"

definition refresh_actions :: "time \<Rightarrow> bool \<Rightarrow> roster_host \<Rightarrow> (roster_error + unit) \<times> roster_host" where
  "refresh_actions now saved h =
     (if room_closed h \<or> active_work (core h) > 0 then (Inr (), h)
      else let (c1, k) = reconcile now (core h);
               (c2, rs, k) = run_due now (roster_actions h) k
           in if c1 \<or> c2 then
                let k = snd (reconcile now k)
                in if saved then (Inr (), h\<lparr>core := k, roster_actions := rs\<rparr>)
                   else (Inl RosterSaveFailed, h\<lparr>core := k\<lparr>room := room (core h)\<rparr>\<rparr>)
              else (Inr (), h\<lparr>core := k, roster_actions := rs\<rparr>))"

section \<open>When the scheduler wakes\<close>

text \<open>The time a pending record waits for, unless it waits for an open-ended cooldown.\<close>

definition action_due :: "core_host \<Rightarrow> roster_action \<Rightarrow> time option" where
  "action_due c r =
     (if ra_authorized_by r = User \<and> trim_space (ra_id r) \<noteq> '''' \<and> valid_roster_action (ra_action r)
         \<and> valid_agent (ra_participant r) \<and> ra_action r = RosterActionJoin
      then case map_of (availabilities (room c)) (ra_participant r) of
             None \<Rightarrow> Some (ra_execute_at r)
           | Some a \<Rightarrow> (case av_retry_at a of
                         None \<Rightarrow> None
                       | Some t \<Rightarrow> Some (if ra_execute_at r < t then t else ra_execute_at r))
      else Some (ra_execute_at r))"

text \<open>The zero time stands for no time yet, as in the code.\<close>

definition earlier :: "time \<Rightarrow> time option \<Rightarrow> time" where
  "earlier next due = (case due of None \<Rightarrow> next | Some t \<Rightarrow> if next = 0 \<or> t < next then t else next)"

text \<open>\<open>waiting\<close>: inputs are pending or a decision is resolved, so cooldowns count too.\<close>

definition next_delay :: "bool \<Rightarrow> time \<Rightarrow> roster_host \<Rightarrow> duration option" where
  "next_delay waiting now h =
     (if room_closed h \<or> active_work (core h) > 0 then None
      else let next = foldl (\<lambda>n r. earlier n (action_due (core h) r)) 0 (filter pending (roster_actions h));
               next = (if waiting then foldl (\<lambda>n x. earlier n (av_retry_at (snd x))) next
                                         (availabilities (room (core h))) else next)
           in if next = 0 then None else if \<not> next > now then Some 0 else Some (time_sub next now))"

section \<open>Sequences of operations\<close>

datatype roster_op =
  ScheduleOp "string option" string participant time string
| CancelOp string
| RefreshOp

record roster_io =
  roster_now :: time
  roster_saved :: bool

fun roster_step :: "roster_op \<times> roster_io \<Rightarrow> roster_host \<Rightarrow> (roster_error + unit) \<times> roster_host" where
  "roster_step (ScheduleOp i a p t w, io) h =
     apfst (map_sum id (\<lambda>_. ())) (schedule_action (roster_now io) i (roster_saved io) a p t w h)"
| "roster_step (CancelOp i, io) h = cancel_action (roster_now io) (roster_saved io) i h"
| "roster_step (RefreshOp, io) h = refresh_actions (roster_now io) (roster_saved io) h"

section \<open>Lemmas\<close>

definition same_order :: "roster_action \<Rightarrow> roster_action \<Rightarrow> bool" where
  "same_order r q \<longleftrightarrow>
     ra_id q = ra_id r \<and> ra_action q = ra_action r \<and> ra_participant q = ra_participant r \<and>
     ra_execute_at q = ra_execute_at r \<and> ra_created_at q = ra_created_at r \<and>
     ra_authorized_by q = ra_authorized_by r \<and> ra_reason q = ra_reason r"

text \<open>How a record may change: only while pending, and executed only when due and authorized.\<close>

definition record_follows :: "roster_action \<Rightarrow> roster_action \<Rightarrow> bool" where
  "record_follows r q \<longleftrightarrow>
     same_order r q \<and> (\<not> pending r \<longrightarrow> q = r) \<and>
     (ra_status q = RosterActionExecuted \<longrightarrow> pending r \<longrightarrow>
        ra_authorized_by r = User \<and> valid_agent (ra_participant r) \<and> valid_roster_action (ra_action r) \<and>
        (\<exists>t. ra_completed_at q = Some t \<and> ra_execute_at r \<le> t))"

lemma record_follows_refl: "record_follows r r"
  by (auto simp: record_follows_def same_order_def pending_def)

lemma record_follows_trans:
  assumes "record_follows a b" "record_follows b c"
  shows "record_follows a c"
proof (cases "pending b")
  case True
  with assms show ?thesis by (auto simp: record_follows_def same_order_def)
next
  case False
  then have "c = b" using assms(2) by (simp add: record_follows_def)
  with assms(1) show ?thesis by simp
qed

definition follow :: "roster_action list \<Rightarrow> roster_action list \<Rightarrow> bool" where
  "follow rs qs \<longleftrightarrow> (\<exists>us vs. qs = us @ vs \<and> list_all2 record_follows rs us \<and> list_all (\<lambda>r. ra_authorized_by r = User) vs)"

lemma follow_refl: "follow rs rs"
  unfolding follow_def
  by (intro exI [of _ rs] exI [of _ "[]"]) (simp add: list_all2_refl record_follows_refl)

lemma follow_trans:
  assumes "follow as bs" "follow bs cs"
  shows "follow as cs"
proof -
  obtain us vs where b: "bs = us @ vs" "list_all2 record_follows as us" "list_all (\<lambda>r. ra_authorized_by r = User) vs"
    using assms(1) by (auto simp: follow_def)
  obtain xs ys where c: "cs = xs @ ys" "list_all2 record_follows bs xs" "list_all (\<lambda>r. ra_authorized_by r = User) ys"
    using assms(2) by (auto simp: follow_def)
  obtain x1 x2 where x: "xs = x1 @ x2" "list_all2 record_follows us x1" "list_all2 record_follows vs x2"
    using c(2) unfolding b(1) by (auto simp: list_all2_append1)
  have "list_all (\<lambda>r. ra_authorized_by r = User) x2"
    using x(3) b(3) by (induction rule: list_all2_induct) (auto simp: record_follows_def same_order_def)
  moreover have "list_all2 record_follows as x1"
    by (rule list_all2_trans [OF _ b(2) x(2)]) (rule record_follows_trans)
  ultimately show ?thesis unfolding follow_def using c(1,3) x(1)
    by (intro exI [of _ x1] exI [of _ "x2 @ ys"]) simp
qed

lemma follow_update:
  assumes "\<And>r. P r \<Longrightarrow> r = the (find P rs) \<Longrightarrow> record_follows r (f r)"
  shows "follow rs (update_first P f rs)"
proof -
  have "list_all2 record_follows rs (update_first P f rs)"
    using assms
  proof (induction rs)
    case (Cons r rs)
    then show ?case
      by (auto intro: record_follows_refl intro!: list_all2_refl)
  qed simp
  then show ?thesis unfolding follow_def by (intro exI [of _ "update_first P f rs"] exI [of _ "[]"]) simp
qed

text \<open>What the loop does to the records and to the core.\<close>

lemma action_ok:
  "action_failure c r = '''' \<Longrightarrow>
     ra_authorized_by r = User \<and> valid_agent (ra_participant r) \<and> valid_roster_action (ra_action r)"
  by (auto simp: action_failure_def split: if_splits)

lemma run_due_follows: "list_all2 record_follows rs (fst (snd (run_due now rs c)))"
proof (induction rs arbitrary: c)
  case (Cons r rs)
  have fail: "record_follows r (r\<lparr>ra_status := RosterActionFailed, ra_completed_at := Some now, ra_detail := d\<rparr>)"
    if "pending r" for d
    using that by (simp add: record_follows_def same_order_def)
  have run: "record_follows r (fst (execute_action now r c))"
    if "pending r" "\<not> now < ra_execute_at r" "action_failure c r = ''''"
    using that action_ok [of c r] by (simp add: execute_action_def record_follows_def same_order_def)
  show ?case
    using Cons fail run record_follows_refl by (simp add: split_beta Let_def)
qed simp

definition pending_names :: "roster_action list \<Rightarrow> participant list" where
  "pending_names rs = map ra_participant (filter pending rs)"

definition roster_good :: "roster_host \<Rightarrow> bool" where
  "roster_good h \<longleftrightarrow> distinct (pending_names (roster_actions h)) \<and>
     length (pending_names (roster_actions h)) \<le> maxPendingRosterActions"

lemma pending_names_simps [simp]:
  "pending_names [] = []"
  "pending_names (r # rs) = (if pending r then ra_participant r # pending_names rs else pending_names rs)"
  by (simp_all add: pending_names_def)

lemma follows_pending:
  assumes "list_all2 record_follows rs qs" "distinct (pending_names rs)"
  shows "distinct (pending_names qs) \<and> length (pending_names qs) \<le> length (pending_names rs) \<and>
    set (pending_names qs) \<subseteq> set (pending_names rs)"
  using assms
proof (induction rule: list_all2_induct)
  case (Cons r rs q qs)
  then have "pending q \<Longrightarrow> pending r" "ra_participant q = ra_participant r"
    by (auto simp: record_follows_def same_order_def)
  with Cons show ?case by (auto split: if_splits)
qed simp

lemma refresh_actions_of:
  "roster_actions (snd (refresh_actions now saved h)) = roster_actions h \<or>
   (\<exists>c. roster_actions (snd (refresh_actions now saved h)) = fst (snd (run_due now (roster_actions h) c)))"
  by (auto simp: refresh_actions_def split_beta Let_def)

lemma cancel_follows:
  assumes "find P rs = Some r" "pending r"
  shows "list_all2 record_follows rs (update_first P (cancel_record now) rs)"
  using assms
proof (induction rs)
  case (Cons x rs)
  then show ?case
    by (cases "P x") (auto simp: cancel_record_def record_follows_def same_order_def pending_def
        intro: list_all2_refl)
qed simp

text \<open>An operation lets the records follow, or appends one a human asked for.\<close>

lemma roster_step_records:
  "(list_all2 record_follows (roster_actions h) (roster_actions (snd (roster_step x h)))) \<or>
   (\<exists>r. roster_actions (snd (roster_step x h)) = roster_actions h @ [r] \<and> pending r \<and> ra_authorized_by r = User \<and>
      ra_participant r \<notin> set (pending_names (roster_actions h)) \<and>
      length (pending_names (roster_actions h)) < maxPendingRosterActions)"
proof -
  have keep: "list_all2 record_follows rs rs" for rs by (intro list_all2_refl record_follows_refl)
  obtain c io where x: "x = (c, io)" by (cases x)
  show ?thesis
  proof (cases c)
    case (ScheduleOp i a p t w)
    then show ?thesis using keep
      by (auto simp: x schedule_action_def Let_def pending_names_def pending_def split: option.split)
  next
    case (CancelOp i)
    then show ?thesis using keep cancel_follows
      by (auto simp: x cancel_action_def Let_def split: option.split)
  next
    case RefreshOp
    then show ?thesis using keep refresh_actions_of [of "roster_now io" "roster_saved io" h]
      by (auto simp: x run_due_follows)
  qed
qed

lemma roster_step_follow: "follow (roster_actions h) (roster_actions (snd (roster_step x h)))"
proof -
  consider "list_all2 record_follows (roster_actions h) (roster_actions (snd (roster_step x h)))"
    | r where "roster_actions (snd (roster_step x h)) = roster_actions h @ [r]" "ra_authorized_by r = User"
    using roster_step_records by blast
  then show ?thesis
  proof cases
    case 1
    then show ?thesis unfolding follow_def by (intro exI [of _ "roster_actions (snd (roster_step x h))"] exI [of _ "[]"]) simp
  next
    case (2 r)
    then show ?thesis unfolding follow_def
      by (intro exI [of _ "roster_actions h"] exI [of _ "[r]"]) (simp add: list_all2_refl record_follows_refl)
  qed
qed

lemma roster_step_good:
  assumes "roster_good h"
  shows "roster_good (snd (roster_step x h))"
  using roster_step_records [of h x]
proof (elim disjE exE conjE)
  assume "list_all2 record_follows (roster_actions h) (roster_actions (snd (roster_step x h)))"
  from follows_pending [OF this] assms show ?thesis by (simp add: roster_good_def)
next
  fix r
  assume "roster_actions (snd (roster_step x h)) = roster_actions h @ [r]" "pending r"
    "ra_participant r \<notin> set (pending_names (roster_actions h))"
    "length (pending_names (roster_actions h)) < maxPendingRosterActions"
  with assms show ?thesis by (simp add: roster_good_def pending_names_def)
qed

lemma roster_step_failed:
  "roster_step x h = (Inl e, t) \<Longrightarrow> (room (core t), roster_actions t) = (room (core h), roster_actions h)"
proof -
  assume a: "roster_step x h = (Inl e, t)"
  obtain c io where x: "x = (c, io)" by (cases x)
  show ?thesis using a
    by (cases c) (auto simp: x schedule_action_def cancel_action_def refresh_actions_def Let_def
        split: option.splits if_splits prod.splits)
qed

interpretation roster: atomic_store roster_step "\<lambda>h. (room (core h), roster_actions h)" roster_good
  by unfold_locales (rule roster_step_failed roster_step_good, assumption)+

lemma roster_run_follow: "follow (roster_actions h) (roster_actions (snd (run_all roster_step xs h)))"
proof (induction xs arbitrary: h)
  case (Cons x xs)
  from follow_trans [OF roster_step_follow Cons.IH] show ?case by (simp add: split_beta Let_def)
qed (simp add: follow_refl)

section \<open>Nothing due is left behind\<close>

lemma reconcile_cools:
  "availabilities (room (snd (reconcile now c))) = filter (\<lambda>x. cooling (snd x) now) (availabilities (room c))"
  using reconcile_result(1) [of now c] by (simp add: same_roster_def expired_def expire_def)

lemma execute_availabilities [simp]:
  "availabilities (room (snd (execute_action now r c))) = availabilities (room c)"
  by (simp add: execute_action_def ensure_session_def join_room_def leave_room_def Let_def)

lemma run_due_availabilities [simp]:
  "availabilities (room (snd (snd (run_due now rs c)))) = availabilities (room c)"
  by (induction rs arbitrary: c) (simp_all add: split_beta Let_def)

text \<open>A pending record waits for its time or, as an authorized join, for a cooldown.\<close>

definition waits :: "(participant \<times> availability) list \<Rightarrow> time \<Rightarrow> roster_action \<Rightarrow> bool" where
  "waits av now r \<longleftrightarrow>
     now < ra_execute_at r \<or>
     (ra_authorized_by r = User \<and> trim_space (ra_id r) \<noteq> '''' \<and> valid_agent (ra_participant r) \<and>
      ra_action r = RosterActionJoin \<and>
      (case map_of av (ra_participant r) of None \<Rightarrow> False | Some a \<Rightarrow> cooling a now))"

lemma run_due_waits:
  "r \<in> set (fst (snd (run_due now rs c))) \<Longrightarrow> pending r \<Longrightarrow> waits (availabilities (room c)) now r"
proof (induction rs arbitrary: c)
  case (Cons q rs)
  note IH = Cons.IH [of c] Cons.IH [of "snd (execute_action now q c)"]
  have "waits (availabilities (room c)) now q"
    if "action_failure c q = ''''" "blocked_join c now q"
    using that by (auto simp: waits_def blocked_join_def action_failure_def split: if_splits)
  moreover have "\<not> pending (fst (execute_action now q c))" by (simp add: execute_action_def pending_def)
  moreover have "\<not> pending (q\<lparr>ra_status := RosterActionFailed, ra_completed_at := t, ra_detail := d\<rparr>)" for t d
    by (simp add: pending_def)
  moreover have "now < ra_execute_at q \<Longrightarrow> waits (availabilities (room c)) now q" by (simp add: waits_def)
  ultimately show ?case using Cons.prems IH
    by (auto simp: split_beta Let_def split: if_splits)
qed simp

lemma refresh_waits:
  assumes "\<not> room_closed h" "active_work (core h) = 0" "r \<in> set (roster_actions (snd (refresh_actions now True h)))"
    "pending r"
  shows "waits (availabilities (room (core (snd (refresh_actions now True h))))) now r"
proof -
  let ?c = "snd (reconcile now (core h))"
  have "filter (\<lambda>x. cooling (snd x) now) (availabilities (room ?c)) = availabilities (room ?c)"
    by (simp add: reconcile_cools)
  with run_due_waits [of r now "roster_actions h" ?c] assms show ?thesis
    by (auto simp: refresh_actions_def split_beta Let_def reconcile_cools split: if_splits)
qed

lemma refresh_cools:
  assumes "\<not> room_closed h" "active_work (core h) = 0" "x \<in> set (availabilities (room (core (snd (refresh_actions now True h)))))"
  shows "cooling (snd x) now"
  using assms by (auto simp: refresh_actions_def split_beta Let_def reconcile_cools split: if_splits)

lemma earlier_future:
  assumes "n = 0 \<or> now < n" "\<And>t. d = Some t \<Longrightarrow> now < t"
  shows "earlier n d = 0 \<or> now < earlier n d"
  using assms by (auto simp: earlier_def split: option.split)

lemma earliest_future:
  assumes "n = 0 \<or> now < n" "\<And>x t. x \<in> set xs \<Longrightarrow> f x = Some t \<Longrightarrow> now < t"
  shows "foldl (\<lambda>n x. earlier n (f x)) n xs = 0 \<or> now < foldl (\<lambda>n x. earlier n (f x)) n xs"
  using assms
proof (induction xs arbitrary: n)
  case (Cons x xs)
  have "earlier n (f x) = 0 \<or> now < earlier n (f x)"
    using Cons.prems(2) [of x] by (intro earlier_future [OF Cons.prems(1)]) simp_all
  moreover have "\<And>y t. y \<in> set xs \<Longrightarrow> f y = Some t \<Longrightarrow> now < t" by (rule Cons.prems(2)) simp_all
  ultimately show ?case unfolding foldl.simps by (rule Cons.IH)
qed simp

lemma waits_due:
  assumes "waits (availabilities (room c)) now r" "action_due c r = Some t"
  shows "now < t"
  using assms by (auto simp: waits_def action_due_def cooling_def valid_roster_action_def split: if_splits option.splits)

section \<open>Properties\<close>

text \<open>C13. Whatever sequence of schedules, cancellations and refreshes runs, done or failed: no record
  is lost, reordered or rewritten; a decided record never changes again; a record is executed only
  when it is authorized by the human, valid and due; every record that is added is authorized by the
  human; and at most 32 records are pending, at most one per participant.\<close>
theorem roster_audit:
  assumes "roster_good h"
  shows "follow (roster_actions h) (roster_actions (snd (run_all roster_step ops h))) \<and>
    roster_good (snd (run_all roster_step ops h))"
  using roster_run_follow roster.good_run [OF assms] by blast

text \<open>C34. After a refresh of an open, idle room that was saved, every record still pending waits for
  its time or is a join held back by a cooldown that has not passed, and the scheduler, if it has
  anything to wait for, sleeps a positive time: it never spins.\<close>
theorem roster_settles:
  assumes "\<not> room_closed h" "active_work (core h) = 0"
  shows "list_all (waits (availabilities (room (core (snd (refresh_actions now True h))))) now)
      (filter pending (roster_actions (snd (refresh_actions now True h)))) \<and>
    (case next_delay waiting now (snd (refresh_actions now True h)) of None \<Rightarrow> True | Some d \<Rightarrow> 0 < d)"
proof
  let ?g = "snd (refresh_actions now True h)"
  show w: "list_all (waits (availabilities (room (core ?g))) now) (filter pending (roster_actions ?g))"
    using refresh_waits [OF assms] by (simp add: list_all_iff)
  define m where "m = foldl (\<lambda>n r. earlier n (action_due (core ?g) r)) 0 (filter pending (roster_actions ?g))"
  define n where "n = (if waiting then foldl (\<lambda>n x. earlier n (av_retry_at (snd x))) m (availabilities (room (core ?g))) else m)"
  have "m = 0 \<or> now < m" unfolding m_def
    using w waits_due by (intro earliest_future) (auto simp: list_all_iff)
  moreover have "now < t" if "x \<in> set (availabilities (room (core ?g)))" "av_retry_at (snd x) = Some t" for x t
    using refresh_cools [OF assms that(1)] that(2) by (simp add: cooling_def)
  ultimately have "n = 0 \<or> now < n" unfolding n_def
    using earliest_future [of m now "availabilities (room (core ?g))" "\<lambda>x. av_retry_at (snd x)"] by (cases waiting) auto
  then show "case next_delay waiting now ?g of None \<Rightarrow> True | Some d \<Rightarrow> 0 < d"
    by (auto simp: next_delay_def n_def m_def Let_def time_sub_def max_int64_def min_int64_def split: option.splits)
qed

text \<open>A join of copilot is scheduled for second 60, a second one for it is refused, and the host
  refreshes at second 61.\<close>

definition sample_roster :: roster_host where
  "sample_roster = \<lparr>core = sample_host, roster_actions = [], room_closed = False\<rparr>"

definition at_second :: "int \<Rightarrow> roster_io" where
  "at_second t = \<lparr>roster_now = t * second, roster_saved = True\<rparr>"

definition sample_roster_ops :: "(roster_op \<times> roster_io) list" where
  "sample_roster_ops =
     [(ScheduleOp (Some ''r1'') RosterActionLeave Copilot (60 * second) ''night shift'', at_second 1),
      (ScheduleOp (Some ''r2'') RosterActionJoin Copilot (90 * second) '''', at_second 2),
      (RefreshOp, at_second 61)]"

definition waiting_roster :: roster_host where
  "waiting_roster = snd (run_all roster_step (take 1 sample_roster_ops) sample_roster)"

theorem roster_audit_witness:
  "follow [] (roster_actions (snd (run_all roster_step sample_roster_ops sample_roster))) \<and>
   map ra_status (roster_actions waiting_roster) = [RosterActionPending] \<and>
   map ra_status (fst (snd (run_due (61 * second) (roster_actions waiting_roster) sample_host))) = [RosterActionExecuted]"
proof -
  have "roster_good sample_roster" by (simp add: roster_good_def sample_roster_def)
  from roster_audit [OF this, of sample_roster_ops]
  have "follow [] (roster_actions (snd (run_all roster_step sample_roster_ops sample_roster)))"
    by (simp add: sample_roster_def)
  moreover have "map ra_status (roster_actions waiting_roster) = [RosterActionPending]" by code_simp
  moreover have "map ra_status (fst (snd (run_due (61 * second) (roster_actions waiting_roster) sample_host))) =
      [RosterActionExecuted]" by code_simp
  ultimately show ?thesis by blast
qed

theorem roster_settles_witness:
  "list_all (waits (availabilities (room (core (snd (refresh_actions (59 * second) True waiting_roster))))) (59 * second))
      (filter pending (roster_actions (snd (refresh_actions (59 * second) True waiting_roster)))) \<and>
   next_delay False (59 * second) waiting_roster = Some second"
proof -
  have w: "\<not> room_closed waiting_roster" "active_work (core waiting_roster) = 0" by code_simp+
  have "next_delay False (59 * second) waiting_roster = Some second" by code_simp
  with roster_settles [OF w, of "59 * second" False] show ?thesis by simp
qed

end
