(* ===== verification/Provider_Lanes.thy ===== *)
theory Provider_Lanes
  imports Participants
begin

text \<open>
  Provider capacity shared by the rooms of one manager, \<^verbatim>\<open>internal/room/shared.go\<close>
  (\<open>sharedLane\<close>, \<open>dispatch\<close>, \<open>setProviderLimit\<close>, \<open>acquireProvider\<close> and its release).  A call enters
  the queue of its provider's lane and waits until its ticket's channel is closed; it may give up
  at any time, also after the channel was closed.  Each critical section is one step of
  \<open>lane_step\<close>; a ticket's pointer identity is its number.
\<close>

section \<open>Lanes\<close>

record ticket =
  ticket_number :: nat
  ticket_room :: string

record lane =
  lane_active :: int
  lane_limit :: int
  lane_last :: string
  lane_queue :: "ticket list"

definition remove_at :: "nat \<Rightarrow> 'a list \<Rightarrow> 'a list" where
  "remove_at i xs = take i xs @ drop (Suc i) xs"

text \<open>The first ticket of a room other than the one served last, else the head.\<close>

definition pick_index :: "string \<Rightarrow> ticket list \<Rightarrow> nat" where
  "pick_index served q = (case index_of (\<lambda>t. ticket_room t \<noteq> served) q of Some i \<Rightarrow> i | None \<Rightarrow> 0)"

definition grant_next :: "lane \<Rightarrow> ticket \<times> lane" where
  "grant_next l =
     (let i = pick_index (lane_last l) (lane_queue l); t = lane_queue l ! i
      in (t, l\<lparr>lane_queue := remove_at i (lane_queue l), lane_active := lane_active l + 1,
               lane_last := ticket_room t\<rparr>))"

lemma pick_index_less: "q \<noteq> [] \<Longrightarrow> pick_index served q < length q"
  by (auto simp: pick_index_def dest: index_of_Some split: option.split)

lemma length_remove_at: "i < length xs \<Longrightarrow> length (remove_at i xs) = length xs - 1"
  by (simp add: remove_at_def)

lemma grant_next_shorter: "lane_queue l \<noteq> [] \<Longrightarrow> length (lane_queue (snd (grant_next l))) < length (lane_queue l)"
  by (simp add: grant_next_def Let_def length_remove_at pick_index_less)

text \<open>\<open>dispatch\<close> and the tickets whose channels it closes.\<close>

function dispatch :: "lane \<Rightarrow> ticket list \<times> lane" where
  "dispatch l =
     (if lane_active l < lane_limit l \<and> lane_queue l \<noteq> [] then
        let (t, l) = grant_next l; (ts, l) = dispatch l in (t # ts, l)
      else ([], l))"
  by auto

termination
  by (relation "measure (\<lambda>l. length (lane_queue l))") (simp_all, metis grant_next_shorter snd_conv)

declare dispatch.simps [simp del]

section \<open>Operations\<close>

definition new_lane :: "int \<Rightarrow> lane" where
  "new_lane limit = \<lparr>lane_active = 0, lane_limit = limit, lane_last = '''', lane_queue = []\<rparr>"

type_synonym lane_map = "participant \<rightharpoonup> lane"

definition dispatch_in :: "participant \<Rightarrow> lane \<Rightarrow> lane_map \<Rightarrow> ticket list \<times> lane_map" where
  "dispatch_in p l m = (let (ts, l) = dispatch l in (ts, m(p \<mapsto> l)))"

definition set_provider_limit :: "participant \<Rightarrow> int \<Rightarrow> lane_map \<Rightarrow> ticket list \<times> lane_map" where
  "set_provider_limit p limit m =
     (let l = (case m p of None \<Rightarrow> new_lane 0 | Some l \<Rightarrow> l) in dispatch_in p (l\<lparr>lane_limit := max 1 limit\<rparr>) m)"

definition enter_lane :: "participant \<Rightarrow> int \<Rightarrow> ticket \<Rightarrow> lane_map \<Rightarrow> ticket list \<times> lane_map" where
  "enter_lane p limit t m =
     (let l = (case m p of None \<Rightarrow> new_lane (max 1 limit) | Some l \<Rightarrow> l)
      in dispatch_in p (l\<lparr>lane_queue := lane_queue l @ [t]\<rparr>) m)"

text \<open>A call that gives up: whether its ticket was still queued, and the rest.\<close>

definition leave_lane :: "participant \<Rightarrow> ticket \<Rightarrow> lane \<Rightarrow> lane_map \<Rightarrow> bool \<times> ticket list \<times> lane_map" where
  "leave_lane p t l m =
     (if t \<in> set (lane_queue l) then (True, dispatch_in p (l\<lparr>lane_queue := remove1 t (lane_queue l)\<rparr>) m)
      else (False, dispatch_in p (l\<lparr>lane_active := lane_active l - 1\<rparr>) m))"

definition release_lane :: "participant \<Rightarrow> lane \<Rightarrow> lane_map \<Rightarrow> ticket list \<times> lane_map" where
  "release_lane p l m = dispatch_in p (l\<lparr>lane_active := lane_active l - 1\<rparr>) m"

section \<open>Calls\<close>

text \<open>\<open>granted\<close> are the tickets with a closed channel that their calls have not received yet, \<open>running\<close>
  those of the calls that hold a release function.\<close>

record lane_system =
  lanes :: lane_map
  granted :: "(participant \<times> ticket) list"
  running :: "(participant \<times> ticket) list"
  next_ticket :: nat

datatype lane_event =
  Enter participant string int | Receive participant ticket | GiveUp participant ticket
| Release participant ticket | SetLimit participant int

definition lanes_after :: "participant \<Rightarrow> ticket list \<times> lane_map \<Rightarrow> lane_system \<Rightarrow> ticket list \<times> lane_system" where
  "lanes_after p r s = (fst r, s\<lparr>lanes := snd r, granted := granted s @ map (Pair p) (fst r)\<rparr>)"

text \<open>The tickets a step grants and the system after it; \<open>None\<close> when the step is not possible.\<close>

fun lane_step :: "lane_event \<Rightarrow> lane_system \<Rightarrow> (ticket list \<times> lane_system) option" where
  "lane_step (Enter p room_name limit) s =
     (let t = \<lparr>ticket_number = next_ticket s, ticket_room = room_name\<rparr>
      in Some (lanes_after p (enter_lane p limit t (lanes s)) (s\<lparr>next_ticket := next_ticket s + 1\<rparr>)))"
| "lane_step (Receive p t) s =
     (if (p, t) \<in> set (granted s)
      then Some ([], s\<lparr>granted := remove1 (p, t) (granted s), running := running s @ [(p, t)]\<rparr>) else None)"
| "lane_step (GiveUp p t) s =
     (case lanes s p of
        None \<Rightarrow> None
      | Some l \<Rightarrow>
          if t \<in> set (lane_queue l) \<or> (p, t) \<in> set (granted s) then
            let (found, r) = leave_lane p t l (lanes s)
            in Some (lanes_after p r (if found then s else s\<lparr>granted := remove1 (p, t) (granted s)\<rparr>))
          else None)"
| "lane_step (Release p t) s =
     (case lanes s p of
        None \<Rightarrow> None
      | Some l \<Rightarrow>
          if (p, t) \<in> set (running s)
          then Some (lanes_after p (release_lane p l (lanes s)) (s\<lparr>running := remove1 (p, t) (running s)\<rparr>))
          else None)"
| "lane_step (SetLimit p limit) s = Some (lanes_after p (set_provider_limit p limit (lanes s)) s)"

fun event_provider :: "lane_event \<Rightarrow> participant" where
  "event_provider (Enter p _ _) = p"
| "event_provider (Receive p _) = p"
| "event_provider (GiveUp p _) = p"
| "event_provider (Release p _) = p"
| "event_provider (SetLimit p _) = p"

text \<open>A run, and how many calls of a provider it granted.\<close>

fun lane_run :: "participant \<Rightarrow> lane_event list \<Rightarrow> lane_system \<Rightarrow> (nat \<times> lane_system) option" where
  "lane_run p [] s = Some (0, s)"
| "lane_run p (e # es) s =
     (case lane_step e s of
        None \<Rightarrow> None
      | Some (ts, s) \<Rightarrow>
          map_option (apfst ((+) (if event_provider e = p then length ts else 0))) (lane_run p es s))"

definition no_lanes :: lane_system where
  "no_lanes = \<lparr>lanes = (\<lambda>_. None), granted = [], running = [], next_ticket = 0\<rparr>"

definition in_use :: "participant \<Rightarrow> lane_system \<Rightarrow> nat" where
  "in_use p s = length (filter (\<lambda>x. fst x = p) (granted s @ running s))"

section \<open>Lemmas on dispatching\<close>

lemma grant_next_simps [simp]:
  "lane_active (snd (grant_next l)) = lane_active l + 1" "lane_limit (snd (grant_next l)) = lane_limit l"
  "lane_queue (snd (grant_next l)) = remove_at (pick_index (lane_last l) (lane_queue l)) (lane_queue l)"
  "lane_last (snd (grant_next l)) = ticket_room (lane_queue l ! pick_index (lane_last l) (lane_queue l))"
  by (simp_all add: grant_next_def Let_def)

lemma set_remove_at: "set (remove_at i xs) \<subseteq> set xs"
  by (auto simp: remove_at_def dest: in_set_takeD in_set_dropD)

lemma distinct_remove_at: "distinct xs \<Longrightarrow> distinct (remove_at i xs)"
  using append_take_drop_id [of i xs]
  by (auto simp: remove_at_def distinct_append set_drop_subset_set_drop
      dest: set_take_disj_set_drop_if_distinct [of xs i "Suc i"])

lemma dispatch_stop:
  "\<not> (lane_active l < lane_limit l \<and> lane_queue l \<noteq> []) \<Longrightarrow> dispatch l = ([], l)"
  by (subst dispatch.simps) auto

lemma dispatch_go:
  "lane_active l < lane_limit l \<Longrightarrow> lane_queue l \<noteq> [] \<Longrightarrow>
   dispatch l = (fst (grant_next l) # fst (dispatch (snd (grant_next l))), snd (dispatch (snd (grant_next l))))"
  by (subst dispatch.simps) (simp add: split_beta Let_def)

lemma dispatch_facts:
  "lane_active (snd (dispatch l)) = lane_active l + int (length (fst (dispatch l))) \<and>
   lane_limit (snd (dispatch l)) = lane_limit l \<and>
   (lane_queue (snd (dispatch l)) \<noteq> [] \<longrightarrow> lane_limit l \<le> lane_active (snd (dispatch l))) \<and>
   (fst (dispatch l) \<noteq> [] \<longrightarrow> lane_active (snd (dispatch l)) \<le> lane_limit l) \<and>
   set (lane_queue (snd (dispatch l))) \<subseteq> set (lane_queue l) \<and>
   (distinct (lane_queue l) \<longrightarrow> distinct (lane_queue (snd (dispatch l))))"
proof (induction l rule: dispatch.induct)
  case (1 l)
  show ?case
  proof (cases "lane_active l < lane_limit l \<and> lane_queue l \<noteq> []")
    case True
    let ?l = "snd (grant_next l)"
    have IH: "lane_active (snd (dispatch ?l)) = lane_active ?l + int (length (fst (dispatch ?l))) \<and>
       lane_limit (snd (dispatch ?l)) = lane_limit ?l \<and>
       (lane_queue (snd (dispatch ?l)) \<noteq> [] \<longrightarrow> lane_limit ?l \<le> lane_active (snd (dispatch ?l))) \<and>
       (fst (dispatch ?l) \<noteq> [] \<longrightarrow> lane_active (snd (dispatch ?l)) \<le> lane_limit ?l) \<and>
       set (lane_queue (snd (dispatch ?l))) \<subseteq> set (lane_queue ?l) \<and>
       (distinct (lane_queue ?l) \<longrightarrow> distinct (lane_queue (snd (dispatch ?l))))"
      by (rule "1.IH" [OF True refl prod.collapse])
    moreover have "set (lane_queue ?l) \<subseteq> set (lane_queue l)" by (simp add: set_remove_at)
    ultimately show ?thesis using True
      by (auto simp: dispatch_go distinct_remove_at)
  next
    case False
    then show ?thesis by (auto simp: dispatch_stop)
  qed
qed

lemmas dispatched = dispatch_facts [THEN conjunct1] dispatch_facts [THEN conjunct2, THEN conjunct1]

lemma lanes_after_simps [simp]:
  "lanes (snd (lanes_after p r s)) = snd r" "next_ticket (snd (lanes_after p r s)) = next_ticket s"
  by (simp_all add: lanes_after_def)

lemma length_filter_remove1:
  "x \<in> set xs \<Longrightarrow> length (filter P xs) = length (filter P (remove1 x xs)) + (if P x then 1 else 0)"
  by (induction xs) auto

lemma in_use_lanes_after [simp]:
  "in_use q (snd (lanes_after p r s)) = in_use q s + (if q = p then length (fst r) else 0)"
  by (simp add: in_use_def lanes_after_def filter_map o_def)

lemma in_use_remove:
  "(p, t) \<in> set (granted s) \<Longrightarrow>
     in_use q s = in_use q (s\<lparr>granted := remove1 (p, t) (granted s)\<rparr>) + (if q = p then 1 else 0)"
  "(p, t) \<in> set (running s) \<Longrightarrow>
     in_use q s = in_use q (s\<lparr>running := remove1 (p, t) (running s)\<rparr>) + (if q = p then 1 else 0)"
  by (simp_all add: in_use_def length_filter_remove1 [of "(p, t)"])

section \<open>The invariant\<close>

definition lane_ok :: "nat \<Rightarrow> nat \<Rightarrow> lane \<Rightarrow> bool" where
  "lane_ok n used l \<longleftrightarrow>
     lane_active l = int used \<and> (lane_queue l \<noteq> [] \<longrightarrow> lane_limit l \<le> lane_active l) \<and>
     distinct (lane_queue l) \<and> (\<forall>t\<in>set (lane_queue l). ticket_number t < n)"

definition entry_ok :: "nat \<Rightarrow> nat \<Rightarrow> lane option \<Rightarrow> bool" where
  "entry_ok n used x \<longleftrightarrow> (case x of None \<Rightarrow> used = 0 | Some l \<Rightarrow> lane_ok n used l)"

definition lane_inv :: "lane_system \<Rightarrow> bool" where
  "lane_inv s \<longleftrightarrow> (\<forall>p. entry_ok (next_ticket s) (in_use p s) (lanes s p))"

text \<open>Dispatching makes a lane ok whose count is right.\<close>

lemma lane_inv_dispatch:
  assumes "lane_active l = int (in_use p s)" "distinct (lane_queue l)" "\<forall>t\<in>set (lane_queue l). ticket_number t < next_ticket s"
    and "\<And>q. q \<noteq> p \<Longrightarrow> entry_ok (next_ticket s) (in_use q s) (m q)"
  shows "lane_inv (snd (lanes_after p (dispatch_in p l m) s))"
  unfolding lane_inv_def
proof
  fix q
  show "entry_ok (next_ticket (snd (lanes_after p (dispatch_in p l m) s)))
      (in_use q (snd (lanes_after p (dispatch_in p l m) s))) (lanes (snd (lanes_after p (dispatch_in p l m) s)) q)"
  proof (cases "q = p")
    case True
    with assms(1-3) dispatch_facts [of l] show ?thesis
      by (auto simp: dispatch_in_def split_beta lane_ok_def entry_ok_def)
  next
    case False
    with assms(4) [OF False] show ?thesis
      by (simp add: dispatch_in_def split_beta)
  qed
qed

lemma lane_inv_freed:
  assumes "lane_inv s" "lanes s p = Some l" "next_ticket s' = next_ticket s"
    "\<And>q. in_use q s = in_use q s' + (if q = p then 1 else 0)"
  shows "lane_inv (snd (lanes_after p (release_lane p l (lanes s)) s'))"
  unfolding release_lane_def
proof (rule lane_inv_dispatch)
  have "entry_ok (next_ticket s) (in_use q s) (lanes s q)" for q using assms(1) by (simp add: lane_inv_def)
  from this [of p] have l: "lane_ok (next_ticket s) (in_use p s' + 1) l"
    using assms(4) [of p] assms(2) by (simp add: entry_ok_def)
  then show "lane_active (l\<lparr>lane_active := lane_active l - 1\<rparr>) = int (in_use p s')"
    "distinct (lane_queue (l\<lparr>lane_active := lane_active l - 1\<rparr>))"
    "\<forall>t\<in>set (lane_queue (l\<lparr>lane_active := lane_active l - 1\<rparr>)). ticket_number t < next_ticket s'"
    by (simp_all add: lane_ok_def assms(3))
  show "entry_ok (next_ticket s') (in_use q s') (lanes s q)" if "q \<noteq> p" for q
    using \<open>\<And>q. entry_ok (next_ticket s) (in_use q s) (lanes s q)\<close> [of q] assms(4) [of q] that
    by (simp add: assms(3))
qed

lemma lane_inv_step:
  assumes "lane_inv s" "lane_step e s = Some (ts, s')"
  shows "lane_inv s'"
proof -
  have every: "entry_ok (next_ticket s) (in_use q s) (lanes s q)" for q
    using assms(1) by (simp add: lane_inv_def)
  have some: "lanes s q = Some l \<Longrightarrow> lane_ok (next_ticket s) (in_use q s) l" for q l
    using every [of q] by (simp add: entry_ok_def)
  have none: "lanes s q = None \<Longrightarrow> in_use q s = 0" for q using every [of q] by (simp add: entry_ok_def)
  show ?thesis
  proof (cases e)
    case (Enter p r limit)
    let ?s = "s\<lparr>next_ticket := next_ticket s + 1\<rparr>"
    have u: "in_use q ?s = in_use q s" for q by (simp add: in_use_def)
    have "s' = snd (lanes_after p (enter_lane p limit \<lparr>ticket_number = next_ticket s, ticket_room = r\<rparr> (lanes s)) ?s)"
      using assms(2) by (simp add: Enter Let_def)
    moreover have later: "entry_ok (next_ticket s + 1) (in_use q s) (lanes s q)" for q
      using every [of q] by (auto simp: entry_ok_def lane_ok_def less_Suc_eq split: option.splits)
    moreover have "\<lparr>ticket_number = next_ticket s, ticket_room = r\<rparr> \<notin> set (lane_queue l)" if "lanes s p = Some l" for l
      using some [OF that] by (auto simp: lane_ok_def)
    moreover have "lane_inv (snd (lanes_after p (enter_lane p limit \<lparr>ticket_number = next_ticket s, ticket_room = r\<rparr> (lanes s)) ?s))"
      unfolding enter_lane_def Let_def
    proof (rule lane_inv_dispatch, unfold u)
      fix q
      show "entry_ok (next_ticket ?s) (in_use q s) (lanes s q)" using later [of q] by simp
    qed (use calculation(3) later [of p] none [of p] in \<open>auto simp: new_lane_def lane_ok_def entry_ok_def split: option.splits\<close>)
    ultimately show ?thesis by simp
  next
    case (Receive p t)
    then have "(p, t) \<in> set (granted s)"
      and s': "s' = s\<lparr>granted := remove1 (p, t) (granted s), running := running s @ [(p, t)]\<rparr>"
      using assms(2) by (auto split: if_splits)
    then have "in_use q s' = in_use q s" for q
      using in_use_remove(1) [of p t s q] by (simp add: in_use_def)
    moreover have "lanes s' = lanes s" "next_ticket s' = next_ticket s" by (simp_all add: s')
    ultimately show ?thesis using assms(1) unfolding lane_inv_def by presburger
  next
    case (GiveUp p t)
    then obtain l where l: "lanes s p = Some l" using assms(2) by (auto split: option.splits)
    show ?thesis
    proof (cases "t \<in> set (lane_queue l)")
      case True
      then have "s' = snd (lanes_after p (dispatch_in p (l\<lparr>lane_queue := remove1 t (lane_queue l)\<rparr>) (lanes s)) s)"
        using assms(2) by (simp add: GiveUp l leave_lane_def)
      moreover have "lane_inv \<dots>"
        by (rule lane_inv_dispatch) (use some [OF l] every set_remove1_subset [of t "lane_queue l"] in \<open>auto simp: lane_ok_def\<close>)
      ultimately show ?thesis by simp
    next
      case False
      let ?s = "s\<lparr>granted := remove1 (p, t) (granted s)\<rparr>"
      have g: "(p, t) \<in> set (granted s)" using False assms(2) by (auto simp: GiveUp l split: if_splits)
      have "s' = snd (lanes_after p (release_lane p l (lanes s)) ?s)"
        using False g assms(2) by (simp add: GiveUp l leave_lane_def release_lane_def)
      moreover have "lane_inv \<dots>"
        by (rule lane_inv_freed [OF assms(1) l _ in_use_remove(1) [OF g]]) simp
      ultimately show ?thesis by simp
    qed
  next
    case (Release p t)
    then obtain l where l: "lanes s p = Some l" using assms(2) by (auto split: option.splits)
    let ?s = "s\<lparr>running := remove1 (p, t) (running s)\<rparr>"
    have g: "(p, t) \<in> set (running s)" using assms(2) by (auto simp: Release l split: if_splits)
    have "s' = snd (lanes_after p (release_lane p l (lanes s)) ?s)"
      using g assms(2) by (simp add: Release l)
    moreover have "lane_inv \<dots>"
      by (rule lane_inv_freed [OF assms(1) l _ in_use_remove(2) [OF g]]) simp
    ultimately show ?thesis by simp
  next
    case (SetLimit p limit)
    then have "s' = snd (lanes_after p (set_provider_limit p limit (lanes s)) s)" using assms(2) by simp
    moreover have "lane_inv \<dots>" unfolding set_provider_limit_def Let_def
      by (rule lane_inv_dispatch) (use some none every in \<open>auto simp: new_lane_def lane_ok_def split: option.split\<close>)
    ultimately show ?thesis by simp
  qed
qed

lemma lane_inv_start: "lane_inv no_lanes"
  by (simp add: lane_inv_def no_lanes_def entry_ok_def in_use_def)

lemma lane_inv_run: "lane_inv s \<Longrightarrow> lane_run p es s = Some (n, s') \<Longrightarrow> lane_inv s'"
proof (induction es arbitrary: s n)
  case (Cons e es)
  then show ?case by (auto split: option.splits dest: lane_inv_step)
qed simp

section \<open>A step that takes capacity respects the limit\<close>

lemma dispatch_in_limit:
  "fst (dispatch_in p l m) \<noteq> [] \<Longrightarrow>
   \<exists>l'. snd (dispatch_in p l m) p = Some l' \<and> lane_active l' \<le> lane_limit l'"
  using dispatch_facts [of l] by (simp add: dispatch_in_def split_beta)

lemma step_limit:
  assumes "lane_step e s = Some (ts, s')" "ts \<noteq> []"
  shows "\<exists>l. lanes s' (event_provider e) = Some l \<and> lane_active l \<le> lane_limit l"
  using assms
  by (cases e) (auto simp: lanes_after_def enter_lane_def leave_lane_def release_lane_def set_provider_limit_def Let_def
      split: option.splits if_splits prod.splits intro!: dispatch_in_limit)

lemma step_takes:
  assumes "lane_step e s = Some (ts, s')" "in_use q s < in_use q s'"
  shows "ts \<noteq> [] \<and> event_provider e = q"
proof (cases e)
  case (Enter p r limit)
  have "in_use q (s\<lparr>next_ticket := n\<rparr>) = in_use q s" for n by (simp add: in_use_def)
  with Enter assms show ?thesis
    by (cases "p = q") (auto simp: Let_def lanes_after_def in_use_def filter_map o_def)
next
  case (Receive p t)
  with assms show ?thesis
    by (auto simp: in_use_def length_filter_remove1 [of "(p, t)" "granted s"] split: if_splits)
next
  case (GiveUp p t)
  with assms show ?thesis
    by (cases "p = q") (auto simp: in_use_def lanes_after_def leave_lane_def length_filter_remove1 [of "(p, t)" "granted s"]
        filter_map o_def split: if_splits option.splits prod.splits)
next
  case (Release p t)
  with assms show ?thesis
    by (cases "p = q") (auto simp: in_use_def lanes_after_def length_filter_remove1 [of "(p, t)" "running s"]
        filter_map o_def split: if_splits option.splits)
next
  case (SetLimit p limit)
  with assms show ?thesis by (cases "p = q") (auto simp: in_use_def lanes_after_def filter_map o_def)
qed

section \<open>How long a call waits\<close>

definition ahead :: "ticket \<Rightarrow> ticket list \<Rightarrow> nat" where
  "ahead t q = length (takeWhile (\<lambda>x. x \<noteq> t) q)"

text \<open>A bound on the grants that pass a queued ticket.\<close>

definition patience :: "ticket \<Rightarrow> lane \<Rightarrow> nat" where
  "patience t l = 2 * ahead t (lane_queue l) + (if ticket_room (hd (lane_queue l)) = lane_last l then 2 else 1)"

lemma ahead_simps [simp]:
  "ahead t [] = 0" "ahead t (x # q) = (if x = t then 0 else Suc (ahead t q))"
  by (simp_all add: ahead_def)

lemma ahead_append: "t \<in> set q \<Longrightarrow> ahead t (q @ r) = ahead t q"
  by (induction q) auto

lemma ahead_remove_at: "i < length q \<Longrightarrow> q ! i \<noteq> t \<Longrightarrow> ahead t (remove_at i q) \<le> ahead t q"
proof (induction q arbitrary: i)
  case (Cons x q)
  then show ?case by (cases i) (auto simp: remove_at_def)
qed simp

lemma ahead_remove1: "u \<noteq> t \<Longrightarrow> ahead t (remove1 u q) \<le> ahead t q"
  by (induction q) auto

lemma ahead_nth: "distinct q \<Longrightarrow> i < length q \<Longrightarrow> ahead (q ! i) q = i"
proof (induction q arbitrary: i)
  case (Cons x q)
  then show ?case by (cases i) auto
qed simp

lemma patience_grant:
  assumes "t \<in> set (lane_queue (snd (grant_next l)))" "distinct (lane_queue l)" "lane_queue l \<noteq> []"
  shows "patience t (snd (grant_next l)) + 1 \<le> patience t l"
proof -
  define q where "q = lane_queue l"
  define i where "i = pick_index (lane_last l) q"
  have i: "i < length q" using assms(3) by (simp add: i_def q_def pick_index_less)
  have t: "t \<in> set (remove_at i q)" using assms(1) by (simp add: q_def i_def)
  have ne: "q ! i \<noteq> t"
  proof
    assume "q ! i = t"
    moreover have "q ! i \<notin> set (take i q)" "q ! i \<notin> set (drop (Suc i) q)"
      using assms(2) i by (simp_all add: q_def [symmetric] in_set_conv_nth nth_eq_iff_index_eq)
    ultimately show False using t by (simp add: remove_at_def)
  qed
  have len: "ahead t (remove_at i q) \<le> ahead t q" by (rule ahead_remove_at [OF i ne])
  show ?thesis
  proof (cases i)
    case 0
    then obtain q' where "q = q ! 0 # q'" using i by (cases q) auto
    then have "ahead t q = Suc (ahead t (remove_at i q))" using ne 0 by (cases q) (auto simp: remove_at_def)
    then show ?thesis by (simp add: patience_def q_def [symmetric] i_def [symmetric])
  next
    case (Suc j)
    then have k: "index_of (\<lambda>t. ticket_room t \<noteq> lane_last l) q = Some i"
      by (auto simp: i_def pick_index_def split: option.splits)
    have "hd (remove_at i q) = hd q" "hd q = q ! 0" using Suc i by (cases q; simp add: remove_at_def)+
    moreover have "ticket_room (q ! 0) = lane_last l" "ticket_room (q ! i) \<noteq> lane_last l"
      using index_of_Some [OF k] Suc by auto
    ultimately show ?thesis using len
      by (simp add: patience_def q_def [symmetric] i_def [symmetric])
  qed
qed

lemma patience_dispatch:
  "t \<in> set (lane_queue (snd (dispatch l))) \<Longrightarrow> distinct (lane_queue l) \<Longrightarrow>
   patience t (snd (dispatch l)) + length (fst (dispatch l)) \<le> patience t l"
proof (induction l rule: dispatch.induct)
  case (1 l)
  show ?case
  proof (cases "lane_active l < lane_limit l \<and> lane_queue l \<noteq> []")
    case True
    let ?l = "snd (grant_next l)"
    have d: "dispatch l = (fst (grant_next l) # fst (dispatch ?l), snd (dispatch ?l))"
      by (rule dispatch_go) (use True in simp_all)
    have t: "t \<in> set (lane_queue (snd (dispatch ?l)))" using "1.prems"(1) by (simp add: d)
    have q: "distinct (lane_queue ?l)" using "1.prems"(2) by (simp add: distinct_remove_at)
    have "patience t (snd (dispatch ?l)) + length (fst (dispatch ?l)) \<le> patience t ?l"
      by (rule "1.IH" [OF True refl prod.collapse t q])
    moreover have "t \<in> set (lane_queue ?l)" using t dispatch_facts [of ?l] by blast
    then have "patience t ?l + 1 \<le> patience t l" by (rule patience_grant) (use "1.prems"(2) True in simp_all)
    ultimately show ?thesis by (simp add: d)
  next
    case False
    then show ?thesis by (auto simp: dispatch_stop)
  qed
qed

text \<open>What a step does to the lane of a queued ticket before it dispatches.\<close>

lemma patience_dispatch_in:
  assumes "snd (dispatch_in p l m) p = Some l'" "t \<in> set (lane_queue l')" "distinct (lane_queue l)"
  shows "patience t l' + length (fst (dispatch_in p l m)) \<le> patience t l \<and> t \<in> set (lane_queue l)"
proof -
  have l': "l' = snd (dispatch l)" using assms(1) by (simp add: dispatch_in_def split_beta)
  moreover have "t \<in> set (lane_queue l)" using assms(2) dispatch_facts [of l] by (auto simp: l')
  ultimately show ?thesis using patience_dispatch [of t l] assms(2,3)
    by (simp add: dispatch_in_def split_beta)
qed

lemma patience_append: "t \<in> set (lane_queue l) \<Longrightarrow> patience t (l\<lparr>lane_queue := lane_queue l @ ts\<rparr>) = patience t l"
  by (auto simp: patience_def ahead_append hd_append)

lemma patience_remove1:
  assumes "t \<in> set (remove1 u (lane_queue l))" "distinct (lane_queue l)"
  shows "patience t (l\<lparr>lane_queue := remove1 u (lane_queue l)\<rparr>) \<le> patience t l"
proof (cases "lane_queue l")
  case (Cons x q)
  have "u \<noteq> t" using assms by auto
  then have "ahead t (remove1 u q) \<le> ahead t q" by (rule ahead_remove1)
  with Cons \<open>u \<noteq> t\<close> assms show ?thesis by (auto simp: patience_def)
qed (use assms in simp)

text \<open>The lane that a step dispatches, if it dispatches one.\<close>

fun lane_before :: "lane_event \<Rightarrow> lane_system \<Rightarrow> lane option" where
  "lane_before (Enter p r limit) s =
     (let l = (case lanes s p of None \<Rightarrow> new_lane (max 1 limit) | Some l \<Rightarrow> l)
      in Some (l\<lparr>lane_queue := lane_queue l @ [\<lparr>ticket_number = next_ticket s, ticket_room = r\<rparr>]\<rparr>))"
| "lane_before (Receive p t) s = None"
| "lane_before (GiveUp p t) s =
     map_option (\<lambda>l. if t \<in> set (lane_queue l) then l\<lparr>lane_queue := remove1 t (lane_queue l)\<rparr>
                     else l\<lparr>lane_active := lane_active l - 1\<rparr>) (lanes s p)"
| "lane_before (Release p t) s = map_option (\<lambda>l. l\<lparr>lane_active := lane_active l - 1\<rparr>) (lanes s p)"
| "lane_before (SetLimit p limit) s =
     (let l = (case lanes s p of None \<Rightarrow> new_lane 0 | Some l \<Rightarrow> l) in Some (l\<lparr>lane_limit := max 1 limit\<rparr>))"

lemma step_dispatches:
  assumes "lane_step e s = Some (ts, s')"
  shows "case lane_before e s of None \<Rightarrow> lanes s' = lanes s \<and> ts = []
    | Some k \<Rightarrow> lanes s' = snd (dispatch_in (event_provider e) k (lanes s)) \<and>
                ts = fst (dispatch_in (event_provider e) k (lanes s))"
  using assms
  by (cases e) (auto simp: lanes_after_def enter_lane_def leave_lane_def release_lane_def set_provider_limit_def Let_def
      split: option.splits if_splits)

lemma lane_inv_queue:
  assumes "lane_inv s" "lanes s p = Some l"
  shows "distinct (lane_queue l)" "\<And>t. t \<in> set (lane_queue l) \<Longrightarrow> ticket_number t < next_ticket s"
proof -
  have "entry_ok (next_ticket s) (in_use p s) (lanes s p)" using assms(1) by (simp add: lane_inv_def)
  then have "lane_ok (next_ticket s) (in_use p s) l" using assms(2) by (simp add: entry_ok_def)
  then show "distinct (lane_queue l)" "\<And>t. t \<in> set (lane_queue l) \<Longrightarrow> ticket_number t < next_ticket s"
    by (simp_all add: lane_ok_def)
qed

lemma patience_cong:
  "lane_queue k = lane_queue l \<Longrightarrow> lane_last k = lane_last l \<Longrightarrow> patience t k = patience t l"
  by (simp add: patience_def)

lemma before_patience:
  assumes "lane_inv s" "lane_before e s = Some k"
  shows "distinct (lane_queue k)"
    and "t \<in> set (lane_queue k) \<Longrightarrow> ticket_number t < next_ticket s \<Longrightarrow>
      \<exists>l. lanes s (event_provider e) = Some l \<and> t \<in> set (lane_queue l) \<and> patience t k \<le> patience t l"
proof -
  note q = lane_inv_queue [OF assms(1)]
  have "distinct (lane_queue k) \<and> (t \<in> set (lane_queue k) \<longrightarrow> ticket_number t < next_ticket s \<longrightarrow>
      (\<exists>l. lanes s (event_provider e) = Some l \<and> t \<in> set (lane_queue l) \<and> patience t k \<le> patience t l))"
  proof (cases e)
    case (Enter p r limit)
    show ?thesis
    proof (cases "lanes s p")
      case None
      then show ?thesis using assms(2) by (auto simp: Enter new_lane_def)
    next
      case (Some l)
      have "\<lparr>ticket_number = next_ticket s, ticket_room = r\<rparr> \<notin> set (lane_queue l)" using q(2) [OF Some] by fastforce
      with Some q(1) [OF Some] assms(2) show ?thesis by (auto simp: Enter Let_def patience_append)
    qed
  next
    case (Receive p u)
    then show ?thesis using assms(2) by simp
  next
    case (GiveUp p u)
    then obtain l where l: "lanes s p = Some l" using assms(2) by (cases "lanes s p") auto
    show ?thesis using assms(2) q(1) [OF l] patience_remove1 [of t u l] patience_cong [of k l t]
      by (auto simp: GiveUp l dest: notin_set_remove1 split: if_splits)
  next
    case (Release p u)
    then obtain l where l: "lanes s p = Some l" using assms(2) by (cases "lanes s p") auto
    show ?thesis using assms(2) q(1) [OF l] patience_cong [of k l t] by (auto simp: Release l)
  next
    case (SetLimit p limit)
    show ?thesis
    proof (cases "lanes s p")
      case None
      then show ?thesis using assms(2) by (auto simp: SetLimit new_lane_def)
    next
      case (Some l)
      with q(1) [OF Some] assms(2) patience_cong [of k l t] show ?thesis by (auto simp: SetLimit Let_def)
    qed
  qed
  then show "distinct (lane_queue k)"
    and "t \<in> set (lane_queue k) \<Longrightarrow> ticket_number t < next_ticket s \<Longrightarrow>
      \<exists>l. lanes s (event_provider e) = Some l \<and> t \<in> set (lane_queue l) \<and> patience t k \<le> patience t l" by auto
qed

text \<open>A step that leaves a ticket in the queue makes its patience smaller by what it grants.\<close>

lemma dispatch_in_other: "q \<noteq> p \<Longrightarrow> snd (dispatch_in p l m) q = m q"
  by (simp add: dispatch_in_def split_beta)

lemma patience_step:
  assumes "lane_inv s" "lane_step e s = Some (ts, s')" "lanes s' p = Some l'" "t \<in> set (lane_queue l')"
    "ticket_number t < next_ticket s"
  shows "\<exists>l. lanes s p = Some l \<and> t \<in> set (lane_queue l) \<and>
    patience t l' + (if event_provider e = p then length ts else 0) \<le> patience t l"
proof (cases "lane_before e s")
  case None
  then show ?thesis using step_dispatches [OF assms(2)] assms(3,4) by auto
next
  case (Some k)
  note d = step_dispatches [OF assms(2), unfolded Some option.case]
  show ?thesis
  proof (cases "event_provider e = p")
    case True
    have "patience t l' + length ts \<le> patience t k \<and> t \<in> set (lane_queue k)"
      using patience_dispatch_in [OF _ assms(4) before_patience(1) [OF assms(1) Some], of p "lanes s"] d assms(3) True by simp
    with before_patience(2) [OF assms(1) Some, of t] assms(5) True show ?thesis by fastforce
  next
    case False
    then show ?thesis using d dispatch_in_other [of p "event_provider e" k "lanes s"] assms(3,4) by auto
  qed
qed

lemma next_ticket_mono: "lane_step e s = Some (ts, s') \<Longrightarrow> next_ticket s \<le> next_ticket s'"
  by (cases e) (auto simp: lanes_after_def leave_lane_def Let_def split: option.splits if_splits prod.splits)

lemma patience_run:
  assumes "lane_inv s" "lane_run p es s = Some (n, s')" "lanes s' p = Some l'" "t \<in> set (lane_queue l')"
    "ticket_number t < next_ticket s"
  shows "\<exists>l. lanes s p = Some l \<and> t \<in> set (lane_queue l) \<and> patience t l' + n \<le> patience t l"
  using assms
proof (induction es arbitrary: s n)
  case (Cons e es)
  then obtain ts s1 m where s1: "lane_step e s = Some (ts, s1)" "lane_run p es s1 = Some (m, s')"
    "n = (if event_provider e = p then length ts else 0) + m"
    by (auto split: option.splits)
  have "ticket_number t < next_ticket s1" using Cons.prems(5) next_ticket_mono [OF s1(1)] by simp
  with Cons.IH [OF lane_inv_step [OF Cons.prems(1) s1(1)] s1(2) Cons.prems(3,4)] obtain l1 where
    l1: "lanes s1 p = Some l1" "t \<in> set (lane_queue l1)" "patience t l' + m \<le> patience t l1" by blast
  from patience_step [OF Cons.prems(1) s1(1) l1(1,2) Cons.prems(5)] l1(3) s1(3) show ?case by fastforce
qed simp

section \<open>Properties\<close>

text \<open>C17. In every interleaving of calls that enter, receive, give up, end, and of changed limits, the
  count of a lane is exactly the calls that hold or were just granted capacity (none leaks, none is
  counted twice); a call waits only while the lane is full; and a step that raises the use of a
  provider leaves it within the limit.\<close>
theorem lane_accounting:
  assumes "lane_run p es no_lanes = Some (n, s)" "lanes s q = Some l"
  shows "lane_active l = int (in_use q s) \<and>
    (lane_queue l \<noteq> [] \<longrightarrow> lane_limit l \<le> lane_active l) \<and>
    (\<forall>e ts s'. lane_step e s = Some (ts, s') \<longrightarrow> in_use q s < in_use q s' \<longrightarrow>
       (\<exists>l'. lanes s' q = Some l' \<and> int (in_use q s') \<le> lane_limit l'))"
proof (intro conjI allI impI)
  have inv: "lane_inv s" by (rule lane_inv_run [OF lane_inv_start assms(1)])
  have ok: "lane_ok (next_ticket r) (in_use q r) k" if "lane_inv r" "lanes r q = Some k" for r k
    using that unfolding lane_inv_def entry_ok_def by (metis option.simps(5))
  show "lane_active l = int (in_use q s)" "lane_queue l \<noteq> [] \<Longrightarrow> lane_limit l \<le> lane_active l"
    using ok [OF inv assms(2)] by (simp_all add: lane_ok_def)
  fix e ts s'
  assume step: "lane_step e s = Some (ts, s')" and more: "in_use q s < in_use q s'"
  have "ts \<noteq> [] \<and> event_provider e = q" by (rule step_takes [OF step more])
  then obtain l' where "lanes s' q = Some l'" "lane_active l' \<le> lane_limit l'"
    using step_limit [OF step] by blast
  with ok [OF lane_inv_step [OF inv step]] show "\<exists>l'. lanes s' q = Some l' \<and> int (in_use q s') \<le> lane_limit l'"
    by (auto simp: lane_ok_def)
qed

text \<open>C22. No call starves: a call with \<open>i\<close> calls ahead of it in its provider's queue that is still
  queued after a run has been passed by at most \<open>2 i + 1\<close> grants of that provider, whatever other
  calls arrive, give up or end and however the limit changes.\<close>
theorem lane_fair:
  assumes "lane_run r es no_lanes = Some (m, s)" "lanes s p = Some l" "i < length (lane_queue l)"
    "lane_run p es' s = Some (n, s')" "lanes s' p = Some l'" "lane_queue l ! i \<in> set (lane_queue l')"
  shows "n \<le> 2 * i + 1"
proof -
  have inv: "lane_inv s" by (rule lane_inv_run [OF lane_inv_start assms(1)])
  note q = lane_inv_queue [OF inv assms(2)]
  have "ticket_number (lane_queue l ! i) < next_ticket s" by (rule q(2)) (simp add: assms(3))
  from patience_run [OF inv assms(4-6) this] assms(2)
  have "patience (lane_queue l ! i) l' + n \<le> patience (lane_queue l ! i) l" by auto
  moreover have "ahead (lane_queue l ! i) (lane_queue l) = i" by (rule ahead_nth [OF q(1) assms(3)])
  ultimately show ?thesis by (simp add: patience_def split: if_splits)
qed

text \<open>Two rooms share one call at a time: a second call of the first room waits, and one of the other
  room passes it.\<close>

definition first_calls :: "lane_event list" where
  "first_calls = [Enter Codex ''a'' 1, Enter Codex ''a'' 1, Enter Codex ''b'' 1]"

definition later_calls :: "lane_event list" where
  "later_calls = [Receive Codex \<lparr>ticket_number = 0, ticket_room = ''a''\<rparr>,
     Release Codex \<lparr>ticket_number = 0, ticket_room = ''a''\<rparr>, Enter Codex ''b'' 1]"

definition after_first :: lane_system where
  "after_first = (case lane_run Codex first_calls no_lanes of Some (_, s) \<Rightarrow> s | None \<Rightarrow> no_lanes)"

definition after_later :: lane_system where
  "after_later = (case lane_run Codex later_calls after_first of Some (_, s) \<Rightarrow> s | None \<Rightarrow> no_lanes)"

lemmas lane_eval = lane_run.simps lane_step.simps enter_lane_def release_lane_def dispatch_in_def dispatch_stop dispatch_go
  grant_next_def pick_index_def remove_at_def lanes_after_def new_lane_def no_lanes_def Let_def

lemma after_first_eval:
  "lane_run Codex first_calls no_lanes = Some (1, after_first)"
  "lanes after_first Codex = Some \<lparr>lane_active = 1, lane_limit = 1, lane_last = ''a'',
     lane_queue = [\<lparr>ticket_number = 1, ticket_room = ''a''\<rparr>, \<lparr>ticket_number = 2, ticket_room = ''b''\<rparr>]\<rparr>"
  "granted after_first = [(Codex, \<lparr>ticket_number = 0, ticket_room = ''a''\<rparr>)]"
  "running after_first = []" "next_ticket after_first = 3"
  by (simp_all add: after_first_def first_calls_def lane_eval)

lemma after_later_eval:
  "lane_run Codex later_calls after_first = Some (1, after_later)"
  "lanes after_later Codex = Some \<lparr>lane_active = 1, lane_limit = 1, lane_last = ''b'',
     lane_queue = [\<lparr>ticket_number = 1, ticket_room = ''a''\<rparr>, \<lparr>ticket_number = 3, ticket_room = ''b''\<rparr>]\<rparr>"
  by (simp_all add: after_later_def later_calls_def lane_eval after_first_eval)

theorem lane_accounting_witness:
  "1 = int (in_use Codex after_first) \<and> length (lane_queue (the (lanes after_first Codex))) = 2"
  using lane_accounting [OF after_first_eval(1,2)] by (simp add: after_first_eval)

theorem lane_fair_witness:
  "\<exists>n. lane_run Codex later_calls after_first = Some (n, after_later) \<and> n \<le> 2 * 0 + 1"
  using lane_fair [OF after_first_eval(1,2) _ after_later_eval(1,2), of 0] after_later_eval(1) by simp

end
