(* ===== verification/Workspace_Writers.thy ===== *)
theory Workspace_Writers
  imports Participants
begin

text \<open>
  One writable workflow per checkout, across rooms: \<^verbatim>\<open>internal/room/shared.go\<close> (\<open>acquireWriter\<close>,
  \<open>releaseWriter\<close>, \<open>retainWriterTurn\<close>, \<open>finishWriterTurn\<close> and their use in \<open>acquireSharedTurn\<close>),
  \<^verbatim>\<open>internal/room/workspace.go\<close> (the records of the writers) and
  \<^verbatim>\<open>internal/room/workspace_journal.go\<close> (the ownership journal and the recovery hold after a crash).
  The clock and the outcome of writing the journal are arguments; \<open>workspaceFile\<close>, which reads the
  file system, is the argument \<open>resolve\<close> of \<open>merge_files\<close>.
\<close>

section \<open>State\<close>

record workspace_writer =
  ww_room :: string
  ww_room_name :: string
  ww_workflow :: string
  ww_participant :: participant
  acquired_at :: "time option"
  released_at :: "time option"
  release_reason :: string
  intended_files :: "string list"
  observed_files :: "string list"
  files_partial :: bool

record workspace_activity =
  act_owner :: "workspace_writer option"
  act_waiting :: "workspace_writer list"
  act_last :: "workspace_writer option"
  act_revision :: nat
  recovery_required :: bool

type_synonym journal = "string \<rightharpoonup> workspace_activity"

text \<open>
  A Go map whose missing entries read as zero is a function; \<open>revisions\<close>, over which the code ranges,
  keeps its domain.  \<open>journal_file\<close> is what the journal was last written with, \<open>wakes\<close> counts the
  channels that \<open>wake\<close> closed.
\<close>

record shared_writers =
  room_names :: "string \<rightharpoonup> string"
  recovery :: "string \<rightharpoonup> workspace_writer"
  journaled :: bool
  journal_failed :: bool
  journal_file :: journal
  records :: "string \<rightharpoonup> workspace_writer"
  last_writers :: "string \<rightharpoonup> workspace_writer"
  revisions :: "string \<rightharpoonup> nat"
  writer_turns :: "string \<Rightarrow> int"
  writer_closing :: "string \<Rightarrow> bool"
  writers :: "string \<rightharpoonup> string"
  writer_queue :: "string \<Rightarrow> string list"
  waiters :: "string \<Rightarrow> int"
  wakes :: nat

definition new_shared_capacity :: shared_writers where
  "new_shared_capacity = \<lparr>room_names = Map.empty, recovery = Map.empty, journaled = False, journal_failed = False,
     journal_file = Map.empty, records = Map.empty, last_writers = Map.empty, revisions = Map.empty,
     writer_turns = (\<lambda>_. 0), writer_closing = (\<lambda>_. False), writers = Map.empty, writer_queue = (\<lambda>_. []),
     waiters = (\<lambda>_. 0), wakes = 0\<rparr>"

definition wake_writers :: "shared_writers \<Rightarrow> shared_writers" where
  "wake_writers s = s\<lparr>wakes := wakes s + 1\<rparr>"

section \<open>Records and journal\<close>

definition revision_of :: "string \<Rightarrow> shared_writers \<Rightarrow> nat" where
  "revision_of ws s = (case revisions s ws of None \<Rightarrow> 0 | Some n \<Rightarrow> n)"

definition bump_revision :: "string \<Rightarrow> shared_writers \<Rightarrow> shared_writers" where
  "bump_revision ws s = s\<lparr>revisions := (revisions s)(ws \<mapsto> revision_of ws s + 1)\<rparr>"

definition owner_record :: "string \<Rightarrow> shared_writers \<Rightarrow> workspace_writer option" where
  "owner_record ws s = (case writers s ws of None \<Rightarrow> None | Some key \<Rightarrow> records s key)"

definition snapshot :: "string \<Rightarrow> shared_writers \<Rightarrow> workspace_activity" where
  "snapshot ws s =
     \<lparr>act_owner = (case recovery s ws of Some r \<Rightarrow> Some r | None \<Rightarrow> owner_record ws s),
      act_waiting = List.map_filter (records s) (writer_queue s ws),
      act_last = last_writers s ws,
      act_revision = revision_of ws s,
      recovery_required = (recovery s ws \<noteq> None \<or> journal_failed s)\<rparr>"

definition journal_of :: "shared_writers \<Rightarrow> journal" where
  "journal_of s ws = (if revisions s ws \<noteq> None \<or> recovery s ws \<noteq> None then Some (snapshot ws s) else None)"

definition persist :: "bool \<Rightarrow> shared_writers \<Rightarrow> bool \<times> shared_writers" where
  "persist saved s =
     (if \<not> journaled s then (True, s)
      else (saved, (if saved then s\<lparr>journal_file := journal_of s\<rparr> else s)\<lparr>journal_failed := \<not> saved\<rparr>))"

definition configure_journal :: "journal \<Rightarrow> shared_writers \<Rightarrow> shared_writers" where
  "configure_journal saved s =
     s\<lparr>last_writers := (\<lambda>ws. case saved ws of None \<Rightarrow> last_writers s ws | Some a \<Rightarrow> act_last a),
       revisions := (\<lambda>ws. case saved ws of None \<Rightarrow> revisions s ws | Some a \<Rightarrow> Some (act_revision a)),
       recovery := (\<lambda>ws. case saved ws of None \<Rightarrow> recovery s ws
                       | Some a \<Rightarrow> (case act_owner a of None \<Rightarrow> recovery s ws | Some r \<Rightarrow> Some r)),
       journaled := True, journal_file := saved\<rparr>"

definition register_writer :: "string \<Rightarrow> string \<Rightarrow> string \<Rightarrow> string \<Rightarrow> participant \<Rightarrow> shared_writers \<Rightarrow> shared_writers" where
  "register_writer key room_id name workflow p s =
     (let name = (case room_names s room_id of None \<Rightarrow> name | Some n \<Rightarrow> if n \<noteq> '''' then n else name);
          r = (case records s key of
                 Some r \<Rightarrow> r
               | None \<Rightarrow> \<lparr>ww_room = room_id, ww_room_name = name, ww_workflow = workflow, ww_participant = p,
                   acquired_at = None, released_at = None, release_reason = '''', intended_files = [],
                   observed_files = [], files_partial = True\<rparr>)
      in s\<lparr>records := (records s)(key \<mapsto> r\<lparr>ww_participant := p\<rparr>)\<rparr>)"

definition writer_acquired :: "time \<Rightarrow> string \<Rightarrow> string \<Rightarrow> shared_writers \<Rightarrow> shared_writers" where
  "writer_acquired now ws key s =
     (case records s key of
        None \<Rightarrow> s
      | Some r \<Rightarrow>
          if acquired_at r = None
          then bump_revision ws (s\<lparr>records := (records s)(key \<mapsto> r\<lparr>acquired_at := Some now\<rparr>)\<rparr>) else s)"

definition writer_released :: "time \<Rightarrow> string \<Rightarrow> string \<Rightarrow> shared_writers \<Rightarrow> shared_writers" where
  "writer_released now ws key s =
     (case records s key of
        None \<Rightarrow> s
      | Some r \<Rightarrow>
          let r = r\<lparr>released_at := Some now,
                    release_reason := (if release_reason r = '''' then ''workflow ended'' else release_reason r)\<rparr>
          in bump_revision ws (s\<lparr>last_writers := (last_writers s)(ws \<mapsto> r), records := (records s)(key := None)\<rparr>))"

section \<open>Acquiring and releasing\<close>

definition writer_wanted :: "string \<Rightarrow> string \<Rightarrow> shared_writers \<Rightarrow> shared_writers" where
  "writer_wanted ws key s =
     (let s = (if waiters s key = 0
               then s\<lparr>writer_queue := (writer_queue s)(ws := writer_queue s ws @ [key])\<rparr> else s)
      in s\<lparr>waiters := (waiters s)(key := waiters s key + 1)\<rparr>)"

definition remove_waiter :: "string \<Rightarrow> string \<Rightarrow> shared_writers \<Rightarrow> shared_writers" where
  "remove_waiter ws key s =
     (let s = s\<lparr>waiters := (waiters s)(key := waiters s key - 1)\<rparr>
      in if waiters s key \<le> 0 then
           let s = s\<lparr>waiters := (waiters s)(key := 0)\<rparr>;
               s = (if writers s ws \<noteq> Some key then s\<lparr>records := (records s)(key := None)\<rparr> else s)
           in s\<lparr>writer_queue := (writer_queue s)(ws := remove1 key (writer_queue s ws))\<rparr>
         else s)"

text \<open>The entry of \<open>acquireWriter\<close>: whether the caller owns the workspace already.\<close>

definition enter_writer :: "string \<Rightarrow> string \<Rightarrow> shared_writers \<Rightarrow> bool \<times> shared_writers" where
  "enter_writer ws key s =
     (if writers s ws = Some key then (True, s) else (False, writer_wanted ws key s))"

definition may_write :: "string \<Rightarrow> string \<Rightarrow> shared_writers \<Rightarrow> bool" where
  "may_write ws key s \<longleftrightarrow>
     recovery s ws = None \<and> \<not> journal_failed s \<and>
     (writers s ws = Some key \<or>
      (writers s ws = None \<and> writer_queue s ws \<noteq> [] \<and> hd (writer_queue s ws) = key))"

text \<open>One turn of its loop: keep waiting, fail, or own the workspace.\<close>

datatype writer_answer = StillWaiting | SaveOwnershipFailed | WriterGranted

definition try_writer :: "time \<Rightarrow> bool \<Rightarrow> string \<Rightarrow> string \<Rightarrow> shared_writers \<Rightarrow> writer_answer \<times> shared_writers" where
  "try_writer now saved ws key s =
     (if may_write ws key s then
        let s = writer_acquired now ws key (s\<lparr>writers := (writers s)(ws \<mapsto> key)\<rparr>);
            (ok, s) = persist saved s
        in if \<not> ok then (SaveOwnershipFailed, remove_waiter ws key (s\<lparr>writers := (writers s)(ws := None)\<rparr>))
           else (WriterGranted, wake_writers (remove_waiter ws key s))
      else (StillWaiting, s))"

definition cancel_writer :: "string \<Rightarrow> string \<Rightarrow> shared_writers \<Rightarrow> shared_writers" where
  "cancel_writer ws key s = wake_writers (remove_waiter ws key s)"

definition drop_writer :: "time \<Rightarrow> bool \<Rightarrow> string \<Rightarrow> string \<Rightarrow> shared_writers \<Rightarrow> shared_writers" where
  "drop_writer now saved ws key s =
     (let s = writer_released now ws key s;
          s = s\<lparr>writers := (writers s)(ws := None), writer_closing := (writer_closing s)(key := False)\<rparr>
      in wake_writers (snd (persist saved s)))"

definition release_writer :: "time \<Rightarrow> bool \<Rightarrow> string \<Rightarrow> string \<Rightarrow> shared_writers \<Rightarrow> shared_writers" where
  "release_writer now saved ws key s =
     (if writers s ws = Some key then
        (if writer_turns s key > 0 then s\<lparr>writer_closing := (writer_closing s)(key := True)\<rparr>
         else drop_writer now saved ws key s)
      else s)"

definition retain_writer_turn :: "string \<Rightarrow> shared_writers \<Rightarrow> shared_writers" where
  "retain_writer_turn key s = s\<lparr>writer_turns := (writer_turns s)(key := writer_turns s key + 1)\<rparr>"

definition finish_writer_turn :: "time \<Rightarrow> bool \<Rightarrow> string \<Rightarrow> string \<Rightarrow> shared_writers \<Rightarrow> shared_writers" where
  "finish_writer_turn now saved ws key s =
     (let s = s\<lparr>writer_turns := (writer_turns s)(key := writer_turns s key - 1)\<rparr>
      in if writer_turns s key \<le> 0 then
           let s = s\<lparr>writer_turns := (writer_turns s)(key := 0)\<rparr>
           in if writer_closing s key \<and> writers s ws = Some key then drop_writer now saved ws key s else s
         else s)"

datatype stop_answer = Stopped | WriterActive | SaveStopFailed

definition confirm_stopped :: "time \<Rightarrow> bool \<Rightarrow> string \<Rightarrow> shared_writers \<Rightarrow> stop_answer \<times> shared_writers" where
  "confirm_stopped now saved ws s =
     (if writers s ws \<noteq> None then (WriterActive, s)
      else let old = recovery s ws;
               s = (case old of
                      None \<Rightarrow> s
                    | Some r \<Rightarrow> bump_revision ws (s\<lparr>last_writers := (last_writers s)(ws \<mapsto>
                          r\<lparr>released_at := Some now,
                            release_reason := ''host confirmed interrupted native workers stopped''\<rparr>),
                        recovery := (recovery s)(ws := None)\<rparr>));
               (ok, s) = persist saved s
           in if \<not> ok then (SaveStopFailed, case old of None \<Rightarrow> s | Some r \<Rightarrow> s\<lparr>recovery := (recovery s)(ws \<mapsto> r)\<rparr>)
              else (Stopped, wake_writers s))"

section \<open>Reported files\<close>

definition maxReportedFiles :: nat where "maxReportedFiles = 128"

text \<open>The loop over the first 128 paths.\<close>

definition merge_file :: "(string \<Rightarrow> string) \<Rightarrow> string list \<Rightarrow> string \<Rightarrow> string list" where
  "merge_file resolve files path =
     (if length files \<ge> maxReportedFiles then files
      else let p = resolve path in if p = '''' \<or> p \<in> set files then files else files @ [p])"

definition merge_files :: "(string \<Rightarrow> string) \<Rightarrow> string list \<Rightarrow> string list \<Rightarrow> string list" where
  "merge_files resolve files paths = foldl (merge_file resolve) files (take maxReportedFiles paths)"

definition record_files :: "bool \<Rightarrow> (string \<Rightarrow> string) \<Rightarrow> string \<Rightarrow> string list \<Rightarrow> string list \<Rightarrow>
    shared_writers \<Rightarrow> shared_writers" where
  "record_files saved resolve key intended observed s =
     (if intended = [] \<and> observed = [] then s
      else case records s key of
        None \<Rightarrow> s
      | Some r \<Rightarrow>
          let q = r\<lparr>intended_files := merge_files resolve (intended_files r) intended,
                    observed_files := merge_files resolve (observed_files r) observed\<rparr>;
              s = s\<lparr>records := (records s)(key \<mapsto> q)\<rparr>
          in if length (intended_files q) + length (observed_files q)
                \<noteq> length (intended_files r) + length (observed_files r)
             then snd (persist saved s) else s)"

section \<open>Turns\<close>

text \<open>
  The turns of the rooms around it (\<open>acquireSharedTurn\<close>): \<open>entered\<close> counts the turns that \<open>acquireWriter\<close>
  let pass and that have not yet looked whether their workflow still is the writer, \<open>turns_running\<close> those
  that hold a release function; \<open>live_workflows\<close> are the writers of their rooms, \<open>ended_workflows\<close> those that were
  and are not now: a workflow that was interrupted, or whose start could not be saved, is started again
  under the same id and acquires again.  A turn enters only for a workflow that was live when it looked.
  \<open>home\<close> gives the checkout of a workflow.
\<close>

record writer_system =
  shared :: shared_writers
  entered :: "string \<Rightarrow> nat"
  turns_running :: "string \<Rightarrow> nat"
  live_workflows :: "string set"
  ended_workflows :: "string set"

datatype writer_event =
  StartWorkflow string | EndWorkflow string | RegisterTurn string string string string participant
| EnterTurn string | TryTurn string | CancelTurn string | AdmitTurn string | FinishTurn string
| ReportFiles string "string list" "string list" | ConfirmStopped string

record writer_io =
  io_now :: time
  io_saved :: bool

definition count_up :: "string \<Rightarrow> (string \<Rightarrow> nat) \<Rightarrow> string \<Rightarrow> nat" where
  "count_up key f = f(key := f key + 1)"

definition count_down :: "string \<Rightarrow> (string \<Rightarrow> nat) \<Rightarrow> string \<Rightarrow> nat" where
  "count_down key f = f(key := f key - 1)"

abbreviation in_shared :: "(shared_writers \<Rightarrow> shared_writers) \<Rightarrow> writer_system \<Rightarrow> writer_system" where
  "in_shared f s \<equiv> s\<lparr>shared := f (shared s)\<rparr>"

fun writer_step :: "(string \<Rightarrow> string) \<Rightarrow> (string \<Rightarrow> string) \<Rightarrow> writer_event \<times> writer_io \<Rightarrow> writer_system \<Rightarrow>
    writer_system option" where
  "writer_step home resolve (StartWorkflow key, io) s =
     (if key \<in> live_workflows s then None
      else Some (s\<lparr>live_workflows := insert key (live_workflows s), ended_workflows := ended_workflows s - {key}\<rparr>))"
| "writer_step home resolve (EndWorkflow key, io) s =
     (if key \<notin> live_workflows s then None
      else Some (in_shared (release_writer (io_now io) (io_saved io) (home key) key)
             (s\<lparr>live_workflows := live_workflows s - {key}, ended_workflows := insert key (ended_workflows s)\<rparr>)))"
| "writer_step home resolve (RegisterTurn key room_id name workflow p, io) s =
     Some (in_shared (register_writer key room_id name workflow p) s)"
| "writer_step home resolve (EnterTurn key, io) s =
     (if key \<notin> live_workflows s \<union> ended_workflows s then None
      else let (owns, sh) = enter_writer (home key) key (shared s)
           in Some ((if owns then s\<lparr>entered := count_up key (entered s)\<rparr> else s)\<lparr>shared := sh\<rparr>))"
| "writer_step home resolve (TryTurn key, io) s =
     (if waiters (shared s) key \<le> 0 then None
      else let (a, sh) = try_writer (io_now io) (io_saved io) (home key) key (shared s)
           in Some ((if a = WriterGranted then s\<lparr>entered := count_up key (entered s)\<rparr> else s)\<lparr>shared := sh\<rparr>))"
| "writer_step home resolve (CancelTurn key, io) s =
     (if waiters (shared s) key \<le> 0 then None else Some (in_shared (cancel_writer (home key) key) s))"
| "writer_step home resolve (AdmitTurn key, io) s =
     (if entered s key = 0 then None
      else let s = s\<lparr>entered := count_down key (entered s)\<rparr>
           in if key \<in> live_workflows s
              then Some (in_shared (retain_writer_turn key) (s\<lparr>turns_running := count_up key (turns_running s)\<rparr>))
              else Some (in_shared (release_writer (io_now io) (io_saved io) (home key) key) s))"
| "writer_step home resolve (FinishTurn key, io) s =
     (if turns_running s key = 0 then None
      else Some (in_shared (finish_writer_turn (io_now io) (io_saved io) (home key) key)
             (s\<lparr>turns_running := count_down key (turns_running s)\<rparr>)))"
| "writer_step home resolve (ReportFiles key xs ys, io) s =
     Some (in_shared (record_files (io_saved io) resolve key xs ys) s)"
| "writer_step home resolve (ConfirmStopped ws, io) s =
     Some (in_shared (\<lambda>sh. snd (confirm_stopped (io_now io) (io_saved io) ws sh)) s)"

fun writer_run :: "(string \<Rightarrow> string) \<Rightarrow> (string \<Rightarrow> string) \<Rightarrow> (writer_event \<times> writer_io) list \<Rightarrow> writer_system \<Rightarrow>
    writer_system option" where
  "writer_run home resolve [] s = Some s"
| "writer_run home resolve (e # es) s =
     (case writer_step home resolve e s of None \<Rightarrow> None | Some s \<Rightarrow> writer_run home resolve es s)"

text \<open>A manager that starts with a journal.\<close>

definition start_writers :: "journal \<Rightarrow> writer_system" where
  "start_writers j = \<lparr>shared = configure_journal j new_shared_capacity, entered = (\<lambda>_. 0), turns_running = (\<lambda>_. 0),
     live_workflows = {}, ended_workflows = {}\<rparr>"

text \<open>
  Two steps can cost a running turn its ownership.  The journal is written when a second turn of the
  owner passes the queue: if that fails, the code gives the ownership up although the first turn may be
  running (\<open>owner_lost\<close> below).  And a workflow that starts again while turns of its former life are past
  the queue finds the checkout marked for release, or is taken for its former self (\<open>former_life\<close> below).
\<close>

fun keeps_owner :: "(string \<Rightarrow> string) \<Rightarrow> writer_event \<times> writer_io \<Rightarrow> writer_system \<Rightarrow> bool" where
  "keeps_owner home (TryTurn key, io) s \<longleftrightarrow> io_saved io \<or> writers (shared s) (home key) \<noteq> Some key"
| "keeps_owner home (StartWorkflow key, io) s \<longleftrightarrow> entered s key = 0 \<and> turns_running s key = 0"
| "keeps_owner home e s \<longleftrightarrow> True"

fun run_keeps_owner :: "(string \<Rightarrow> string) \<Rightarrow> (string \<Rightarrow> string) \<Rightarrow> (writer_event \<times> writer_io) list \<Rightarrow> writer_system \<Rightarrow> bool" where
  "run_keeps_owner home resolve [] s \<longleftrightarrow> True"
| "run_keeps_owner home resolve (e # es) s \<longleftrightarrow>
     keeps_owner home e s \<and>
     (case writer_step home resolve e s of None \<Rightarrow> True | Some s \<Rightarrow> run_keeps_owner home resolve es s)"

section \<open>Frame lemmas\<close>

lemma persist_simps [simp]:
  "writers (snd (persist saved s)) = writers s" "writer_turns (snd (persist saved s)) = writer_turns s"
  "writer_closing (snd (persist saved s)) = writer_closing s" "records (snd (persist saved s)) = records s"
  "recovery (snd (persist saved s)) = recovery s" "revisions (snd (persist saved s)) = revisions s"
  "journaled (snd (persist saved s)) = journaled s" "waiters (snd (persist saved s)) = waiters s"
  "writer_queue (snd (persist saved s)) = writer_queue s"
  by (auto simp: persist_def)

lemma acquired_simps [simp]:
  "writers (writer_acquired now ws key s) = writers s" "writer_turns (writer_acquired now ws key s) = writer_turns s"
  "writer_closing (writer_acquired now ws key s) = writer_closing s" "recovery (writer_acquired now ws key s) = recovery s"
  "journaled (writer_acquired now ws key s) = journaled s" "journal_file (writer_acquired now ws key s) = journal_file s"
  "journal_failed (writer_acquired now ws key s) = journal_failed s"
  by (auto simp: writer_acquired_def bump_revision_def split: option.split)

lemma released_simps [simp]:
  "writers (writer_released now ws key s) = writers s" "writer_turns (writer_released now ws key s) = writer_turns s"
  "writer_closing (writer_released now ws key s) = writer_closing s" "recovery (writer_released now ws key s) = recovery s"
  "journaled (writer_released now ws key s) = journaled s" "journal_file (writer_released now ws key s) = journal_file s"
  "journal_failed (writer_released now ws key s) = journal_failed s"
  by (auto simp: writer_released_def bump_revision_def Let_def split: option.split)

lemma remove_waiter_simps [simp]:
  "writers (remove_waiter ws key s) = writers s" "writer_turns (remove_waiter ws key s) = writer_turns s"
  "writer_closing (remove_waiter ws key s) = writer_closing s" "recovery (remove_waiter ws key s) = recovery s"
  "revisions (remove_waiter ws key s) = revisions s" "journaled (remove_waiter ws key s) = journaled s"
  "journal_file (remove_waiter ws key s) = journal_file s" "journal_failed (remove_waiter ws key s) = journal_failed s"
  by (auto simp: remove_waiter_def Let_def)

lemma wake_simps [simp]:
  "writers (wake_writers s) = writers s" "writer_turns (wake_writers s) = writer_turns s"
  "writer_closing (wake_writers s) = writer_closing s" "recovery (wake_writers s) = recovery s"
  "revisions (wake_writers s) = revisions s" "records (wake_writers s) = records s"
  "journaled (wake_writers s) = journaled s" "journal_file (wake_writers s) = journal_file s"
  "journal_failed (wake_writers s) = journal_failed s"
  by (simp_all add: wake_writers_def)

lemma drop_writer_simps [simp]:
  "writers (drop_writer now saved ws key s) = (writers s)(ws := None)"
  "writer_turns (drop_writer now saved ws key s) = writer_turns s"
  "writer_closing (drop_writer now saved ws key s) = (writer_closing s)(key := False)"
  by (simp_all add: drop_writer_def Let_def)

lemma record_files_simps [simp]:
  "writers (record_files saved resolve key xs ys s) = writers s"
  "writer_turns (record_files saved resolve key xs ys s) = writer_turns s"
  "writer_closing (record_files saved resolve key xs ys s) = writer_closing s"
  "waiters (record_files saved resolve key xs ys s) = waiters s"
  "recovery (record_files saved resolve key xs ys s) = recovery s"
  by (auto simp: record_files_def Let_def split: option.split)

section \<open>One writer per checkout\<close>

definition key_ok :: "(string \<Rightarrow> string) \<Rightarrow> writer_system \<Rightarrow> string \<Rightarrow> bool" where
  "key_ok home s key \<longleftrightarrow>
     writer_turns (shared s) key = int (turns_running s key) \<and>
     (turns_running s key > 0 \<longrightarrow> writers (shared s) (home key) = Some key) \<and>
     (key \<in> live_workflows s \<longrightarrow> entered s key > 0 \<longrightarrow> writers (shared s) (home key) = Some key) \<and>
     (entered s key > 0 \<or> waiters (shared s) key > 0 \<longrightarrow> key \<in> live_workflows s \<union> ended_workflows s) \<and>
     (writer_closing (shared s) key \<longrightarrow> key \<in> ended_workflows s \<and> turns_running s key > 0)"

definition writer_inv :: "(string \<Rightarrow> string) \<Rightarrow> writer_system \<Rightarrow> bool" where
  "writer_inv home s \<longleftrightarrow> live_workflows s \<inter> ended_workflows s = {} \<and> (\<forall>key. key_ok home s key)"

lemma writer_invD: "writer_inv home s \<Longrightarrow> key_ok home s key"
  by (simp add: writer_inv_def)

lemma writer_inv_disjoint: "writer_inv home s \<Longrightarrow> key \<in> live_workflows s \<Longrightarrow> key \<in> ended_workflows s \<Longrightarrow> False"
  by (auto simp: writer_inv_def)

lemma waiters_simps [simp]:
  "waiters (writer_acquired now ws key s) = waiters s" "waiters (writer_released now ws key s) = waiters s"
  "waiters (wake_writers s) = waiters s" "waiters (drop_writer now saved ws key s) = waiters s"
  "waiters (remove_waiter ws key s) = (waiters s)(key := max 0 (waiters s key - 1))"
  by (auto simp: writer_acquired_def writer_released_def wake_writers_def drop_writer_def remove_waiter_def
      bump_revision_def Let_def max_def split: option.split)

lemma writer_inv_frame:
  assumes "writer_inv home s" "live_workflows s' = live_workflows s" "ended_workflows s' = ended_workflows s"
    "entered s' = entered s" "turns_running s' = turns_running s" "writers (shared s') = writers (shared s)"
    "writer_turns (shared s') = writer_turns (shared s)" "writer_closing (shared s') = writer_closing (shared s)"
    "\<And>k. waiters (shared s') k > 0 \<Longrightarrow> waiters (shared s) k > 0 \<or> k \<in> live_workflows s \<union> ended_workflows s"
  shows "writer_inv home s'"
proof -
  have "key_ok home s' k" for k
    using writer_invD [OF assms(1), of k] assms(9) [of k] by (auto simp: key_ok_def assms(2-8))
  then show ?thesis using assms(1) by (simp add: writer_inv_def assms(2,3))
qed

text \<open>A step after which only one checkout changed hands.\<close>

lemma writer_inv_keys:
  assumes "live_workflows s' \<inter> ended_workflows s' = {}" "\<And>k. key_ok home s' k"
  shows "writer_inv home s'"
  using assms by (simp add: writer_inv_def)

lemma writer_inv_drop:
  assumes "writer_inv home s" "key \<in> ended_workflows s" "writers (shared s) (home key) = Some key" "turns_running s key = 0"
  shows "writer_inv home (in_shared (drop_writer now saved (home key) key) s)"
proof (rule writer_inv_keys)
  show "live_workflows (in_shared (drop_writer now saved (home key) key) s) \<inter>
      ended_workflows (in_shared (drop_writer now saved (home key) key) s) = {}"
    using assms(1) by (simp add: writer_inv_def)
  fix k
  have "k \<noteq> key \<Longrightarrow> home k = home key \<Longrightarrow> writers (shared s) (home k) \<noteq> Some k" using assms(3) by simp
  then show "key_ok home (in_shared (drop_writer now saved (home key) key) s) k"
    using writer_invD [OF assms(1), of k] writer_inv_disjoint [OF assms(1), of key] assms(2,4)
    by (cases "k = key"; cases "home k = home key") (auto simp: key_ok_def)
qed

lemma writer_inv_release:
  assumes "writer_inv home s" "key \<in> ended_workflows s"
  shows "writer_inv home (in_shared (release_writer now saved (home key) key) s)"
proof (cases "writers (shared s) (home key) = Some key \<and> turns_running s key = 0")
  case True
  then show ?thesis using writer_inv_drop [OF assms, of now saved] writer_invD [OF assms(1), of key]
    by (simp add: release_writer_def key_ok_def)
next
  case False
  have "key_ok home (in_shared (release_writer now saved (home key) key) s) k" for k
    using writer_invD [OF assms(1), of k] writer_invD [OF assms(1), of key] assms(2) False
    by (auto simp: key_ok_def release_writer_def)
  moreover have "live_workflows s \<inter> ended_workflows s = {}" using assms(1) by (simp add: writer_inv_def)
  ultimately show ?thesis by (simp add: writer_inv_def)
qed

lemma writer_inv_try:
  assumes "writer_inv home s" "keeps_owner home (TryTurn key, io) s" "writer_step home resolve (TryTurn key, io) s = Some s'"
  shows "writer_inv home s'"
proof -
  have w: "waiters (shared s) key > 0" using assms(3) by (auto split: if_splits)
  define sh where "sh = shared s"
  obtain a sh' where t: "try_writer (io_now io) (io_saved io) (home key) key sh = (a, sh')" by (cases "try_writer (io_now io) (io_saved io) (home key) key sh")
  have s': "s' = (if a = WriterGranted then s\<lparr>entered := count_up key (entered s)\<rparr> else s)\<lparr>shared := sh'\<rparr>"
    using assms(3) w t by (simp add: sh_def)
  show ?thesis
  proof (cases "may_write (home key) key sh")
    case False
    then have "a = StillWaiting" "sh' = sh" using t by (auto simp: try_writer_def)
    then show ?thesis unfolding s' using assms(1) by (simp add: sh_def)
  next
    case may: True
    have own: "writers sh (home key) = Some key \<or> writers sh (home key) = None" using may by (auto simp: may_write_def)
    show ?thesis
    proof (cases "a = WriterGranted")
      case True
      have "writers sh' = (writers sh)(home key \<mapsto> key)" "writer_turns sh' = writer_turns sh"
        "writer_closing sh' = writer_closing sh" "waiters sh' = (waiters sh)(key := max 0 (waiters sh key - 1))"
        using t may True by (auto simp: try_writer_def Let_def split_beta split: if_splits)
      note f = this
      have inv: "writer_turns sh k = int (turns_running s k)" "turns_running s k > 0 \<Longrightarrow> writers sh (home k) = Some k"
        "k \<in> live_workflows s \<Longrightarrow> entered s k > 0 \<Longrightarrow> writers sh (home k) = Some k"
        "entered s k > 0 \<or> waiters sh k > 0 \<Longrightarrow> k \<in> live_workflows s \<union> ended_workflows s"
        "writer_closing sh k \<Longrightarrow> k \<in> ended_workflows s \<and> turns_running s k > 0" for k
        using writer_invD [OF assms(1), of k] by (auto simp: key_ok_def sh_def)
      have keep: "writers sh' (home k) = Some k" if "writers sh (home k) = Some k" for k
        using that own f(1) by (cases "home k = home key") auto
      have s': "s' = s\<lparr>entered := count_up key (entered s), shared := sh'\<rparr>" by (simp add: s' True)
      show ?thesis
      proof (rule writer_inv_keys)
        show "live_workflows s' \<inter> ended_workflows s' = {}" using assms(1) by (simp add: s' writer_inv_def)
        fix k
        show "key_ok home s' k"
          using inv [of k] inv(4) [of key] keep [of k] f w unfolding key_ok_def
          by (cases "k = key") (auto simp: s' count_up_def sh_def)
      qed
    next
      case False
      then have "\<not> io_saved io" "writers sh' = (writers sh)(home key := None)" "writer_turns sh' = writer_turns sh"
        "writer_closing sh' = writer_closing sh" "waiters sh' = (waiters sh)(key := max 0 (waiters sh key - 1))"
        using t may by (auto simp: try_writer_def Let_def persist_def split: prod.splits if_splits)
      moreover from this have "writers sh (home key) = None" using assms(2) own by (simp add: sh_def)
      ultimately show ?thesis unfolding s' using assms(1) False
        by (intro writer_inv_frame [OF assms(1)]) (auto simp: sh_def fun_upd_idem split: if_splits)
    qed
  qed
qed

lemma writer_inv_finish:
  assumes "writer_inv home s" "writer_step home resolve (FinishTurn key, io) s = Some s'"
  shows "writer_inv home s'"
proof -
  have disj: "live_workflows s \<inter> ended_workflows s = {}" using assms(1) by (simp add: writer_inv_def)
  have pos: "turns_running s key > 0"
    and s': "s' = in_shared (finish_writer_turn (io_now io) (io_saved io) (home key) key)
      (s\<lparr>turns_running := count_down key (turns_running s)\<rparr>)"
    using assms(2) by (auto split: if_splits)
  have turns: "writer_turns (shared s) key = int (turns_running s key)"
    "writer_closing (shared s) key \<Longrightarrow> key \<in> ended_workflows s" "writers (shared s) (home key) = Some key"
    using writer_invD [OF assms(1), of key] pos by (auto simp: key_ok_def)
  let ?s = "s\<lparr>turns_running := count_down key (turns_running s),
    shared := (shared s)\<lparr>writer_turns := (writer_turns (shared s))(key := int (turns_running s key - 1))\<rparr>\<rparr>"
  show ?thesis
  proof (cases "turns_running s key = 1 \<and> writer_closing (shared s) key")
    case True
    then have s'': "s' = in_shared (drop_writer (io_now io) (io_saved io) (home key) key) ?s"
      using turns by (simp add: s' finish_writer_turn_def Let_def)
    have "k \<noteq> key \<Longrightarrow> home k = home key \<Longrightarrow> writers (shared s) (home k) \<noteq> Some k" for k using turns(3) by simp
    then have "key_ok home s' k" for k
      using writer_invD [OF assms(1), of k] writer_inv_disjoint [OF assms(1), of key] True turns
      by (cases "k = key"; cases "home k = home key") (auto simp: key_ok_def s'' count_down_def)
    then show ?thesis using disj by (intro writer_inv_keys) (auto simp: s'')
  next
    case False
    then have "key_ok home ?s k" for k
      using writer_invD [OF assms(1), of k] pos by (cases "k = key") (auto simp: key_ok_def count_down_def)
    then have "writer_inv home ?s" using disj by (intro writer_inv_keys) auto
    moreover have "s' = ?s" using turns pos False
      by (cases "turns_running s key = 1") (auto simp: s' finish_writer_turn_def Let_def of_nat_diff)
    ultimately show ?thesis by simp
  qed
qed

lemma writer_inv_admit:
  assumes "writer_inv home s" "writer_step home resolve (AdmitTurn key, io) s = Some s'"
  shows "writer_inv home s'"
proof -
  have disj: "live_workflows s \<inter> ended_workflows s = {}" using assms(1) by (simp add: writer_inv_def)
  let ?s = "s\<lparr>entered := count_down key (entered s)\<rparr>"
  have pos: "entered s key > 0" using assms(2) by (auto split: if_splits)
  have "key_ok home ?s k" for k
    using writer_invD [OF assms(1), of k] by (auto simp: key_ok_def count_down_def)
  then have inv: "writer_inv home ?s" using disj by (intro writer_inv_keys) auto
  show ?thesis
  proof (cases "key \<in> live_workflows s")
    case True
    then have s': "s' = in_shared (retain_writer_turn key) (?s\<lparr>turns_running := count_up key (turns_running s)\<rparr>)"
      using assms(2) pos by simp
    have "key_ok home s' k" for k
      using writer_invD [OF assms(1), of k] True pos
      by (auto simp: key_ok_def s' count_up_def count_down_def retain_writer_turn_def)
    then show ?thesis using disj by (intro writer_inv_keys) (auto simp: s')
  next
    case False
    then have "key \<in> ended_workflows s" using writer_invD [OF assms(1), of key] pos by (auto simp: key_ok_def)
    with writer_inv_release [OF inv, of key] False assms(2) pos show ?thesis by auto
  qed
qed

lemma writer_inv_step:
  assumes "writer_inv home s" "keeps_owner home e s" "writer_step home resolve e s = Some s'"
  shows "writer_inv home s'"
proof -
  obtain c io where e: "e = (c, io)" by (cases e)
  have disj: "live_workflows s \<inter> ended_workflows s = {}" using assms(1) by (simp add: writer_inv_def)
  show ?thesis
  proof (cases c)
    case (StartWorkflow key)
    then have s': "s' = s\<lparr>live_workflows := insert key (live_workflows s), ended_workflows := ended_workflows s - {key}\<rparr>"
      and "entered s key = 0" "turns_running s key = 0"
      using assms(2,3) by (auto simp: e split: if_splits)
    then have "key_ok home s' k" for k
      using writer_invD [OF assms(1), of k] by (cases "k = key") (auto simp: key_ok_def)
    then show ?thesis using s' disj by (intro writer_inv_keys) auto
  next
    case (EndWorkflow key)
    let ?s = "s\<lparr>live_workflows := live_workflows s - {key}, ended_workflows := insert key (ended_workflows s)\<rparr>"
    have "key_ok home ?s k" for k using writer_invD [OF assms(1), of k] by (auto simp: key_ok_def)
    then have "writer_inv home ?s" using disj by (intro writer_inv_keys) auto
    from writer_inv_release [OF this, of key] assms(3) show ?thesis by (auto simp: e EndWorkflow split: if_splits)
  next
    case (RegisterTurn key r n w p)
    with assms(3) show ?thesis
      by (intro writer_inv_frame [OF assms(1)]) (auto simp: e register_writer_def Let_def)
  next
    case (EnterTurn key)
    then have k: "key \<in> live_workflows s \<union> ended_workflows s" using assms(3) by (auto simp: e split: if_splits)
    show ?thesis
    proof (cases "writers (shared s) (home key) = Some key")
      case True
      then have s': "s' = s\<lparr>entered := count_up key (entered s)\<rparr>"
        using assms(3) k by (auto simp: e EnterTurn enter_writer_def split: if_splits)
      have "key_ok home s' k" for k
        using writer_invD [OF assms(1), of k] True k \<open>key \<in> _\<close> by (auto simp: key_ok_def s' count_up_def)
      then show ?thesis using disj by (intro writer_inv_keys) (auto simp: s')
    next
      case False
      with assms(3) k show ?thesis
        by (intro writer_inv_frame [OF assms(1)])
          (auto simp: e EnterTurn enter_writer_def writer_wanted_def Let_def split: if_splits)
    qed
  next
    case (TryTurn key)
    then show ?thesis using writer_inv_try assms e by blast
  next
    case (CancelTurn key)
    with assms(3) show ?thesis
      by (intro writer_inv_frame [OF assms(1)]) (auto simp: e cancel_writer_def split: if_splits)
  next
    case (AdmitTurn key)
    then show ?thesis using writer_inv_admit assms e by blast
  next
    case (FinishTurn key)
    then show ?thesis using writer_inv_finish assms e by blast
  next
    case (ReportFiles key xs ys)
    with assms(3) show ?thesis
      by (intro writer_inv_frame [OF assms(1)]) (auto simp: e)
  next
    case (ConfirmStopped ws)
    with assms(3) show ?thesis
      by (intro writer_inv_frame [OF assms(1)])
        (auto simp: e confirm_stopped_def bump_revision_def Let_def split_beta split: option.splits if_splits)
  qed
qed

lemma writer_inv_start: "writer_inv home (start_writers j)"
  by (simp add: writer_inv_def key_ok_def start_writers_def configure_journal_def new_shared_capacity_def)

lemma writer_inv_run:
  "writer_inv home s \<Longrightarrow> run_keeps_owner home resolve es s \<Longrightarrow> writer_run home resolve es s = Some s' \<Longrightarrow> writer_inv home s'"
proof (induction es arbitrary: s)
  case (Cons e es)
  then show ?case by (auto split: option.splits dest: writer_inv_step)
qed simp

section \<open>The journal knows every owner\<close>

text \<open>The record of a workflow shows that it acquired its checkout.\<close>

definition acquired :: "shared_writers \<Rightarrow> string \<Rightarrow> bool" where
  "acquired s key \<longleftrightarrow> (case records s key of None \<Rightarrow> False | Some r \<Rightarrow> acquired_at r \<noteq> None)"

definition journal_base :: "(string \<Rightarrow> string) \<Rightarrow> shared_writers \<Rightarrow> bool" where
  "journal_base home s \<longleftrightarrow> journaled s \<and>
     (\<forall>key. acquired s key \<longrightarrow> revisions s (home key) \<noteq> None) \<and>
     (\<forall>ws key. writers s ws = Some key \<longrightarrow> home key = ws)"

definition owners_journaled :: "shared_writers \<Rightarrow> bool" where
  "owners_journaled s \<longleftrightarrow>
     (\<forall>ws key. writers s ws = Some key \<longrightarrow> acquired s key \<longrightarrow>
        (\<exists>a. journal_file s ws = Some a \<and> act_owner a \<noteq> None))"

lemma journal_of_owner:
  assumes "journal_base home s" "writers s ws = Some key" "acquired s key"
  shows "\<exists>a. journal_of s ws = Some a \<and> act_owner a \<noteq> None"
proof -
  have "home key = ws" using assms(1,2) unfolding journal_base_def by blast
  then have "revisions s ws \<noteq> None" using assms(1,3) unfolding journal_base_def by blast
  then show ?thesis using assms(2,3)
    by (simp add: journal_of_def snapshot_def owner_record_def acquired_def split: option.splits)
qed

lemma persist_journaled:
  assumes "journal_base home s" "\<not> saved \<Longrightarrow> owners_journaled s"
  shows "journal_base home (snd (persist saved s)) \<and> owners_journaled (snd (persist saved s))"
proof
  show "journal_base home (snd (persist saved s))" using assms(1) by (simp add: journal_base_def acquired_def)
  show "owners_journaled (snd (persist saved s))"
  proof (cases saved)
    case True
    then have "journal_file (snd (persist saved s)) = journal_of s"
      using assms(1) by (simp add: persist_def journal_base_def)
    then show ?thesis using journal_of_owner [OF assms(1)] by (simp add: owners_journaled_def acquired_def)
  next
    case False
    then have "journal_file (snd (persist saved s)) = journal_file s" by (simp add: persist_def)
    then show ?thesis using assms(2) [OF False] by (simp add: owners_journaled_def acquired_def)
  qed
qed

text \<open>Fewer records or owners, and records that were not acquired, need no journal.\<close>

definition weaker :: "shared_writers \<Rightarrow> shared_writers \<Rightarrow> bool" where
  "weaker s' s \<longleftrightarrow>
     journaled s' = journaled s \<and> journal_file s' = journal_file s \<and>
     (\<forall>ws. revisions s ws \<noteq> None \<longrightarrow> revisions s' ws \<noteq> None) \<and>
     (\<forall>ws key. writers s' ws = Some key \<longrightarrow> writers s ws = Some key) \<and>
     (\<forall>key. acquired s' key \<longrightarrow> acquired s key)"

lemma weaker_journaled:
  assumes "weaker s' s" "journal_base home s"
  shows "journal_base home s'" "owners_journaled s \<Longrightarrow> owners_journaled s'"
proof -
  show "journal_base home s'" unfolding journal_base_def
    using assms unfolding weaker_def journal_base_def by metis
  show "owners_journaled s \<Longrightarrow> owners_journaled s'" unfolding owners_journaled_def
    using assms unfolding weaker_def by metis
qed

lemma weaker_trans: "weaker s2 s1 \<Longrightarrow> weaker s1 s \<Longrightarrow> weaker s2 s"
  unfolding weaker_def by metis

lemma weakerI:
  assumes "journaled s' = journaled s" "journal_file s' = journal_file s"
    "\<And>ws. revisions s ws \<noteq> None \<Longrightarrow> revisions s' ws \<noteq> None"
    "\<And>ws key. writers s' ws = Some key \<Longrightarrow> writers s ws = Some key"
    "\<And>key. acquired s' key \<Longrightarrow> acquired s key"
  shows "weaker s' s"
  using assms by (simp add: weaker_def)

lemma acquired_simps2:
  "acquired (remove_waiter ws key s) k \<Longrightarrow> acquired s k"
  "acquired (register_writer key r n w p s) k \<Longrightarrow> acquired s k"
  "acquired (writer_released now ws key s) k \<Longrightarrow> acquired s k"
  by (auto simp: acquired_def remove_waiter_def register_writer_def writer_released_def bump_revision_def Let_def
      split: if_splits option.splits)

lemma weaker_remove: "weaker (remove_waiter ws key s) s"
  by (rule weakerI) (simp_all, rule acquired_simps2(1))

lemma weaker_register: "weaker (register_writer key r n w p s) s"
  by (rule weakerI) (auto simp: register_writer_def Let_def acquired_def split: if_splits option.splits)

lemma weaker_frame:
  "weaker (wake_writers s) s" "weaker (writer_wanted ws key s) s" "weaker (retain_writer_turn key s) s"
  "weaker (s\<lparr>writer_turns := t\<rparr>) s" "weaker (s\<lparr>writer_closing := c\<rparr>) s"
  by (auto intro!: weakerI simp: wake_writers_def writer_wanted_def retain_writer_turn_def acquired_def Let_def)

abbreviation journal_inv :: "(string \<Rightarrow> string) \<Rightarrow> shared_writers \<Rightarrow> bool" where
  "journal_inv home s \<equiv> journal_base home s \<and> owners_journaled s"

lemma weaker_inv: "journal_inv home s \<Longrightarrow> weaker s' s \<Longrightarrow> journal_inv home s'"
  using weaker_journaled by blast

lemma drop_writer_journal: "journal_inv home s \<Longrightarrow> journal_inv home (drop_writer now saved ws key s)"
proof -
  assume inv: "journal_inv home s"
  let ?s = "(writer_released now ws key s)\<lparr>writers := (writers s)(ws := None), writer_closing := (writer_closing s)(key := False)\<rparr>"
  have "weaker ?s s"
    by (rule weakerI) (auto simp: acquired_def writer_released_def bump_revision_def Let_def split: option.splits if_splits)
  from weaker_inv [OF inv this] persist_journaled [of home ?s saved]
  have "journal_inv home (snd (persist saved ?s))" by blast
  from weaker_inv [OF this weaker_frame(1)] show ?thesis by (simp add: drop_writer_def Let_def)
qed

lemma acquired_writer_acquired: "k \<noteq> key \<Longrightarrow> acquired (writer_acquired now ws key s) k = acquired s k"
  by (simp add: acquired_def writer_acquired_def bump_revision_def split: option.split)

text \<open>The state that \<open>try_writer\<close> writes to the journal.\<close>

definition owning :: "time \<Rightarrow> string \<Rightarrow> string \<Rightarrow> shared_writers \<Rightarrow> shared_writers" where
  "owning now ws key s = writer_acquired now ws key (s\<lparr>writers := (writers s)(ws \<mapsto> key)\<rparr>)"

lemma owning_base:
  assumes "journal_base home s"
  shows "journal_base home (owning now (home key) key s)"
proof -
  have "revisions (owning now (home key) key s) (home k) \<noteq> None" if "acquired (owning now (home key) key s) k" for k
  proof (cases "k = key")
    case True
    then show ?thesis using that assms
      by (auto simp: owning_def acquired_def writer_acquired_def bump_revision_def journal_base_def split: option.splits if_splits)
  next
    case False
    then have "acquired s k" using that acquired_writer_acquired [of k key]
      by (simp add: owning_def) (simp add: acquired_def)
    then have "revisions s (home k) \<noteq> None" using assms by (simp add: journal_base_def)
    then show ?thesis by (auto simp: owning_def writer_acquired_def bump_revision_def split: option.split)
  qed
  then show ?thesis using assms by (simp add: journal_base_def owning_def)
qed

lemma try_writer_cases:
  "may_write ws key s \<Longrightarrow> journaled s \<Longrightarrow> snd (try_writer now saved ws key s) =
     (let t = snd (persist saved (owning now ws key s))
      in if saved then wake_writers (remove_waiter ws key t)
         else remove_waiter ws key (t\<lparr>writers := (writers t)(ws := None)\<rparr>))"
  by (simp add: try_writer_def owning_def persist_def Let_def split_beta)

lemma try_writer_journal:
  assumes "journal_inv home s"
  shows "journal_inv home (snd (try_writer now saved (home key) key s))"
proof (cases "may_write (home key) key s")
  case True
  have j: "journaled s" using assms by (simp add: journal_base_def)
  let ?s = "owning now (home key) key s" and ?p = "snd (persist saved (owning now (home key) key s))"
  have base: "journal_base home ?s" using assms by (simp add: owning_base)
  show ?thesis
  proof (cases saved)
    case True
    then have "journal_inv home ?p" using persist_journaled [OF base, of saved] by simp
    from weaker_inv [OF this weaker_trans [OF weaker_frame(1) weaker_remove]]
    show ?thesis by (simp add: try_writer_cases [OF \<open>may_write (home key) key s\<close> j] Let_def True)
  next
    case False
    let ?t = "?p\<lparr>writers := (writers ?p)(home key := None)\<rparr>"
    have base_t: "journal_base home ?t" using base by (simp add: journal_base_def acquired_def)
    have jf: "journal_file ?t = journal_file s" using False by (simp add: persist_def owning_def)
    have old: "writers s ws = Some k \<and> acquired s k" if "writers ?t ws = Some k" "acquired ?t k" for ws k
    proof -
      have w: "ws \<noteq> home key" "writers s ws = Some k" using that(1) by (auto simp: owning_def split: if_splits)
      then have "k \<noteq> key" using assms by (auto simp: journal_base_def)
      moreover have "acquired ?s k" using that(2) by (simp add: acquired_def)
      ultimately have "acquired s k" using acquired_writer_acquired [of k key]
        by (simp add: owning_def) (simp add: acquired_def)
      with w show ?thesis by simp
    qed
    have "owners_journaled ?t" using assms unfolding owners_journaled_def jf using old by blast
    with base_t have "journal_inv home ?t" by simp
    from weaker_inv [OF this weaker_remove] show ?thesis
      by (simp add: try_writer_cases [OF \<open>may_write (home key) key s\<close> j] Let_def False)
  qed
qed (use assms in \<open>simp add: try_writer_def\<close>)

lemma acquired_bump: "acquired (bump_revision ws s) = acquired s"
  by (simp add: acquired_def bump_revision_def fun_eq_iff)

lemma record_files_journal:
  assumes "journal_inv home s"
  shows "journal_inv home (record_files saved resolve key xs ys s)"
proof (cases "records s key")
  case None
  then show ?thesis using assms by (simp add: record_files_def)
next
  case (Some r)
  let ?q = "r\<lparr>intended_files := merge_files resolve (intended_files r) xs,
              observed_files := merge_files resolve (observed_files r) ys\<rparr>"
  let ?s = "s\<lparr>records := (records s)(key \<mapsto> ?q)\<rparr>"
  have "acquired ?s k = acquired s k" for k using Some by (simp add: acquired_def)
  then have "weaker ?s s" by (intro weakerI) auto
  from weaker_inv [OF assms this] have "journal_inv home ?s" .
  with persist_journaled [of home ?s saved] assms show ?thesis
    by (auto simp: record_files_def Some Let_def)
qed

lemma confirm_stopped_journal:
  assumes "journal_inv home s"
  shows "journal_inv home (snd (confirm_stopped now saved ws s))"
proof (cases "writers s ws = None")
  case True
  define t where "t = (case recovery s ws of
      None \<Rightarrow> s
    | Some r \<Rightarrow> bump_revision ws (s\<lparr>last_writers := (last_writers s)(ws \<mapsto> r\<lparr>released_at := Some now,
          release_reason := ''host confirmed interrupted native workers stopped''\<rparr>),
        recovery := (recovery s)(ws := None)\<rparr>))"
  have "weaker t s"
    by (rule weakerI) (auto simp: t_def acquired_bump bump_revision_def split: option.splits, simp_all add: acquired_def)
  from weaker_inv [OF assms this] persist_journaled [of home t saved]
  have p: "journal_inv home (snd (persist saved t))" by blast
  moreover have "weaker (snd (persist saved t)\<lparr>recovery := rec\<rparr>) (snd (persist saved t))" for rec
    by (rule weakerI) (simp_all add: acquired_def)
  ultimately have "journal_inv home (snd (persist saved t)\<lparr>recovery := rec\<rparr>)" for rec
    using weaker_inv by blast
  moreover have "snd (confirm_stopped now saved ws s) =
      (if fst (persist saved t) then wake_writers (snd (persist saved t))
       else case recovery s ws of None \<Rightarrow> snd (persist saved t)
            | Some r \<Rightarrow> (snd (persist saved t))\<lparr>recovery := (recovery t)(ws \<mapsto> r)\<rparr>)"
    using True by (cases "recovery s ws") (simp_all add: confirm_stopped_def t_def Let_def split_beta)
  ultimately show ?thesis using p weaker_inv [OF p weaker_frame(1)] by (auto split: option.split)
qed (use assms in \<open>simp add: confirm_stopped_def\<close>)

lemma release_writer_journal: "journal_inv home s \<Longrightarrow> journal_inv home (release_writer now saved ws key s)"
  using drop_writer_journal weaker_inv [OF _ weaker_frame(5)] by (auto simp: release_writer_def)

lemma finish_writer_journal: "journal_inv home s \<Longrightarrow> journal_inv home (finish_writer_turn now saved ws key s)"
proof -
  assume inv: "journal_inv home s"
  have t: "journal_inv home (s\<lparr>writer_turns := t\<rparr>)" for t by (rule weaker_inv [OF inv weaker_frame(4)])
  show ?thesis using t drop_writer_journal [OF t] by (simp add: finish_writer_turn_def Let_def)
qed

lemma journal_step:
  assumes "journal_inv home (shared s)" "writer_step home resolve e s = Some s'"
  shows "journal_inv home (shared s')"
proof -
  obtain c io where e: "e = (c, io)" by (cases e)
  note w = weaker_inv [OF assms(1)]
  show ?thesis
  proof (cases c)
    case (StartWorkflow key)
    then show ?thesis using assms by (auto simp: e split: if_splits)
  next
    case (EndWorkflow key)
    then show ?thesis using assms release_writer_journal by (auto simp: e split: if_splits)
  next
    case (RegisterTurn key r n wf p)
    then show ?thesis using assms(2) w [OF weaker_register [of key r n wf p]] by (auto simp: e)
  next
    case (EnterTurn key)
    then show ?thesis using assms w [OF weaker_frame(2) [of "home key" key]]
      by (auto simp: e enter_writer_def split: if_splits)
  next
    case (TryTurn key)
    then show ?thesis
      using assms(2) try_writer_journal [OF assms(1), of "io_now io" "io_saved io" key] by (auto simp: e split_beta Let_def split: if_splits)
  next
    case (CancelTurn key)
    then show ?thesis using assms(2) w [OF weaker_trans [OF weaker_frame(1) weaker_remove]]
      by (auto simp: e cancel_writer_def split: if_splits)
  next
    case (AdmitTurn key)
    then show ?thesis using assms release_writer_journal w [OF weaker_frame(3) [of key]]
      by (auto simp: e Let_def split: if_splits)
  next
    case (FinishTurn key)
    then show ?thesis using assms finish_writer_journal by (auto simp: e split: if_splits)
  next
    case (ReportFiles key xs ys)
    then show ?thesis using assms record_files_journal by (auto simp: e)
  next
    case (ConfirmStopped ws)
    then show ?thesis using assms confirm_stopped_journal by (auto simp: e)
  qed
qed

lemma journal_start: "journal_inv home (shared (start_writers j))"
  by (simp add: journal_base_def owners_journaled_def acquired_def start_writers_def configure_journal_def new_shared_capacity_def)

lemma journal_run:
  "journal_inv home (shared s) \<Longrightarrow> writer_run home resolve es s = Some s' \<Longrightarrow> journal_inv home (shared s')"
proof (induction es arbitrary: s)
  case (Cons e es)
  from Cons.prems(2) obtain s1 where s1: "writer_step home resolve e s = Some s1" "writer_run home resolve es s1 = Some s'"
    by (auto split: option.splits)
  show ?case by (rule Cons.IH [OF journal_step [OF Cons.prems(1) s1(1)] s1(2)])
qed simp

section \<open>A recovery hold blocks every writer\<close>

definition held :: "string \<Rightarrow> shared_writers \<Rightarrow> bool" where
  "held ws s \<longleftrightarrow> recovery s ws \<noteq> None \<and> writers s ws = None"

lemma drop_writer_held: "held ws s \<Longrightarrow> held ws (drop_writer now saved w key s)"
  by (simp add: held_def drop_writer_def Let_def)

lemma held_frame: "recovery s' = recovery s \<Longrightarrow> writers s' = writers s \<Longrightarrow> held ws s \<Longrightarrow> held ws s'"
  by (simp add: held_def)

lemma confirm_other: "w \<noteq> ws \<Longrightarrow> held ws s \<Longrightarrow> held ws (snd (confirm_stopped now saved w s))"
  by (auto simp: held_def confirm_stopped_def bump_revision_def Let_def split_beta split: option.split)

lemma try_writer_held: "held ws s \<Longrightarrow> held ws (snd (try_writer now saved w key s))"
  by (auto simp: held_def try_writer_def may_write_def Let_def split_beta)

lemma held_step:
  assumes "held ws (shared s)" "writer_step home resolve e s = Some s'" "fst e \<noteq> ConfirmStopped ws"
  shows "held ws (shared s')"
proof -
  obtain c io where e: "e = (c, io)" by (cases e)
  note f = held_frame [OF _ _ assms(1)]
  show ?thesis
  proof (cases c)
    case (TryTurn key)
    then show ?thesis using assms(2) try_writer_held [OF assms(1)] by (auto simp: e split_beta Let_def split: if_splits)
  next
    case (ConfirmStopped w)
    then show ?thesis using assms confirm_other by (auto simp: e)
  next
    case (EndWorkflow key)
    then show ?thesis using assms(1,2) drop_writer_held f by (auto simp: e release_writer_def split: if_splits)
  next
    case (AdmitTurn key)
    then show ?thesis using assms(1,2) drop_writer_held f
      by (auto simp: e release_writer_def retain_writer_turn_def Let_def split: if_splits)
  next
    case (FinishTurn key)
    then show ?thesis using assms(1,2) drop_writer_held f
      by (auto simp: e finish_writer_turn_def Let_def held_def drop_writer_held split: if_splits)
  qed (use assms(2) f in \<open>auto simp: e register_writer_def enter_writer_def writer_wanted_def cancel_writer_def Let_def
      split: if_splits intro!: f\<close>)
qed

lemma held_run:
  "held ws (shared s) \<Longrightarrow> writer_run home resolve es s = Some s' \<Longrightarrow> ConfirmStopped ws \<notin> set (map fst es) \<Longrightarrow>
   held ws (shared s')"
proof (induction es arbitrary: s)
  case (Cons e es)
  from Cons.prems(2) obtain s1 where s1: "writer_step home resolve e s = Some s1" "writer_run home resolve es s1 = Some s'"
    by (auto split: option.splits)
  have "held ws (shared s1)" by (rule held_step [OF Cons.prems(1) s1(1)]) (use Cons.prems(3) in auto)
  with Cons s1(2) show ?case by simp
qed simp

section \<open>Properties\<close>



text \<open>A workflow with one running turn, and one of another room that waits for the same checkout.\<close>

definition one_checkout :: "string \<Rightarrow> string" where
  "one_checkout key = (if key = ''c:3'' then ''/other'' else ''/repo'')"

definition ok_io :: writer_io where "ok_io = \<lparr>io_now = 0, io_saved = True\<rparr>"
definition failing_io :: writer_io where "failing_io = \<lparr>io_now = 0, io_saved = False\<rparr>"

definition sample_turns :: "(writer_event \<times> writer_io) list" where
  "sample_turns = map (\<lambda>e. (e, ok_io))
     [StartWorkflow ''a:1'', RegisterTurn ''a:1'' ''a'' ''a'' ''1'' Codex, EnterTurn ''a:1'', TryTurn ''a:1'', AdmitTurn ''a:1'',
      StartWorkflow ''b:2'', RegisterTurn ''b:2'' ''b'' ''b'' ''2'' Claude, EnterTurn ''b:2'', TryTurn ''b:2'']"

definition sample_writers :: writer_system where
  "sample_writers = the (writer_run one_checkout id sample_turns (start_writers Map.empty))"

lemmas writer_eval = start_writers_def configure_journal_def new_shared_capacity_def one_checkout_def ok_io_def failing_io_def
  register_writer_def enter_writer_def writer_wanted_def try_writer_def may_write_def writer_acquired_def bump_revision_def
  revision_of_def persist_def remove_waiter_def wake_writers_def retain_writer_turn_def count_up_def count_down_def
  release_writer_def drop_writer_def writer_released_def

lemma sample_writers_run:
  "writer_run one_checkout id sample_turns (start_writers Map.empty) = Some sample_writers"
  "run_keeps_owner one_checkout id sample_turns (start_writers Map.empty)"
  "turns_running sample_writers ''a:1'' = 1" "writers (shared sample_writers) ''/repo'' = Some ''a:1''"
  "acquired (shared sample_writers) ''a:1''" "writer_queue (shared sample_writers) ''/repo'' = [''b:2'']"
  by (simp_all add: sample_writers_def sample_turns_def writer_eval Let_def acquired_def)


text \<open>After a crash the other room starts and waits for the checkout.\<close>

definition after_crash :: "(writer_event \<times> writer_io) list" where
  "after_crash = map (\<lambda>e. (e, ok_io)) [StartWorkflow ''b:3'', EnterTurn ''b:3'', TryTurn ''b:3'']"

lemma after_crash_run:
  "\<exists>s'. writer_run one_checkout id after_crash (start_writers (journal_file (shared sample_writers))) = Some s'"
  by (simp add: after_crash_def writer_eval Let_def split_beta split: option.split)


text \<open>
  What happens when the journal cannot be written for a second turn of the owner: the code gives the
  checkout up while the first turn runs, and once another checkout has been released (its journal
  write clears the failure) a workflow of another room writes beside it.
\<close>

definition lost_owner :: "(writer_event \<times> writer_io) list" where
  "lost_owner =
     [(StartWorkflow ''c:3'', ok_io), (EnterTurn ''c:3'', ok_io), (TryTurn ''c:3'', ok_io),
      (StartWorkflow ''a:1'', ok_io), (EnterTurn ''a:1'', ok_io), (EnterTurn ''a:1'', ok_io), (TryTurn ''a:1'', ok_io),
      (AdmitTurn ''a:1'', ok_io), (TryTurn ''a:1'', failing_io), (EndWorkflow ''c:3'', ok_io),
      (StartWorkflow ''b:2'', ok_io), (EnterTurn ''b:2'', ok_io), (TryTurn ''b:2'', ok_io), (AdmitTurn ''b:2'', ok_io)]"

lemma owner_lost:
  "\<exists>s. writer_run one_checkout id lost_owner (start_writers Map.empty) = Some s \<and>
     turns_running s ''a:1'' = 1 \<and> turns_running s ''b:2'' = 1 \<and> one_checkout ''a:1'' = one_checkout ''b:2''"
  by (simp add: lost_owner_def writer_eval Let_def)

text \<open>
  What happens when a workflow is interrupted with one turn running and another just past the queue, and
  is started again under its id: the release that its end asked for happens when the first turn finishes,
  another room acquires the checkout, and the second turn is admitted because the workflow is the writer
  of its room again.
\<close>

definition restarted :: "(writer_event \<times> writer_io) list" where
  "restarted = map (\<lambda>e. (e, ok_io))
     [StartWorkflow ''a:1'', EnterTurn ''a:1'', TryTurn ''a:1'', AdmitTurn ''a:1'', EnterTurn ''a:1'',
      EndWorkflow ''a:1'', StartWorkflow ''a:1'', FinishTurn ''a:1'',
      StartWorkflow ''b:2'', EnterTurn ''b:2'', TryTurn ''b:2'', AdmitTurn ''b:2'', AdmitTurn ''a:1'']"

lemma former_life:
  "\<exists>s. writer_run one_checkout id restarted (start_writers Map.empty) = Some s \<and>
     turns_running s ''a:1'' = 1 \<and> turns_running s ''b:2'' = 1 \<and> one_checkout ''a:1'' = one_checkout ''b:2''"
  by (simp add: restarted_def writer_eval finish_writer_turn_def Let_def)

text \<open>
  Two turns register, the first waits and gives up, which deletes the record they share, and the second
  acquires the checkout without one: the owner is not in the journal.
\<close>

definition two_registered :: "(writer_event \<times> writer_io) list" where
  "two_registered = map (\<lambda>e. (e, ok_io))
     [StartWorkflow ''a:1'', RegisterTurn ''a:1'' ''a'' ''a'' ''1'' Codex, EnterTurn ''a:1'',
      RegisterTurn ''a:1'' ''a'' ''a'' ''1'' Claude, CancelTurn ''a:1'', EnterTurn ''a:1'', TryTurn ''a:1'', AdmitTurn ''a:1'']"

lemma unrecorded_owner:
  "\<exists>s. writer_run one_checkout id two_registered (start_writers Map.empty) = Some s \<and>
     writers (shared s) ''/repo'' = Some ''a:1'' \<and> turns_running s ''a:1'' = 1 \<and> journal_file (shared s) ''/repo'' = None"
  by (simp add: two_registered_def writer_eval cancel_writer_def journal_of_def Let_def)

end
