(* ===== verification/Router.thy ===== *)
theory Router
  imports Mo_Prelude
begin

text \<open>
  One private ChatGPT connection routed to isolated rooms, \<^verbatim>\<open>internal/roommanager/router.go\<close>:
  \<open>Enable\<close>, \<open>Close\<close>, \<open>SetRoomEnabled\<close>, \<open>Authenticate\<close>, \<open>Handle\<close> with \<open>joinLocked\<close>.  The rooms on disk
  and the routing file are part of the state; what the room's own service, the random source and the
  disk answer is an argument of each operation.
\<close>

section \<open>State\<close>

record routing_state =
  panel_requested :: "string \<rightharpoonup> bool"
  room_created :: "string \<rightharpoonup> bool"
  bindings :: "string \<rightharpoonup> string"
  creations :: "string \<rightharpoonup> string"
  room_disabled :: "string \<rightharpoonup> bool"

definition empty_routing :: routing_state where
  "empty_routing = \<lparr>panel_requested = Map.empty, room_created = Map.empty, bindings = Map.empty,
     creations = Map.empty, room_disabled = Map.empty\<rparr>"

text \<open>A Go map reads as the zero value where it has no entry.\<close>

definition flag :: "(string \<rightharpoonup> bool) \<Rightarrow> string \<Rightarrow> bool" where
  "flag m k = (case m k of None \<Rightarrow> False | Some b \<Rightarrow> b)"

definition entry :: "(string \<rightharpoonup> string) \<Rightarrow> string \<Rightarrow> string" where
  "entry m k = (case m k of None \<Rightarrow> '''' | Some v \<Rightarrow> v)"

record attachment =
  at_room :: string
  at_client :: string

record connection =
  conn_token :: string
  conn_expires :: time

text \<open>
  \<open>room_files\<close> are the workspaces of the saved rooms, \<open>detached\<close> the participations that were told to
  end and \<open>room_saves\<close> the rooms that were created, each with the creation it was for.
\<close>

record router =
  routing :: routing_state
  routing_file :: routing_state
  attachments :: "string \<rightharpoonup> attachment"
  router_connection :: connection
  router_workspace :: string
  room_files :: "string \<rightharpoonup> string"
  detached :: "string set"
  room_saves :: "(string \<times> string) list"

definition no_connection :: connection where "no_connection = \<lparr>conn_token = '''', conn_expires = 0\<rparr>"

definition new_router :: "string \<Rightarrow> routing_state \<Rightarrow> (string \<rightharpoonup> string) \<Rightarrow> router" where
  "new_router workspace saved rooms =
     \<lparr>routing = saved, routing_file = saved, attachments = Map.empty, router_connection = no_connection,
      router_workspace = workspace, room_files = rooms, detached = {}, room_saves = []\<rparr>"

definition save_routing :: "bool \<Rightarrow> router \<Rightarrow> router" where
  "save_routing ok r = (if ok then r\<lparr>routing_file := routing r\<rparr> else r)"

datatype router_error =
  BadDuration | TokenFailed | ConnectionNotWritten | RoutingNotSaved | AuthenticationFailed | DirectoryUnavailable
| Forbidden | NotJoined | PanelExists | PanelNotSaved | InvalidRequest | CreateFailed | RoomDeleted | ReceiptNotSaved
| RoomNotFound | AccessDenied | RoomUnavailable | RoomRefused | InternalError

datatype router_answer =
  Failed router_error | Done | Directory | SelectRoom | Joined string string | Forward attachment

section \<open>The connection\<close>

text \<open>The clock, the new token and whether the connection file was written.\<close>

definition enable :: "time \<Rightarrow> string option \<Rightarrow> bool \<Rightarrow> duration \<Rightarrow> router \<Rightarrow> router_answer \<times> router" where
  "enable now token written ttl r =
     (if ttl < minute \<or> ttl > 24 * hour then (Failed BadDuration, r)
      else if now < conn_expires (router_connection r) then
        (if now + ttl > conn_expires (router_connection r) then
           (if \<not> written then (Failed ConnectionNotWritten, r)
            else (Done, r\<lparr>router_connection := (router_connection r)\<lparr>conn_expires := now + ttl\<rparr>\<rparr>))
         else (Done, r))
      else case token of
        None \<Rightarrow> (Failed TokenFailed, r)
      | Some t \<Rightarrow>
          if \<not> written then (Failed ConnectionNotWritten, r)
          else (Done, r\<lparr>router_connection := \<lparr>conn_token = t, conn_expires = now + ttl\<rparr>, attachments := Map.empty\<rparr>))"

definition close_router :: "router \<Rightarrow> router" where
  "close_router r = r\<lparr>router_connection := no_connection, attachments := Map.empty\<rparr>"

definition authenticated :: "time \<Rightarrow> string \<Rightarrow> router \<Rightarrow> bool" where
  "authenticated now token r \<longleftrightarrow>
     now < conn_expires (router_connection r) \<and> token = conn_token (router_connection r)"

definition detach :: "(string \<Rightarrow> attachment \<Rightarrow> bool) \<Rightarrow> router \<Rightarrow> router" where
  "detach P r =
     r\<lparr>detached := detached r \<union> {p. \<exists>a. attachments r p = Some a \<and> P p a},
       attachments := (\<lambda>p. case attachments r p of None \<Rightarrow> None | Some a \<Rightarrow> if P p a then None else Some a)\<rparr>"

definition set_room_enabled :: "bool \<Rightarrow> string \<Rightarrow> bool \<Rightarrow> router \<Rightarrow> router_answer \<times> router" where
  "set_room_enabled saved i enabled r =
     (let old = flag (room_disabled (routing r)) i;
          r1 = r\<lparr>routing := (routing r)\<lparr>room_disabled := (room_disabled (routing r))(i \<mapsto> \<not> enabled)\<rparr>\<rparr>
      in if \<not> saved
         then (Failed RoutingNotSaved,
               r\<lparr>routing := (routing r)\<lparr>room_disabled := (room_disabled (routing r))(i \<mapsto> old)\<rparr>\<rparr>)
         else let r2 = save_routing True r1
              in (Done, if \<not> enabled then detach (\<lambda>_ a. at_room a = i) r2 else r2))"

section \<open>Joining\<close>

record join_request =
  client_key :: string
  room_selector :: string
  replace_existing :: bool
  operation_id :: string

text \<open>What the world answers to a join.\<close>

record join_io =
  join_now :: time
  fresh_id :: "string option"
  creation_saved :: bool
  load_failed :: bool
  room_saved :: bool
  receipt_saved :: bool
  resolved :: "(string \<times> string) option"
  room_opened :: bool
  access_ready :: bool
  joined :: "string option option"
  binding_saved :: bool
  names_known :: bool

definition creation_key :: "join_request \<Rightarrow> string" where
  "creation_key q = client_key q @ '':'' @ operation_id q"

definition panel_key :: "string \<Rightarrow> string \<Rightarrow> string" where
  "panel_key client room_id = client @ '':'' @ room_id"

text \<open>The identifier reserved for a creation; it is on disk before the room is.\<close>

definition reserve_id :: "join_io \<Rightarrow> string \<Rightarrow> router \<Rightarrow> (router_error + string) \<times> router" where
  "reserve_id io key r =
     (let i = entry (creations (routing r)) key
      in if i \<noteq> '''' then (Inr i, r)
         else case fresh_id io of
           None \<Rightarrow> (Inl CreateFailed, r)
         | Some i \<Rightarrow>
             if \<not> creation_saved io
             then (Inl CreateFailed, r\<lparr>routing := (routing r)\<lparr>creations := (creations (routing r))(key := None)\<rparr>\<rparr>)
             else (Inr i, save_routing True (r\<lparr>routing := (routing r)\<lparr>creations := (creations (routing r))(key \<mapsto> i)\<rparr>\<rparr>)))"

text \<open>The room of a creation, made unless it exists or was made before.\<close>

definition ensure_room :: "join_io \<Rightarrow> string \<Rightarrow> string \<Rightarrow> router \<Rightarrow> router_error option \<times> router" where
  "ensure_room io key i r =
     (if load_failed io then (Some CreateFailed, r)
      else if room_files r i = None then
        (if flag (room_created (routing r)) key then (Some RoomDeleted, r)
         else if \<not> room_saved io then (Some CreateFailed, r)
         else (None, r\<lparr>room_files := (room_files r)(i \<mapsto> router_workspace r), room_saves := room_saves r @ [(key, i)]\<rparr>))
      else (None, r))"

definition create_room :: "join_io \<Rightarrow> join_request \<Rightarrow> router \<Rightarrow> (router_error + string) \<times> router" where
  "create_room io q r =
     (if operation_id q = '''' \<or> length (operation_id q) > 128
         \<or> list_ex (\<lambda>c. c \<in> {CHR '' '', CHR 0x0A, CHR 0x0D, CHR 0x09}) (operation_id q)
      then (Inl InvalidRequest, r)
      else let key = creation_key q; (reserved, r) = reserve_id io key r
           in case reserved of
                Inl e \<Rightarrow> (Inl e, r)
              | Inr i \<Rightarrow>
                  (case ensure_room io key i r of
                     (Some e, r) \<Rightarrow> (Inl e, r)
                   | (None, r) \<Rightarrow>
                       let r = r\<lparr>routing := (routing r)\<lparr>room_created := (room_created (routing r))(key \<mapsto> True)\<rparr>\<rparr>
                       in if \<not> receipt_saved io then (Inl ReceiptNotSaved, r)
                          else (Inr i, save_routing True r)))"

text \<open>The room was joined as participation \<open>p\<close>: bind the conversation to it and drop what it replaces.\<close>

definition bind_client :: "join_io \<Rightarrow> join_request \<Rightarrow> string \<Rightarrow> string \<Rightarrow> router \<Rightarrow> router_answer \<times> router" where
  "bind_client io q i p r =
     (let client = client_key q; key = panel_key client i; st = routing r;
          tracked = (panel_requested st key \<noteq> None);
          panel = (flag (panel_requested st) key \<or> (\<not> tracked \<and> entry (bindings st) client = i))
      in if \<not> binding_saved io
         then (Failed RoutingNotSaved,
               r\<lparr>routing := st\<lparr>bindings := (bindings st)(client \<mapsto> entry (bindings st) client),
                   panel_requested := (if tracked then (panel_requested st)(key \<mapsto> panel) else panel_requested st)\<rparr>,
                 detached := insert p (detached r)\<rparr>)
         else
           let r = save_routing True (r\<lparr>routing := st\<lparr>bindings := (bindings st)(client \<mapsto> i),
                     panel_requested := (panel_requested st)(key \<mapsto> panel)\<rparr>\<rparr>);
               r = detach (\<lambda>x a. (at_client a = client \<or> at_room a = i) \<and> x \<noteq> p) r;
               r = r\<lparr>attachments := (attachments r)(p \<mapsto> \<lparr>at_room = i, at_client = client\<rparr>)\<rparr>
           in (if names_known io then Joined p i else Failed DirectoryUnavailable, r))"

definition join_room_as :: "join_io \<Rightarrow> join_request \<Rightarrow> router \<Rightarrow> router_answer \<times> router" where
  "join_room_as io q r =
     (case resolved io of
        None \<Rightarrow> (Failed RoomNotFound, r)
      | Some (i, workspace) \<Rightarrow>
          if workspace \<noteq> router_workspace r then (Failed AccessDenied, r)
          else if flag (room_disabled (routing r)) i then (Failed AccessDenied, r)
          else if \<not> room_opened io then (Failed RoomUnavailable, r)
          else if conn_expires (router_connection r) - join_now io < minute then (Failed AuthenticationFailed, r)
          else if \<not> access_ready io then (Failed RoomUnavailable, r)
          else case joined io of
                 None \<Rightarrow> (Failed RoomRefused, r)
               | Some None \<Rightarrow> (Failed InternalError, r)
               | Some (Some p) \<Rightarrow> bind_client io q i p r)"

definition join_locked :: "join_io \<Rightarrow> bool \<Rightarrow> join_request option \<Rightarrow> router \<Rightarrow> router_answer \<times> router" where
  "join_locked io creating input r =
     (case input of
        None \<Rightarrow> (Failed InvalidRequest, r)
      | Some q \<Rightarrow>
          if length (client_key q) < 16 \<or> length (client_key q) > 128 then (Failed InvalidRequest, r)
          else if replace_existing q \<and> (room_selector q = '''' \<or> creating) then (Failed InvalidRequest, r)
          else if creating then
            (case create_room io q r of
               (Inl e, r) \<Rightarrow> (Failed e, r)
             | (Inr i, r) \<Rightarrow> join_room_as io q r)
          else if room_selector q = '''' \<and> entry (bindings (routing r)) (client_key q) = ''''
          then (if names_known io then SelectRoom else Failed DirectoryUnavailable, r)
          else join_room_as io q r)"

section \<open>Routing a request\<close>

text \<open>\<open>Handle\<close> up to the call of the room's service: the request type, the participation it names with
  \<open>replace_existing\<close>, and whether the routing file can be written.\<close>

definition route :: "time \<Rightarrow> string \<Rightarrow> string \<Rightarrow> (string \<times> bool) option \<Rightarrow> bool \<Rightarrow> router \<Rightarrow> router_answer \<times> router" where
  "route now token kind identity saved r =
     (if \<not> authenticated now token r then (Failed AuthenticationFailed, r)
      else if kind = ''chatgpt.rooms'' then (Directory, r)
      else if \<not> has_prefix ''chatgpt.'' kind then (Failed Forbidden, r)
      else case identity of
        None \<Rightarrow> (Failed NotJoined, r)
      | Some (p, replacing) \<Rightarrow>
          (case (if p = '''' then None else attachments r p) of
             None \<Rightarrow> (Failed NotJoined, r)
           | Some a \<Rightarrow>
               if flag (room_disabled (routing r)) (at_room a) then (Failed NotJoined, r)
               else if kind = ''chatgpt.panel'' then
                 let key = panel_key (at_client a) (at_room a); st = routing r; previous = flag (panel_requested st) key;
                     set = (\<lambda>b. r\<lparr>routing := st\<lparr>panel_requested := (panel_requested st)(key \<mapsto> b)\<rparr>\<rparr>)
                 in if previous \<and> \<not> replacing then (Failed PanelExists, r)
                    else if \<not> saved then (Failed PanelNotSaved, set previous)
                    else (Forward a, save_routing True (set True))
               else (Forward a, r)))"

definition forget :: "string \<Rightarrow> router \<Rightarrow> router" where
  "forget p r = r\<lparr>attachments := (attachments r)(p := None)\<rparr>"

datatype router_event =
  EnableOp time "string option" bool duration
| CloseOp
| RoomOp string bool bool
| JoinOp string join_io bool "join_request option"
| RouteOp time string string "(string \<times> bool) option" bool
| LeftOp string
| DeleteOp string
| RestartOp

text \<open>A restart reads the routing file; rooms are deleted by the human at any time.\<close>

fun router_step :: "router_event \<Rightarrow> router \<Rightarrow> router_answer \<times> router" where
  "router_step (EnableOp now token written ttl) r = enable now token written ttl r"
| "router_step CloseOp r = (Done, close_router r)"
| "router_step (RoomOp i enabled saved) r = set_room_enabled saved i enabled r"
| "router_step (JoinOp token io creating input) r =
     (if authenticated (join_now io) token r then join_locked io creating input r
      else (Failed AuthenticationFailed, r))"
| "router_step (RouteOp now token kind identity saved) r = route now token kind identity saved r"
| "router_step (LeftOp p) r = (Done, forget p r)"
| "router_step (DeleteOp i) r = (Done, r\<lparr>room_files := (room_files r)(i := None)\<rparr>)"
| "router_step RestartOp r = (Done, close_router (r\<lparr>routing := routing_file r\<rparr>))"

section \<open>Isolation\<close>

definition isolated :: "router \<Rightarrow> bool" where
  "isolated r \<longleftrightarrow>
     (\<forall>p a. attachments r p = Some a \<longrightarrow> \<not> flag (room_disabled (routing r)) (at_room a)) \<and>
     (\<forall>p q a b. attachments r p = Some a \<longrightarrow> attachments r q = Some b \<longrightarrow>
        at_client a = at_client b \<or> at_room a = at_room b \<longrightarrow> p = q)"

text \<open>
  What is decided in memory is what the routing file says, except the receipts of creations: a receipt
  whose save failed is not taken back, so memory may know one that the file does not, never the reverse.
\<close>

definition settled :: "routing_state \<Rightarrow> routing_state \<Rightarrow> bool" where
  "settled m d \<longleftrightarrow>
     entry (bindings m) = entry (bindings d) \<and> entry (creations m) = entry (creations d) \<and>
     flag (room_disabled m) = flag (room_disabled d) \<and> flag (panel_requested m) = flag (panel_requested d) \<and>
     (\<forall>k. flag (room_created d) k \<longrightarrow> flag (room_created m) k)"

definition router_inv :: "router \<Rightarrow> bool" where
  "router_inv r \<longleftrightarrow> isolated r \<and> settled (routing r) (routing_file r)"

lemma flag_same [simp]: "flag (m(k \<mapsto> flag m k)) = flag m"
  by (auto simp: flag_def fun_eq_iff)

lemma entry_same [simp]: "entry (m(k \<mapsto> entry m k)) = entry m" "entry m k = '''' \<Longrightarrow> entry (m(k := None)) = entry m"
  by (auto simp: entry_def fun_eq_iff)

lemma settled_refl [simp]: "settled m m"
  by (simp add: settled_def)

lemma detach_simps [simp]:
  "routing (detach P r) = routing r" "routing_file (detach P r) = routing_file r"
  "room_files (detach P r) = room_files r" "room_saves (detach P r) = room_saves r"
  "attachments (detach P r) p = Some a \<longleftrightarrow> attachments r p = Some a \<and> \<not> P p a"
  by (auto simp: detach_def split: option.splits)

lemma save_routing_simps [simp]:
  "routing (save_routing ok r) = routing r" "attachments (save_routing ok r) = attachments r"
  "routing_file (save_routing True r) = routing r" "room_files (save_routing ok r) = room_files r"
  "room_saves (save_routing ok r) = room_saves r"
  by (simp_all add: save_routing_def)

text \<open>A step that did not reach the routing file, and one that did.\<close>

lemma router_inv_same:
  assumes "router_inv r" "attachments s = attachments r" "routing_file s = routing_file r"
    "entry (bindings (routing s)) = entry (bindings (routing r))"
    "entry (creations (routing s)) = entry (creations (routing r))"
    "flag (room_disabled (routing s)) = flag (room_disabled (routing r))"
    "flag (panel_requested (routing s)) = flag (panel_requested (routing r))"
    "\<And>k. flag (room_created (routing r)) k \<Longrightarrow> flag (room_created (routing s)) k"
  shows "router_inv s"
  using assms(1,8) unfolding router_inv_def isolated_def settled_def assms(2-7) by blast

lemma router_inv_saved: "isolated s \<Longrightarrow> routing_file s = routing s \<Longrightarrow> router_inv s"
  by (simp add: router_inv_def)

lemma isolated_same:
  assumes "isolated r" "attachments s = attachments r" "flag (room_disabled (routing s)) = flag (room_disabled (routing r))"
  shows "isolated s"
  using assms(1) unfolding isolated_def assms(2,3) .

lemma router_inv_isolated: "router_inv r \<Longrightarrow> isolated r"
  by (simp add: router_inv_def)

lemma bind_client_inv:
  assumes "router_inv r" "\<not> flag (room_disabled (routing r)) i"
  shows "router_inv (snd (bind_client io q i p r))"
proof (cases "binding_saved io")
  case True
  then show ?thesis using assms
    by (intro router_inv_saved) (auto simp: bind_client_def Let_def router_inv_def isolated_def)
next
  case False
  then show ?thesis
    by (intro router_inv_same [OF assms(1)]) (auto simp: bind_client_def Let_def)
qed

lemma create_room_inv:
  assumes "router_inv r"
  shows "router_inv (snd (create_room io q r))"
proof -
  have reserve: "router_inv (snd (reserve_id io key r))" for key
  proof (cases "entry (creations (routing r)) key = '''' \<and> fresh_id io \<noteq> None \<and> creation_saved io")
    case True
    then show ?thesis
      by (intro router_inv_saved isolated_same [OF router_inv_isolated [OF assms]]) (auto simp: reserve_id_def Let_def)
  next
    case False
    then show ?thesis
      by (intro router_inv_same [OF assms]) (auto simp: reserve_id_def Let_def split: option.split)
  qed
  have ensure: "router_inv (snd (ensure_room io key i s))" if "router_inv s" for key i s
    by (intro router_inv_same [OF that]) (simp_all add: ensure_room_def)
  have receipt: "router_inv (s\<lparr>routing := (routing s)\<lparr>room_created := (room_created (routing s))(k \<mapsto> True)\<rparr>\<rparr>)"
    "router_inv (save_routing True (s\<lparr>routing := (routing s)\<lparr>room_created := (room_created (routing s))(k \<mapsto> True)\<rparr>\<rparr>))"
    if "router_inv s" for s k
    by (intro router_inv_same [OF that] router_inv_saved isolated_same [OF router_inv_isolated [OF that]]; simp add: flag_def)+
  obtain x s where s: "reserve_id io (creation_key q) r = (x, s)" by (cases "reserve_id io (creation_key q) r")
  with reserve [of "creation_key q"] have inv: "router_inv s" by simp
  show ?thesis
  proof (cases x)
    case (Inr i)
    obtain y t where t: "ensure_room io (creation_key q) i s = (y, t)" by (cases "ensure_room io (creation_key q) i s")
    with ensure [OF inv, of "creation_key q" i] have "router_inv t" by simp
    then show ?thesis using assms receipt [of t]
      by (auto simp: create_room_def s Inr t Let_def split: option.split)
  qed (use assms inv in \<open>simp add: create_room_def s Let_def\<close>)
qed

lemma join_room_as_inv: "router_inv r \<Longrightarrow> router_inv (snd (join_room_as io q r))"
  using bind_client_inv [of r] by (simp add: join_room_as_def split: option.split prod.split)

lemma join_locked_inv:
  assumes "router_inv r"
  shows "router_inv (snd (join_locked io creating input r))"
proof (cases input)
  case (Some q)
  obtain x s where c: "create_room io q r = (x, s)" by (cases "create_room io q r")
  then have "router_inv s" using create_room_inv [OF assms, of io q] by simp
  with assms show ?thesis by (auto simp: join_locked_def Some c join_room_as_inv split: sum.split)
qed (use assms in \<open>simp add: join_locked_def\<close>)

lemma set_room_enabled_inv:
  assumes "router_inv r"
  shows "router_inv (snd (set_room_enabled saved i enabled r))"
proof (cases saved)
  case True
  then show ?thesis using router_inv_isolated [OF assms]
    by (intro router_inv_saved) (auto simp: set_room_enabled_def Let_def isolated_def flag_def split: if_splits)
next
  case False
  then show ?thesis by (intro router_inv_same [OF assms]) (simp_all add: set_room_enabled_def Let_def)
qed

definition with_panel :: "string \<Rightarrow> bool \<Rightarrow> router \<Rightarrow> router" where
  "with_panel k b r = r\<lparr>routing := (routing r)\<lparr>panel_requested := (panel_requested (routing r))(k \<mapsto> b)\<rparr>\<rparr>"

lemma route_cases:
  obtains "snd (route now token kind identity saved r) = r"
  | k where "snd (route now token kind identity saved r) = with_panel k (flag (panel_requested (routing r)) k) r"
  | k where "snd (route now token kind identity saved r) = save_routing True (with_panel k True r)"
proof -
  let ?s = "snd (route now token kind identity saved r)"
  have "?s = r \<or> (\<exists>k. ?s = with_panel k (flag (panel_requested (routing r)) k) r) \<or>
      (\<exists>k. ?s = save_routing True (with_panel k True r))"
  proof (cases identity)
    case (Some pr)
    obtain p replacing where pr: "pr = (p, replacing)" by (cases pr)
    show ?thesis
    proof (cases "if p = '''' then None else attachments r p")
      case (Some a)
      then show ?thesis unfolding route_def \<open>identity = Some pr\<close> pr option.case prod.case Let_def with_panel_def
        by (simp only: option.case split: if_split) auto
    qed (auto simp: route_def \<open>identity = Some pr\<close> pr)
  qed (simp add: route_def)
  then show thesis using that by blast
qed

lemma route_inv:
  assumes "router_inv r"
  shows "router_inv (snd (route now token kind identity saved r))"
proof (rule route_cases [of now token kind identity saved r])
  fix k
  assume "snd (route now token kind identity saved r) = with_panel k (flag (panel_requested (routing r)) k) r"
  then show ?thesis by (intro router_inv_same [OF assms]) (simp_all add: with_panel_def)
next
  fix k
  assume "snd (route now token kind identity saved r) = save_routing True (with_panel k True r)"
  then show ?thesis
    by (intro router_inv_saved isolated_same [OF router_inv_isolated [OF assms]]) (simp_all add: with_panel_def)
qed (use assms in simp)

lemma close_router_inv: "settled (routing r) (routing_file r) \<Longrightarrow> router_inv (close_router r)"
  by (simp add: close_router_def router_inv_def isolated_def)

lemma router_step_inv:
  assumes "router_inv r"
  shows "router_inv (snd (router_step e r))"
proof (cases e)
  case (EnableOp now token written ttl)
  with assms show ?thesis by (auto simp: enable_def router_inv_def isolated_def split: option.split)
next
  case (LeftOp p)
  with assms show ?thesis by (auto simp: forget_def router_inv_def isolated_def split: if_splits)
next
  case CloseOp
  with assms close_router_inv [of r] show ?thesis by (simp add: router_inv_def)
next
  case RestartOp
  then show ?thesis using close_router_inv [of "r\<lparr>routing := routing_file r\<rparr>"] by simp
next
  case (DeleteOp i)
  then show ?thesis by (intro router_inv_same [OF assms]) simp_all
next
  case (JoinOp token io creating input)
  with assms join_locked_inv show ?thesis by simp
next
  case (RoomOp i enabled saved)
  with assms set_room_enabled_inv show ?thesis by simp
next
  case (RouteOp now token kind identity saved)
  with assms route_inv show ?thesis by simp
qed

section \<open>Creations\<close>

lemma join_room_as_simps [simp]:
  "room_saves (snd (join_room_as io q r)) = room_saves r"
  "creations (routing (snd (join_room_as io q r))) = creations (routing r)"
  "room_created (routing (snd (join_room_as io q r))) = room_created (routing r)"
  by (simp_all add: join_room_as_def bind_client_def Let_def split: option.split prod.split)

text \<open>What a creation does: it keeps the identifiers of the others, and makes at most the one room.\<close>

definition creates :: "router \<Rightarrow> router \<Rightarrow> bool" where
  "creates r s \<longleftrightarrow>
     (\<forall>k. entry (creations (routing r)) k \<noteq> '''' \<longrightarrow> entry (creations (routing s)) k = entry (creations (routing r)) k) \<and>
     (\<forall>k. flag (room_created (routing r)) k \<longrightarrow> flag (room_created (routing s)) k) \<and>
     (room_saves s = room_saves r \<or>
      (\<exists>k i. room_saves s = room_saves r @ [(k, i)] \<and> i \<noteq> '''' \<and> room_files r i = None \<and>
         entry (creations (routing s)) k = i \<and> \<not> flag (room_created (routing r)) k \<and> flag (room_created (routing s)) k))"

lemma creates_same:
  "creations (routing s) = creations (routing r) \<Longrightarrow> room_created (routing s) = room_created (routing r) \<Longrightarrow>
   room_saves s = room_saves r \<Longrightarrow> creates r s"
  by (simp add: creates_def)

lemma reserve_id_facts:
  assumes "fresh_id io \<noteq> Some ''''" "reserve_id io key r = (x, s)"
  shows "\<And>k. entry (creations (routing r)) k \<noteq> '''' \<Longrightarrow> entry (creations (routing s)) k = entry (creations (routing r)) k"
    "room_created (routing s) = room_created (routing r)" "room_saves s = room_saves r" "room_files s = room_files r"
    "x = Inr i \<Longrightarrow> i \<noteq> '''' \<and> entry (creations (routing s)) key = i"
proof -
  show "\<And>k. entry (creations (routing r)) k \<noteq> '''' \<Longrightarrow> entry (creations (routing s)) k = entry (creations (routing r)) k"
  proof -
    fix k
    assume "entry (creations (routing r)) k \<noteq> ''''"
    then show "entry (creations (routing s)) k = entry (creations (routing r)) k" using assms
      by (cases "k = key") (auto simp: reserve_id_def Let_def entry_def split: if_splits option.splits)
  qed
  show "room_created (routing s) = room_created (routing r)" "room_saves s = room_saves r" "room_files s = room_files r"
    using assms(2) by (auto simp: reserve_id_def Let_def split: if_splits option.splits)
  show "x = Inr i \<Longrightarrow> i \<noteq> '''' \<and> entry (creations (routing s)) key = i"
    using assms by (auto simp: reserve_id_def Let_def entry_def split: if_splits option.splits)
qed

lemma ensure_room_facts:
  assumes "ensure_room io key i r = (e, s)"
  shows "routing s = routing r"
    "room_saves s = room_saves r \<or>
     (e = None \<and> room_saves s = room_saves r @ [(key, i)] \<and> room_files r i = None \<and> \<not> flag (room_created (routing r)) key)"
  using assms by (auto simp: ensure_room_def split: if_splits)

lemma create_room_creates:
  assumes "fresh_id io \<noteq> Some ''''"
  shows "creates r (snd (create_room io q r))"
proof -
  obtain x s where s: "reserve_id io (creation_key q) r = (x, s)" by (cases "reserve_id io (creation_key q) r")
  note f = reserve_id_facts [OF assms s]
  show ?thesis
  proof (cases x)
    case (Inl e)
    then show ?thesis using f(1-3) by (auto simp: create_room_def s creates_def)
  next
    case (Inr i)
    obtain e t where t: "ensure_room io (creation_key q) i s = (e, t)" by (cases "ensure_room io (creation_key q) i s")
    note g = ensure_room_facts [OF t]
    have flags: "flag ((room_created (routing r))(creation_key q \<mapsto> True)) k"
      if "flag (room_created (routing r)) k" for k
      using that by (simp add: flag_def)
    show ?thesis
    proof (cases e)
      case None
      have "snd (create_room io q r) = r \<or>
          (routing (snd (create_room io q r)) = (routing s)\<lparr>room_created := (room_created (routing s))(creation_key q \<mapsto> True)\<rparr> \<and>
           room_saves (snd (create_room io q r)) = room_saves t)"
        by (auto simp: create_room_def s Inr t None g(1) Let_def)
      then show ?thesis
      proof
        assume c: "routing (snd (create_room io q r)) =
            (routing s)\<lparr>room_created := (room_created (routing s))(creation_key q \<mapsto> True)\<rparr> \<and>
          room_saves (snd (create_room io q r)) = room_saves t"
        have "flag ((room_created (routing r))(creation_key q \<mapsto> True)) (creation_key q)" by (simp add: flag_def)
        then show ?thesis using c f flags g(2) Inr by (auto simp: creates_def)
      qed (simp add: creates_same)
    next
      case (Some a)
      have "snd (create_room io q r) = r \<or> snd (create_room io q r) = t"
        by (auto simp: create_room_def s Inr t Some Let_def)
      then show ?thesis using f(1-3) g Some by (auto simp: creates_def)
    qed
  qed
qed

definition sound_ids :: "router_event \<Rightarrow> bool" where
  "sound_ids e \<longleftrightarrow> (case e of JoinOp token io creating input \<Rightarrow> fresh_id io \<noteq> Some '''' | _ \<Rightarrow> True)"

lemma join_locked_creates:
  assumes "fresh_id io \<noteq> Some ''''"
  shows "creates r (snd (join_locked io creating input r))"
proof (cases input)
  case (Some q)
  obtain x s where c: "create_room io q r = (x, s)" by (cases "create_room io q r")
  then have "creates r s" using create_room_creates [OF assms, of r q] by simp
  then have "creates r (snd (join_room_as io q s))" by (simp add: creates_def)
  moreover have "creates r (snd (join_room_as io q r))" by (simp add: creates_same)
  ultimately show ?thesis using \<open>creates r s\<close>
    by (auto simp: join_locked_def Some c creates_same split: sum.split)
qed (simp add: join_locked_def creates_same)

lemma router_step_creates:
  assumes "sound_ids e" "e \<noteq> RestartOp"
  shows "creates r (snd (router_step e r))"
proof (cases e)
  case (JoinOp token io creating input)
  with assms(1) join_locked_creates show ?thesis by (simp add: sound_ids_def creates_same)
next
  case (EnableOp now token written ttl)
  then show ?thesis by (intro creates_same) (simp_all add: enable_def split: option.split)
next
  case (RoomOp i enabled saved)
  then show ?thesis by (intro creates_same) (simp_all add: set_room_enabled_def Let_def)
next
  case (RouteOp now token kind identity saved)
  then show ?thesis
    by (cases rule: route_cases [of now token kind identity saved r]; intro creates_same) (simp_all add: with_panel_def)
qed (use assms in \<open>simp_all add: creates_same close_router_def forget_def\<close>)

text \<open>Every room that was made carries the identifier its creation reserved on disk.\<close>

definition creation_inv :: "router \<Rightarrow> bool" where
  "creation_inv r \<longleftrightarrow> router_inv r \<and>
     (\<forall>(k, i)\<in>set (room_saves r). i \<noteq> '''' \<and> entry (creations (routing_file r)) k = i)"

lemma creation_step:
  assumes "creation_inv r" "sound_ids e"
  shows "creation_inv (snd (router_step e r))"
proof -
  let ?s = "snd (router_step e r)"
  have inv: "router_inv r" using assms(1) by (simp add: creation_inv_def)
  then have ids: "entry (creations (routing r)) = entry (creations (routing_file r))"
    by (simp add: router_inv_def settled_def)
  have inv': "router_inv ?s" by (rule router_step_inv [OF inv])
  then have ids': "entry (creations (routing ?s)) = entry (creations (routing_file ?s))"
    by (simp add: router_inv_def settled_def)
  show ?thesis
  proof (cases "e = RestartOp")
    case True
    then show ?thesis using assms(1) inv' by (simp add: creation_inv_def close_router_def)
  next
    case False
    note c = router_step_creates [OF assms(2) False, of r]
    have "i \<noteq> '''' \<and> entry (creations (routing_file ?s)) k = i" if "(k, i) \<in> set (room_saves ?s)" for k i
    proof (cases "(k, i) \<in> set (room_saves r)")
      case True
      then have "i \<noteq> ''''" "entry (creations (routing r)) k = i" using assms(1) ids by (auto simp: creation_inv_def)
      then show ?thesis using c ids' unfolding creates_def by metis
    next
      case False
      with that c have "i \<noteq> ''''" "entry (creations (routing ?s)) k = i" unfolding creates_def by auto
      then show ?thesis using ids' by simp
    qed
    then show ?thesis using inv' by (auto simp: creation_inv_def)
  qed
qed

lemma new_router_inv: "creation_inv (new_router w st rooms)"
  by (simp add: creation_inv_def router_inv_def isolated_def new_router_def)

lemma router_run_inv: "router_inv r \<Longrightarrow> router_inv (snd (run_all router_step es r))"
proof (induction es arbitrary: r)
  case (Cons e es)
  from Cons.IH [OF router_step_inv [OF Cons.prems]] show ?case by (simp add: split_beta Let_def)
qed simp

lemma creation_run: "creation_inv r \<Longrightarrow> list_all sound_ids es \<Longrightarrow> creation_inv (snd (run_all router_step es r))"
proof (induction es arbitrary: r)
  case (Cons e es)
  from Cons.prems(2) have e: "sound_ids e" "list_all sound_ids es" by simp_all
  from Cons.IH [OF creation_step [OF Cons.prems(1) e(1)] e(2)] show ?case by (simp add: split_beta Let_def)
qed simp

definition receipts :: "router \<Rightarrow> bool" where
  "receipts r \<longleftrightarrow> distinct (map fst (room_saves r)) \<and> (\<forall>k\<in>fst ` set (room_saves r). flag (room_created (routing r)) k)"

lemma receipts_step: "creates r s \<Longrightarrow> receipts r \<Longrightarrow> receipts s"
  unfolding creates_def receipts_def by auto

lemma receipts_run:
  "receipts r \<Longrightarrow> list_all sound_ids es \<Longrightarrow> RestartOp \<notin> set es \<Longrightarrow> receipts (snd (run_all router_step es r))"
proof (induction es arbitrary: r)
  case (Cons e es)
  from Cons.prems have e: "sound_ids e" "e \<noteq> RestartOp" "list_all sound_ids es" "RestartOp \<notin> set es" by auto
  from Cons.IH [OF receipts_step [OF router_step_creates [OF e(1,2)] Cons.prems(1)] e(3,4)]
  show ?case by (simp add: split_beta Let_def)
qed simp

section \<open>A disabled room\<close>

lemma join_disabled [simp]:
  "room_disabled (routing (snd (join_locked io creating input r))) = room_disabled (routing r)"
proof -
  have reserve: "room_disabled (routing (snd (reserve_id io k r))) = room_disabled (routing r)" for k r
    by (simp add: reserve_id_def Let_def split: option.split)
  have ensure: "routing (snd (ensure_room io k i r)) = routing r" for k i r
    by (simp add: ensure_room_def)
  have create: "room_disabled (routing (snd (create_room io q r))) = room_disabled (routing r)" for q
    using reserve [of "creation_key q" r] ensure
    by (auto simp: create_room_def Let_def split: prod.splits sum.splits option.splits)
       (metis snd_conv)+
  have join: "room_disabled (routing (snd (join_room_as io q r))) = room_disabled (routing r)" for q r
    by (simp add: join_room_as_def bind_client_def Let_def split: option.split prod.split)
  show ?thesis using create join
    by (auto simp: join_locked_def split: option.splits prod.splits sum.splits) (metis snd_conv)+
qed

lemma disabled_step:
  assumes "router_inv r" "flag (room_disabled (routing r)) i" "e \<noteq> RoomOp i True True"
  shows "flag (room_disabled (routing (snd (router_step e r)))) i"
proof (cases e)
  case (RouteOp now token kind identity saved)
  then show ?thesis using assms(2)
    by (cases rule: route_cases [of now token kind identity saved r]) (simp_all add: with_panel_def)
next
  case (RoomOp j enabled saved)
  then show ?thesis using assms(2,3) by (auto simp: set_room_enabled_def Let_def flag_def)
next
  case (EnableOp now token written ttl)
  then show ?thesis using assms(2) by (simp add: enable_def split: option.split)
next
  case RestartOp
  then show ?thesis using assms(1,2) by (simp add: close_router_def router_inv_def settled_def)
qed (use assms(2) in \<open>simp_all add: close_router_def forget_def\<close>)

lemma forwarded:
  assumes "fst (router_step e r) = Forward a"
  shows "\<not> flag (room_disabled (routing r)) (at_room a)"
proof (cases e)
  case (RouteOp now token kind identity saved)
  then show ?thesis using assms by (auto simp: route_def Let_def split: if_splits option.splits)
next
  case (JoinOp token io creating input)
  have "fst (join_room_as io q t) \<noteq> Forward a" for q t
    by (simp add: join_room_as_def bind_client_def Let_def split: option.split prod.split)
  then show ?thesis using assms JoinOp
    by (auto simp: join_locked_def split: if_splits option.splits prod.splits sum.splits)
next
  case (EnableOp now token written ttl)
  then show ?thesis using assms by (auto simp: enable_def split: if_splits option.splits)
next
  case (RoomOp j enabled saved)
  then show ?thesis using assms by (auto simp: set_room_enabled_def Let_def split: if_splits)
qed (use assms in simp_all)

lemma disabled_run:
  "router_inv r \<Longrightarrow> flag (room_disabled (routing r)) i \<Longrightarrow> RoomOp i True True \<notin> set es \<Longrightarrow>
   Forward a \<in> set (fst (run_all router_step es r)) \<Longrightarrow> at_room a \<noteq> i"
proof (induction es arbitrary: r)
  case (Cons e es)
  let ?s = "snd (router_step e r)"
  have "flag (room_disabled (routing ?s)) i" by (rule disabled_step [OF Cons.prems(1,2)]) (use Cons.prems(3) in auto)
  note rest = Cons.IH [OF router_step_inv [OF Cons.prems(1)] this]
  from Cons.prems(4) have "fst (router_step e r) = Forward a \<or> Forward a \<in> set (fst (run_all router_step es ?s))"
    by (auto simp: split_beta Let_def)
  then show ?case using forwarded [of e r a] rest Cons.prems(2,3) by auto
qed simp

section \<open>Properties\<close>


text \<open>C19. One creation makes one room: whatever fails and however often the request is retried, also
  after restarts and deletions, the rooms made for one operation carry the same identifier, the one
  that was reserved in the routing file; and in one process a room is made for it at most once, so a
  room the human deleted does not come back.\<close>
theorem creation_once:
  assumes "list_all sound_ids es" "s = snd (run_all router_step es (new_router w st rooms))"
    "(k, i) \<in> set (room_saves s)"
  shows "entry (creations (routing_file s)) k = i \<and> (\<forall>j. (k, j) \<in> set (room_saves s) \<longrightarrow> j = i) \<and>
    (RestartOp \<notin> set es \<longrightarrow> distinct (map fst (room_saves s)))"
proof -
  have "creation_inv s" unfolding assms(2) by (rule creation_run [OF new_router_inv assms(1)])
  then have "entry (creations (routing_file s)) k = j" if "(k, j) \<in> set (room_saves s)" for j
    using that by (auto simp: creation_inv_def)
  moreover have "receipts s" if "RestartOp \<notin> set es"
    unfolding assms(2) by (rule receipts_run [OF _ assms(1) that]) (simp add: receipts_def new_router_def)
  ultimately show ?thesis using assms(3) by (auto simp: receipts_def)
qed

text \<open>A conversation creates a room; its receipt is not saved, the retry joins the same room; then the
  human deletes it and a third retry is refused.\<close>

definition sample_client :: string where "sample_client = ''conversation-0001''"

definition sample_request :: join_request where
  "sample_request = \<lparr>client_key = sample_client, room_selector = '''', replace_existing = False, operation_id = ''op''\<rparr>"

definition sample_join_io :: "bool \<Rightarrow> string \<Rightarrow> join_io" where
  "sample_join_io saved fresh = \<lparr>join_now = 0, fresh_id = Some fresh, creation_saved = True, load_failed = False,
     room_saved = True, receipt_saved = saved, resolved = Some (''r1'', ''/w''), room_opened = True, access_ready = True,
     joined = Some (Some ''p1''), binding_saved = True, names_known = True\<rparr>"

definition sample_routing :: "router_event list" where
  "sample_routing =
     [EnableOp 0 (Some ''token'') True hour,
      JoinOp ''token'' (sample_join_io False ''r1'') True (Some sample_request),
      JoinOp ''token'' (sample_join_io True ''r2'') True (Some sample_request),
      DeleteOp ''r1'',
      JoinOp ''token'' (sample_join_io True ''r3'') True (Some sample_request)]"

definition sample_router :: router where
  "sample_router = snd (run_all router_step sample_routing (new_router ''/w'' empty_routing Map.empty))"

lemmas router_eval = sample_router_def sample_routing_def sample_join_io_def sample_request_def sample_client_def
  new_router_def empty_routing_def no_connection_def enable_def join_locked_def create_room_def reserve_id_def
  ensure_room_def join_room_as_def bind_client_def authenticated_def save_routing_def creation_key_def panel_key_def
  entry_def flag_def detach_def Let_def

lemma sample_router_eval:
  "room_saves sample_router = [(''conversation-0001:op'', ''r1'')]"
  "attachments sample_router ''p1'' = Some \<lparr>at_room = ''r1'', at_client = ''conversation-0001''\<rparr>"
  "fst (run_all router_step sample_routing (new_router ''/w'' empty_routing Map.empty)) =
     [Done, Failed ReceiptNotSaved, Joined ''p1'' ''r1'', Done, Failed RoomDeleted]"
  by (simp_all add: router_eval)

text \<open>The host then disables the room.\<close>

definition disabled_router :: router where
  "disabled_router = snd (run_all router_step (sample_routing @ [RoomOp ''r1'' False True]) (new_router ''/w'' empty_routing Map.empty))"

lemma disabled_router_eval: "flag (room_disabled (routing disabled_router)) ''r1''"
  by (simp add: disabled_router_def set_room_enabled_def router_eval)

definition later_requests :: "router_event list" where
  "later_requests = [RouteOp 0 ''token'' ''chatgpt.read'' (Some (''p1'', False)) True, RestartOp]"


theorem creation_once_witness:
  "entry (creations (routing_file sample_router)) ''conversation-0001:op'' = ''r1'' \<and>
   distinct (map fst (room_saves sample_router))"
proof -
  have "list_all sound_ids sample_routing" by (simp add: sample_routing_def sound_ids_def sample_join_io_def)
  from creation_once [OF this sample_router_def, of "''conversation-0001:op''" "''r1''"] show ?thesis
    by (simp add: sample_router_eval(1)) 
qed

end
