(* ===== verification/Follow_Ups.thy ===== *)
theory Follow_Ups
  imports Coordination_Data Conversations
begin

text \<open>
  Automatic follow-ups (\<^verbatim>\<open>internal/chat/followups.go\<close>, \<^verbatim>\<open>internal/room/followups.go\<close>) and the
  participation state they read (\<^verbatim>\<open>internal/chat/chatgpt.go\<close>, the state operations of
  \<^verbatim>\<open>internal/room/chatgpt.go\<close>): which panel may send a notification to the ChatGPT website, how
  often, and for which update.  \<open>ObserveFollowUps\<close> holds both room locks from the first read to
  the save, so one observation is one step.  The SHA-256 digest and the RFC 3339 rendering of a
  time, of which the key of an update is made, are arguments; the iteration order of a Go map is
  the order of its entry list.
\<close>

section \<open>Participation state\<close>

record chatgpt_limits =
  exchanges :: int
  follow_up_limit :: int
  follow_up_seconds :: int
  repeated_requests :: int

definition default_limits :: chatgpt_limits where
  "default_limits = \<lparr>exchanges = 32, follow_up_limit = 32, follow_up_seconds = 3600, repeated_requests = 3\<rparr>"

datatype limits_error = CountOutOfRange | DurationOutOfRange | RepeatsOutOfRange

definition validate_limits :: "chatgpt_limits \<Rightarrow> limits_error option" where
  "validate_limits l =
     (if exchanges l < 1 \<or> exchanges l > 1000 \<or> follow_up_limit l < 1 \<or> follow_up_limit l > 1000
      then Some CountOutOfRange
      else if follow_up_seconds l < 60 \<or> follow_up_seconds l > 86400 then Some DurationOutOfRange
      else if repeated_requests l < 2 \<or> repeated_requests l > 20 then Some RepeatsOutOfRange
      else None)"

record chatgpt_state =
  chatgpt_enabled :: bool
  chatgpt_connected :: bool
  chatgpt_paused :: bool
  expires_at :: time
  lease_until :: time
  exchanges_remaining :: int
  chatgpt_limits :: chatgpt_limits
  pause_reason :: string

section \<open>The durable follow-up record\<close>

record follow_up_claim =
  claim_attempt :: notification_attempt
  claim_update_key :: string
  claim_result :: string
  claim_through :: nat
  claim_run :: string

abbreviation claim_id :: "follow_up_claim \<Rightarrow> string" where
  "claim_id c \<equiv> attempt_id (claim_attempt c)"

record follow_ups =
  host_paused :: bool
  follow_enabled :: bool
  revision :: nat
  allowance_started :: time
  attempts_used :: int
  last_notification :: time
  notified_through :: nat
  notified_key :: string
  panels :: "coordination_panel list"
  claims :: "follow_up_claim list"
  last_control_id :: string
  last_control :: string
  last_control_revision :: nat

definition new_follow_ups :: follow_ups where
  "new_follow_ups =
     \<lparr>host_paused = False, follow_enabled = True, revision = 1, allowance_started = 0, attempts_used = 0,
      last_notification = 0, notified_through = 0, notified_key = '''', panels = [], claims = [],
      last_control_id = '''', last_control = '''', last_control_revision = 0\<rparr>"

record follow_up_update =
  fu_update_key :: string
  fu_stage :: string
  fu_event :: string
  fu_panel :: string
  fu_delivery :: string
  fu_revision :: nat
  fu_automatic :: bool
  fu_through :: nat
  fu_run :: string
  fu_result :: string

text \<open>The part of the room that coordination and follow-ups read and write.\<close>

record coord_room =
  room_follow_ups :: "follow_ups option"
  room_chatgpt :: "chatgpt_state option"
  room_run :: "coordination_run option"
  room_messages :: "message list"
  room_jobs :: "conversation_job list"
  room_workflows :: "(string \<times> workflow) list"
  room_activities :: "(participant \<times> activity) list"
  pending_posts :: "string list"
  room_next :: nat

section \<open>The key of an update\<close>

definition public_message :: "message \<Rightarrow> bool" where
  "public_message m \<longleftrightarrow> kind m = MessageText \<and> (author m = User \<or> valid_agent (author m))"

definition public_sequence :: "message list \<Rightarrow> nat" where
  "public_sequence ms = foldl (\<lambda>n m. if public_message m then max n (sequence m) else n) 0 ms"

definition workflow_live :: "workflow_state \<Rightarrow> bool" where
  "workflow_live s \<longleftrightarrow> s = WorkflowQueued \<or> s = WorkflowActive \<or> s = WorkflowWaiting"

definition work_part :: "(time \<Rightarrow> string) \<Rightarrow> workflow \<Rightarrow> string list" where
  "work_part stamp w =
     (if \<not> workflow_live (wf_state w)
      then [''work:'' @ wf_id w @ '':'' @ workflow_state_name (wf_state w) @ '':'' @ stamp (wf_updated_at w)]
      else [])"

definition capacity_part :: "participant \<times> activity \<Rightarrow> string list" where
  "capacity_part e =
     (if act_state (snd e) = SchedulerQueued \<and> act_transition (snd e) = ''manager_capacity''
      then [''capacity:'' @ fst e @ '':'' @ act_wait_reason (snd e)] else [])"

definition reply_part :: "(time \<Rightarrow> string) \<Rightarrow> conversation_job \<Rightarrow> string list" where
  "reply_part stamp j =
     (case completed_at j of
        Some t \<Rightarrow> if conversation_terminal (job_state j)
                  then [''reply:'' @ job_id j @ '':'' @ conversation_state_name (job_state j) @ '':'' @ stamp t]
                  else []
      | None \<Rightarrow> [])"

definition update_parts :: "(time \<Rightarrow> string) \<Rightarrow> coord_room \<Rightarrow> string list" where
  "update_parts stamp r =
     sort (show_nat (public_sequence (room_messages r))
           # concat (map (\<lambda>e. work_part stamp (snd e)) (room_workflows r))
           @ concat (map capacity_part (room_activities r))
           @ concat (map (reply_part stamp) (room_jobs r)))"

definition notification_key :: "(string \<Rightarrow> string) \<Rightarrow> (time \<Rightarrow> string) \<Rightarrow> coord_room \<Rightarrow> string" where
  "notification_key digest stamp r = digest (join_strings [CHR 0x0A] (update_parts stamp r))"
section \<open>The view\<close>

record follow_up_view =
  fv_enabled :: bool
  fv_revision :: nat
  fv_started :: time
  fv_remaining :: int
  fv_seconds :: int
  fv_status :: string
  fv_reason :: string
  fv_through :: nat
  fv_last :: time
  fv_outcome :: string

text \<open>The panel loop of the last case: stale panels are skipped, the first enabled one ends it.\<close>

fun panel_delivery :: "time \<Rightarrow> coordination_panel list \<Rightarrow> string \<times> string \<Rightarrow> string \<times> string" where
  "panel_delivery now [] v = v"
| "panel_delivery now (p # ps) v =
     (if time_sub now (panel_seen_at p) > 45 * second then panel_delivery now ps v
      else if panel_mode p = ''enabled'' then (''On and connected'', '''')
      else panel_delivery now ps (fst v, panel_mode p))"

definition chatgpt_gone :: "time \<Rightarrow> chatgpt_state option \<Rightarrow> bool" where
  "chatgpt_gone now st =
     (case st of None \<Rightarrow> True
      | Some s \<Rightarrow> \<not> chatgpt_enabled s \<or> \<not> chatgpt_connected s
                  \<or> (expires_at s \<noteq> 0 \<and> \<not> now < expires_at s))"

definition run_stopped :: "coordination_run option \<Rightarrow> bool" where
  "run_stopped run = (case run of None \<Rightarrow> False | Some r \<Rightarrow> run_state r = ''stopped'')"

definition effective_limits :: "chatgpt_state option \<Rightarrow> chatgpt_limits" where
  "effective_limits st =
     (case st of None \<Rightarrow> default_limits
      | Some s \<Rightarrow> if follow_up_limit (chatgpt_limits s) > 0 then chatgpt_limits s else default_limits)"

definition remaining_follow_ups :: "chatgpt_state option \<Rightarrow> follow_ups \<Rightarrow> int" where
  "remaining_follow_ups st f = max 0 (follow_up_limit (effective_limits st) - attempts_used f)"

definition remaining_seconds :: "time \<Rightarrow> chatgpt_state option \<Rightarrow> follow_ups \<Rightarrow> int" where
  "remaining_seconds now st f =
     (let budget = follow_up_seconds (effective_limits st)
      in if allowance_started f = 0 then budget
         else max 0 (go_div (time_sub (allowance_started f + wrap64 (budget * second)) now) second))"

definition last_outcome :: "follow_ups \<Rightarrow> string" where
  "last_outcome f = (if claims f \<noteq> [] then attempt_outcome (claim_attempt (last (claims f))) else '''')"

definition delivery_status :: "time \<Rightarrow> chatgpt_state option \<Rightarrow> coordination_run option \<Rightarrow> follow_ups \<Rightarrow> string \<times> string" where
  "delivery_status now st run f =
     (if \<not> follow_enabled f then (''Paused'', ''manual'')
      else if run_stopped run then (''Paused'', ''run_stopped'')
      else if chatgpt_gone now st then (''Panel unavailable'', ''disconnected'')
      else if host_paused f \<or> chatgpt_paused (the st) then (''Paused'', ''host_paused'')
      else if pause_reason (the st) \<noteq> '''' then (''Paused'', pause_reason (the st))
      else if remaining_follow_ups st f = 0 then (''Limit reached'', ''follow_up_limit'')
      else if remaining_seconds now st f = 0 then (''Limit reached'', ''time_limit'')
      else let v = panel_delivery now (panels f) (''Panel unavailable'', ''panel_unavailable'');
               v = (if last_outcome f = ''host_rejected'' \<and> snd v = ''''
                    then (''Delivery rejected'', ''host_rejected'') else v)
           in if last_outcome f = ''host_unknown'' \<and> snd v = ''''
              then (''Delivery outcome unknown'', ''host_unknown'') else v)"

definition follow_view :: "time \<Rightarrow> chatgpt_state option \<Rightarrow> coordination_run option \<Rightarrow> follow_ups option \<Rightarrow> follow_up_view" where
  "follow_view now st run fo =
     (let f = (case fo of None \<Rightarrow> new_follow_ups | Some f \<Rightarrow> f);
          d = delivery_status now st run f
      in \<lparr>fv_enabled = follow_enabled f, fv_revision = revision f, fv_started = allowance_started f,
          fv_remaining = remaining_follow_ups st f, fv_seconds = remaining_seconds now st f,
          fv_status = fst d, fv_reason = snd d, fv_through = notified_through f,
          fv_last = last_notification f, fv_outcome = last_outcome f\<rparr>)"

section \<open>Observations\<close>

text \<open>The room's first follow-up record takes over what a monitored run already used.\<close>

definition count_attempt :: "follow_ups \<Rightarrow> notification_attempt \<Rightarrow> follow_ups" where
  "count_attempt f a =
     (if attempt_automatic a
      then f\<lparr>attempts_used := attempts_used f + 1,
             allowance_started := (if allowance_started f = 0 \<or> attempt_at a < allowance_started f
                                   then attempt_at a else allowance_started f)\<rparr>
      else f)"

definition import_run :: "coordination_run \<Rightarrow> follow_ups \<Rightarrow> follow_ups" where
  "import_run r f =
     foldl (\<lambda>f h. foldl count_attempt f (handoff_attempts h))
       (f\<lparr>panels := run_panels r, last_notification := run_last_notification r\<rparr>) (handoffs r)"

definition ensure_follow_ups :: "coord_room \<Rightarrow> follow_ups" where
  "ensure_follow_ups r =
     (case room_follow_ups r of
        Some f \<Rightarrow> f
      | None \<Rightarrow> (case room_run r of None \<Rightarrow> new_follow_ups | Some run \<Rightarrow> import_run run new_follow_ups))"

datatype follow_up_error =
  InvalidObservation | ControlReused | SettingChanged | InvalidDelivery | PanelRequired | InvalidStage
| ClaimReused | OutcomeRecorded | ClaimUnavailable | DeliveryStopped | FollowUpsUnavailable string
| PanelUnregistered | ClaimedRecently | UpdateChanged | AlreadyClaimed | FollowUpNotSaved

definition delivery_modes :: "string list" where
  "delivery_modes = [''enabled'', ''manual'', ''hidden'', ''unsupported'', ''disconnected'', ''budget'', ''closed'', ''unknown'']"

definition apply_control :: "follow_up_update \<Rightarrow> time \<Rightarrow> follow_ups \<Rightarrow> follow_up_error + follow_ups" where
  "apply_control u now f =
     (if last_control_id f = fu_event u
      then if last_control f \<noteq> fu_stage u \<or> last_control_revision f \<noteq> fu_revision u
           then Inl ControlReused else Inr f
      else if fu_revision u \<noteq> revision f then Inl SettingChanged
      else let f = f\<lparr>follow_enabled := (fu_stage u \<noteq> ''pause'')\<rparr>;
               f = (if fu_stage u = ''renew'' then f\<lparr>allowance_started := now, attempts_used := 0\<rparr> else f)
           in Inr (f\<lparr>last_control_id := fu_event u, last_control := fu_stage u,
                     last_control_revision := fu_revision u, revision := revision f + 1\<rparr>))"

definition place_panel :: "string \<Rightarrow> string \<Rightarrow> time \<Rightarrow> coordination_panel list \<Rightarrow> coordination_panel list" where
  "place_panel key mode now ps =
     (if list_ex (\<lambda>p. panel_key p = key) ps
      then update_first (\<lambda>p. panel_key p = key) (\<lambda>p. p\<lparr>panel_mode := mode, panel_seen_at := now\<rparr>) ps
      else (if length ps \<ge> 8 then tl ps else ps)
           @ [\<lparr>panel_key = key, panel_mode = mode, panel_seen_at = now, panel_started_at = now, panel_attempts = 0\<rparr>])"

definition apply_panel :: "follow_up_update \<Rightarrow> time \<Rightarrow> follow_ups \<Rightarrow> follow_up_error + follow_ups" where
  "apply_panel u now f =
     (if fu_delivery u \<notin> set delivery_modes then Inl InvalidDelivery
      else if fu_panel u = '''' then Inl PanelRequired
      else let f = (if allowance_started f = 0 \<and> fu_delivery u = ''enabled'' \<and> follow_enabled f
                    then f\<lparr>allowance_started := now\<rparr> else f)
           in Inr (f\<lparr>panels := place_panel (fu_panel u) (fu_delivery u) now (panels f)\<rparr>))"

text \<open>A repeated claim or the outcome of a recorded one.\<close>

definition settle_claim :: "follow_up_update \<Rightarrow> follow_up_claim \<Rightarrow> follow_ups \<Rightarrow> follow_up_error + follow_ups" where
  "settle_claim u c f =
     (if claim_update_key c \<noteq> fu_update_key u \<or> claim_result c \<noteq> fu_result u \<or> claim_through c \<noteq> fu_through u
         \<or> claim_run c \<noteq> fu_run u \<or> attempt_panel (claim_attempt c) \<noteq> fu_panel u
         \<or> attempt_automatic (claim_attempt c) \<noteq> fu_automatic u
      then Inl ClaimReused
      else if fu_stage u \<noteq> ''notification_attempted''
      then if attempt_outcome (claim_attempt c) \<noteq> ''host_unknown'' \<and> attempt_outcome (claim_attempt c) \<noteq> fu_stage u
           then Inl OutcomeRecorded
           else Inr (f\<lparr>claims := update_first (\<lambda>c. claim_id c = fu_event u)
                        (\<lambda>c. c\<lparr>claim_attempt := claim_attempt c\<lparr>attempt_outcome := fu_stage u\<rparr>\<rparr>) (claims f)\<rparr>)
      else Inr f)"

definition delivery_stopped :: "time \<Rightarrow> coord_room \<Rightarrow> follow_ups \<Rightarrow> bool" where
  "delivery_stopped now r f \<longleftrightarrow>
     chatgpt_gone now (room_chatgpt r) \<or> chatgpt_paused (the (room_chatgpt r)) \<or> host_paused f
     \<or> run_stopped (room_run r)"

definition panel_ready :: "string \<Rightarrow> time \<Rightarrow> coordination_panel \<Rightarrow> bool" where
  "panel_ready key now p \<longleftrightarrow>
     panel_key p = key \<and> panel_mode p = ''enabled'' \<and> time_sub now (panel_seen_at p) \<le> 45 * second"

definition automatic_refusal :: "follow_up_update \<Rightarrow> time \<Rightarrow> coord_room \<Rightarrow> follow_ups \<Rightarrow> follow_up_error option" where
  "automatic_refusal u now r f =
     (let reason = fv_reason (follow_view now (room_chatgpt r) (room_run r) (Some f))
      in if fu_revision u \<noteq> 0 \<and> fu_revision u \<noteq> revision f then Some SettingChanged
         else if reason \<noteq> '''' \<and> reason \<noteq> ''host_rejected'' \<and> reason \<noteq> ''host_unknown''
         then Some (FollowUpsUnavailable reason)
         else if \<not> list_ex (panel_ready (fu_panel u) now) (panels f) then Some PanelUnregistered
         else None)"

text \<open>A general automatic update: which one it is, and whether it was claimed.\<close>

definition update_refusal :: "string \<Rightarrow> follow_up_update \<Rightarrow> follow_ups \<Rightarrow> follow_up_error option" where
  "update_refusal key u f =
     (if fu_update_key u \<noteq> ''''
      then if fu_update_key u \<noteq> key then Some UpdateChanged
           else if fu_update_key u = notified_key f then Some AlreadyClaimed else None
      else if fu_through u = 0 \<or> fu_through u \<le> notified_through f then Some AlreadyClaimed else None)"

definition claim_refusal :: "string \<Rightarrow> follow_up_update \<Rightarrow> time \<Rightarrow> coord_room \<Rightarrow> follow_ups \<Rightarrow> follow_up_error option" where
  "claim_refusal key u now r f =
     (if fu_stage u \<noteq> ''notification_attempted'' then Some ClaimUnavailable
      else if delivery_stopped now r f then Some DeliveryStopped
      else case (if fu_automatic u then automatic_refusal u now r f else None) of
             Some e \<Rightarrow> Some e
           | None \<Rightarrow>
               if time_sub now (last_notification f) < 20 * second then Some ClaimedRecently
               else if fu_result u = '''' \<and> fu_automatic u then update_refusal key u f
               else None)"

definition push_claim :: "follow_up_claim list \<Rightarrow> follow_up_claim \<Rightarrow> follow_up_claim list" where
  "push_claim cs c = (let cs = cs @ [c] in if length cs > 256 then drop (length cs - 256) cs else cs)"

definition claim_of :: "follow_up_update \<Rightarrow> time \<Rightarrow> follow_up_claim" where
  "claim_of u now =
     \<lparr>claim_attempt = \<lparr>attempt_panel = fu_panel u, attempt_id = fu_event u, attempt_at = now,
                       attempt_outcome = ''host_unknown'', attempt_automatic = fu_automatic u\<rparr>,
      claim_update_key = fu_update_key u, claim_result = fu_result u, claim_through = fu_through u,
      claim_run = fu_run u\<rparr>"

definition grant_claim :: "follow_up_update \<Rightarrow> time \<Rightarrow> follow_ups \<Rightarrow> follow_ups" where
  "grant_claim u now f =
     (let f = (if allowance_started f = 0 \<and> fu_automatic u then f\<lparr>allowance_started := now\<rparr> else f);
          f = (if fu_automatic u then f\<lparr>attempts_used := attempts_used f + 1\<rparr> else f);
          f = f\<lparr>last_notification := now\<rparr>;
          f = (if fu_result u = ''''
               then f\<lparr>notified_through := max (notified_through f) (fu_through u),
                      notified_key := (if fu_update_key u \<noteq> '''' then fu_update_key u else notified_key f)\<rparr>
               else f)
      in f\<lparr>claims := push_claim (claims f) (claim_of u now)\<rparr>)"

definition apply_follow_ups :: "string \<Rightarrow> follow_up_update \<Rightarrow> time \<Rightarrow> coord_room \<Rightarrow> follow_up_error + follow_ups" where
  "apply_follow_ups key u now r =
     (if fu_event u = '''' \<or> length (fu_event u) > 128 \<or> length (fu_panel u) > 128 \<or> length (fu_result u) > 128
         \<or> length (fu_run u) > 128 \<or> length (fu_update_key u) > 64
      then Inl InvalidObservation
      else let f = ensure_follow_ups r
           in if fu_stage u \<in> {''pause'', ''resume'', ''renew''} then apply_control u now f
              else if fu_stage u = ''panel_status'' then apply_panel u now f
              else if fu_stage u \<notin> {''notification_attempted'', ''host_accepted'', ''host_rejected'', ''host_unknown''}
              then Inl InvalidStage
              else case find (\<lambda>c. claim_id c = fu_event u) (claims f) of
                     Some c \<Rightarrow> settle_claim u c f
                   | None \<Rightarrow> (case claim_refusal key u now r f of
                        Some e \<Rightarrow> Inl e
                      | None \<Rightarrow> Inr (grant_claim u now f)))"

text \<open>\<open>ObserveFollowUps\<close>: both the refusal and the failed save put the previous records back.\<close>

definition observe_follow_ups ::
  "(string \<Rightarrow> string) \<Rightarrow> (time \<Rightarrow> string) \<Rightarrow> bool \<Rightarrow> follow_up_update \<times> time \<Rightarrow> coord_room \<Rightarrow>
   (follow_up_error + follow_up_view) \<times> coord_room" where
  "observe_follow_ups digest stamp saved un r =
     (case apply_follow_ups (notification_key digest stamp r) (fst un) (snd un) r of
        Inl e \<Rightarrow> (Inl e, r)
      | Inr f \<Rightarrow> if saved then (Inr (follow_view (snd un) (room_chatgpt r) (room_run r) (Some f)),
                                r\<lparr>room_follow_ups := Some f\<rparr>)
                 else (Inl FollowUpNotSaved, r))"

section \<open>Runs\<close>

text \<open>
  A run of the room seen from its follow-ups: observations, a stop and a resumption by the host,
  and everything else, which may leave any room but does not touch the follow-up record.  The log
  is kept for the theorems: the claims granted and the renewals of the allowance.
\<close>

datatype follow_event =
  Observation follow_up_update time bool
| Host_Stop
| Host_Resume
| Elsewhere coord_room

datatype follow_entry = Granted follow_up_claim | Renewed

definition set_host_paused :: "bool \<Rightarrow> follow_ups \<Rightarrow> follow_ups" where
  "set_host_paused b f = f\<lparr>host_paused := b\<rparr>"

fun follow_step :: "(string \<Rightarrow> string) \<Rightarrow> (time \<Rightarrow> string) \<Rightarrow> follow_event \<Rightarrow> coord_room \<Rightarrow> coord_room" where
  "follow_step digest stamp (Observation u now saved) r = snd (observe_follow_ups digest stamp saved (u, now) r)"
| "follow_step digest stamp Host_Stop r = r\<lparr>room_follow_ups := Some (set_host_paused True (ensure_follow_ups r))\<rparr>"
| "follow_step digest stamp Host_Resume r = r\<lparr>room_follow_ups := map_option (set_host_paused False) (room_follow_ups r)\<rparr>"
| "follow_step digest stamp (Elsewhere t) r = t\<lparr>room_follow_ups := room_follow_ups r\<rparr>"

fun follow_entries :: "(string \<Rightarrow> string) \<Rightarrow> (time \<Rightarrow> string) \<Rightarrow> follow_event \<Rightarrow> coord_room \<Rightarrow> follow_entry list" where
  "follow_entries digest stamp (Observation u now saved) r =
     (case apply_follow_ups (notification_key digest stamp r) u now r of
        Inl e \<Rightarrow> []
      | Inr f \<Rightarrow> if \<not> saved then []
                 else if fu_stage u = ''renew'' \<and> last_control_id (ensure_follow_ups r) \<noteq> fu_event u then [Renewed]
                 else if fu_stage u = ''notification_attempted'' \<and>
                         find (\<lambda>c. claim_id c = fu_event u) (claims (ensure_follow_ups r)) = None
                 then [Granted (claim_of u now)]
                 else [])"
| "follow_entries digest stamp _ r = []"

fun follow_run :: "(string \<Rightarrow> string) \<Rightarrow> (time \<Rightarrow> string) \<Rightarrow> follow_event list \<Rightarrow> coord_room \<Rightarrow> follow_entry list \<times> coord_room" where
  "follow_run digest stamp [] r = ([], r)"
| "follow_run digest stamp (e # es) r =
     (let (log, t) = follow_run digest stamp es (follow_step digest stamp e r)
      in (follow_entries digest stamp e r @ log, t))"

fun granted_claims :: "follow_entry list \<Rightarrow> follow_up_claim list" where
  "granted_claims [] = []"
| "granted_claims (Granted c # es) = c # granted_claims es"
| "granted_claims (Renewed # es) = granted_claims es"

text \<open>The automatic claims granted since the last renewal.\<close>

fun used_since :: "nat \<Rightarrow> follow_entry list \<Rightarrow> nat" where
  "used_since n [] = n"
| "used_since n (Granted c # es) = used_since (if attempt_automatic (claim_attempt c) then n + 1 else n) es"
| "used_since n (Renewed # es) = used_since 0 es"

definition spaced :: "follow_up_claim list \<Rightarrow> bool" where
  "spaced cs = sorted_wrt (\<lambda>a b. attempt_at (claim_attempt a) + 20 * second \<le> attempt_at (claim_attempt b)) cs"

text \<open>No cursor claim repeats or precedes an earlier general claim.\<close>

definition told_once :: "follow_up_claim list \<Rightarrow> bool" where
  "told_once cs =
     sorted_wrt (\<lambda>a b. claim_result a = '''' \<and> claim_result b = '''' \<and> claim_update_key b = ''''
                       \<and> attempt_automatic (claim_attempt b) \<longrightarrow> claim_through a < claim_through b) cs"

text \<open>
  What the rest of the room promises: a participation state allows at most \<open>L\<close> follow-ups and its
  pause reason is none of the two delivery outcomes (the API only sets \<open>no_progress\<close> and
  \<open>exchange_limit\<close>).
\<close>

definition orderly :: "int \<Rightarrow> coord_room \<Rightarrow> bool" where
  "orderly L r \<longleftrightarrow>
     follow_up_limit (effective_limits (room_chatgpt r)) \<le> L \<and>
     (case room_chatgpt r of None \<Rightarrow> True
      | Some s \<Rightarrow> pause_reason s \<noteq> ''host_rejected'' \<and> pause_reason s \<noteq> ''host_unknown'')"

fun orderly_event :: "int \<Rightarrow> follow_event \<Rightarrow> bool" where
  "orderly_event L (Elsewhere t) = orderly L t"
| "orderly_event L _ = True"

section \<open>Lemmas\<close>

interpretation claim_history: bounded_history push_claim 256
  by unfold_locales (auto simp: push_claim_def take_last_def Let_def)

text \<open>A refused or unsaved observation leaves the room as it was; what it keeps is its choice.\<close>

interpretation follow_store: atomic_store
  "\<lambda>(saved, un). observe_follow_ups digest stamp saved un" "\<lambda>r. r" "\<lambda>r. True"
  by unfold_locales (auto simp: observe_follow_ups_def split: sum.splits if_splits)

lemma orderly_frame [simp]: "orderly L (r\<lparr>room_follow_ups := f\<rparr>) = orderly L r"
  by (simp add: orderly_def)

lemma claims_count [simp]: "claims (count_attempt f a) = claims f"
  by (simp add: count_attempt_def)

lemma foldl_claims: "(\<And>f x. claims (g f x) = claims f) \<Longrightarrow> claims (foldl g f xs) = claims f"
  by (induction xs arbitrary: f) simp_all

lemma claims_import [simp]: "claims (import_run r f) = claims f"
  by (simp add: import_run_def foldl_claims)

lemma count_attempt_used: "attempts_used f \<le> attempts_used (count_attempt f a)"
  by (simp add: count_attempt_def)

lemma foldl_used: "(\<And>f x. attempts_used f \<le> attempts_used (g f x)) \<Longrightarrow> attempts_used f \<le> attempts_used (foldl g f xs)"
  by (induction xs arbitrary: f) (auto intro: order_trans)

lemma import_used: "attempts_used f \<le> attempts_used (import_run r f)"
  unfolding import_run_def
  by (rule order_trans [OF _ foldl_used]) (auto intro: foldl_used count_attempt_used)

lemma ensure_none:
  "room_follow_ups r = None \<Longrightarrow> claims (ensure_follow_ups r) = [] \<and> 0 \<le> attempts_used (ensure_follow_ups r)"
  using import_used [of new_follow_ups "the (room_run r)"]
  by (auto simp: ensure_follow_ups_def new_follow_ups_def split: option.splits)

lemma ensure_some: "room_follow_ups r = Some f \<Longrightarrow> ensure_follow_ups r = f"
  by (simp add: ensure_follow_ups_def)

lemma granted_append [simp]: "granted_claims (a @ b) = granted_claims a @ granted_claims b"
  by (induction a rule: granted_claims.induct) simp_all

lemma used_since_append: "used_since n (a @ b) = used_since (used_since n a) b"
  by (induction n a rule: used_since.induct) simp_all

text \<open>Two records that differ only in switches, panels and outcomes.\<close>

definition same_claims :: "follow_ups \<Rightarrow> follow_ups \<Rightarrow> bool" where
  "same_claims f g \<longleftrightarrow>
     map claim_id (claims g) = map claim_id (claims f) \<and> last_notification g = last_notification f \<and>
     notified_through g = notified_through f"

lemma same_claims_refl [simp]: "same_claims f f"
  by (simp add: same_claims_def)

lemma same_claims_paused [simp]: "same_claims f (set_host_paused b f)"
  by (simp add: same_claims_def set_host_paused_def)

lemma used_paused [simp]: "attempts_used (set_host_paused b f) = attempts_used f"
  by (simp add: set_host_paused_def)

lemma apply_control_claims: "apply_control u now f = Inr g \<Longrightarrow> same_claims f g"
  by (auto simp: apply_control_def same_claims_def Let_def split: if_splits)

lemma apply_control_used:
  "apply_control u now f = Inr g \<Longrightarrow>
   attempts_used g = (if fu_stage u = ''renew'' \<and> last_control_id f \<noteq> fu_event u then 0 else attempts_used f)"
  by (auto simp: apply_control_def Let_def split: if_splits)

lemma apply_panel_same: "apply_panel u now f = Inr g \<Longrightarrow> same_claims f g \<and> attempts_used g = attempts_used f"
  by (auto simp: apply_panel_def same_claims_def Let_def split: if_splits)

lemma settle_claim_same: "settle_claim u c f = Inr g \<Longrightarrow> same_claims f g \<and> attempts_used g = attempts_used f"
  by (auto simp: settle_claim_def same_claims_def Let_def map_update_first split: if_splits)

text \<open>What an accepted observation did.\<close>

lemma apply_cases:
  assumes "apply_follow_ups key u now r = Inr g"
  obtains (quiet) "same_claims (ensure_follow_ups r) g"
      "attempts_used g = (if fu_stage u = ''renew'' \<and> last_control_id (ensure_follow_ups r) \<noteq> fu_event u
                          then 0 else attempts_used (ensure_follow_ups r))"
      "fu_stage u = ''notification_attempted'' \<Longrightarrow>
         find (\<lambda>c. claim_id c = fu_event u) (claims (ensure_follow_ups r)) \<noteq> None"
    | (grant) "fu_stage u = ''notification_attempted''"
      "find (\<lambda>c. claim_id c = fu_event u) (claims (ensure_follow_ups r)) = None"
      "claim_refusal key u now r (ensure_follow_ups r) = None"
      "g = grant_claim u now (ensure_follow_ups r)"
proof -
  let ?f = "ensure_follow_ups r"
  note ap = assms [unfolded apply_follow_ups_def Let_def]
  show thesis
  proof (cases "fu_stage u \<in> {''pause'', ''resume'', ''renew''}")
    case True
    then have "apply_control u now ?f = Inr g" using ap by (simp split: if_splits)
    with True show thesis by (intro quiet) (auto simp: apply_control_claims apply_control_used)
  next
    case control: False
    show thesis
    proof (cases "fu_stage u = ''panel_status''")
      case True
      then have "apply_panel u now ?f = Inr g" using ap by (simp split: if_splits)
      with True show thesis by (intro quiet) (auto dest: apply_panel_same)
    next
      case False
      then consider (old) c where "find (\<lambda>c. claim_id c = fu_event u) (claims ?f) = Some c" "settle_claim u c ?f = Inr g"
        | (new) "find (\<lambda>c. claim_id c = fu_event u) (claims ?f) = None"
            "claim_refusal key u now r ?f = None" "g = grant_claim u now ?f"
        using ap control by (auto split: if_splits option.splits)
      then show thesis
      proof cases
        case old
        with control show thesis by (intro quiet) (auto dest: settle_claim_same)
      next
        case new
        then have "fu_stage u = ''notification_attempted''"
          by (auto simp: claim_refusal_def split: if_splits)
        with new show thesis by (intro grant)
      qed
    qed
  qed
qed

lemma allowance_left:
  assumes "automatic_refusal u now r f = None" "orderly L r"
  shows "attempts_used f < L"
proof -
  have "remaining_follow_ups (room_chatgpt r) f \<noteq> 0"
  proof
    assume "remaining_follow_ups (room_chatgpt r) f = 0"
    then have "snd (delivery_status now (room_chatgpt r) (room_run r) f) \<notin> {'''', ''host_rejected'', ''host_unknown''}"
      using assms(2) by (auto simp: delivery_status_def orderly_def chatgpt_gone_def split: option.splits)
    with assms(1) show False
      by (auto simp: automatic_refusal_def follow_view_def Let_def split: if_splits)
  qed
  with assms(2) show ?thesis by (auto simp: remaining_follow_ups_def orderly_def max_def split: if_splits)
qed

lemma claim_allowed:
  assumes "claim_refusal key u now r f = None"
  shows "last_notification f + 20 * second \<le> now"
    and "fu_automatic u \<Longrightarrow> automatic_refusal u now r f = None"
    and "fu_automatic u \<Longrightarrow> fu_result u = '''' \<Longrightarrow> fu_update_key u = '''' \<Longrightarrow> notified_through f < fu_through u"
    and "fu_automatic u \<Longrightarrow> fu_result u = '''' \<Longrightarrow> fu_update_key u \<noteq> '''' \<Longrightarrow>
         fu_update_key u = key \<and> fu_update_key u \<noteq> notified_key f"
    and "\<not> delivery_stopped now r f"
  using assms
  by (auto simp: claim_refusal_def update_refusal_def time_sub_less_iff min_int64_def max_int64_def
      split: if_splits option.splits)

lemma grant_claim_simps [simp]:
  "last_notification (grant_claim u now f) = now"
  "claims (grant_claim u now f) = push_claim (claims f) (claim_of u now)"
  "attempts_used (grant_claim u now f) = (if fu_automatic u then attempts_used f + 1 else attempts_used f)"
  "notified_through (grant_claim u now f) =
     (if fu_result u = '''' then max (notified_through f) (fu_through u) else notified_through f)"
  "host_paused (grant_claim u now f) = host_paused f"
  by (simp_all add: grant_claim_def Let_def)

lemma claim_of_simps [simp]:
  "claim_id (claim_of u now) = fu_event u"
  "attempt_at (claim_attempt (claim_of u now)) = now"
  "attempt_automatic (claim_attempt (claim_of u now)) = fu_automatic u"
  "claim_result (claim_of u now) = fu_result u"
  "claim_through (claim_of u now) = fu_through u"
  "claim_update_key (claim_of u now) = fu_update_key u"
  by (simp_all add: claim_of_def)

text \<open>The record and the log agree.\<close>

definition log_matches :: "int \<Rightarrow> follow_entry list \<Rightarrow> follow_ups \<Rightarrow> bool" where
  "log_matches L es f \<longleftrightarrow>
     spaced (granted_claims es) \<and> told_once (granted_claims es) \<and>
     (\<forall>c\<in>set (granted_claims es). attempt_at (claim_attempt c) \<le> last_notification f) \<and>
     (\<forall>c\<in>set (granted_claims es). claim_result c = '''' \<longrightarrow> claim_through c \<le> notified_through f) \<and>
     int (used_since 0 es) \<le> attempts_used f \<and> int (used_since 0 es) \<le> L \<and>
     map claim_id (claims f) = map claim_id (take_last 256 (granted_claims es)) \<and>
     distinct (map claim_id (take_last 256 (granted_claims es)))"

definition follow_inv :: "int \<Rightarrow> follow_entry list \<Rightarrow> coord_room \<Rightarrow> bool" where
  "follow_inv L es r \<longleftrightarrow> orderly L r \<and> 0 \<le> L \<and>
     (case room_follow_ups r of None \<Rightarrow> granted_claims es = [] \<and> used_since 0 es = 0 | Some f \<Rightarrow> log_matches L es f)"

lemma map_take_last: "map g (take_last n xs) = take_last n (map g xs)"
  by (simp add: take_last_def drop_map)

lemma log_matches_ensure: "follow_inv L es r \<Longrightarrow> log_matches L es (ensure_follow_ups r)"
  using ensure_none [of r]
  by (auto simp: follow_inv_def ensure_some log_matches_def spaced_def told_once_def take_last_def split: option.splits)

lemma log_matches_same:
  assumes "log_matches L es f" "same_claims f g" "attempts_used g = attempts_used f"
  shows "log_matches L es g"
proof -
  have "attempts_used g = attempts_used f" "last_notification g = last_notification f"
    "notified_through g = notified_through f" "map claim_id (claims g) = map claim_id (claims f)"
    using assms(2,3) by (simp_all only: same_claims_def)
  with assms(1) show ?thesis unfolding log_matches_def by (elim conjE, intro conjI) simp_all
qed

lemma log_matches_renew:
  assumes "log_matches L es f" "same_claims f g" "attempts_used g = 0" "0 \<le> L"
  shows "log_matches L (es @ [Renewed]) g"
proof -
  have "last_notification g = last_notification f" "notified_through g = notified_through f"
    "map claim_id (claims g) = map claim_id (claims f)"
    using assms(2) by (simp_all only: same_claims_def)
  with assms(1,3,4) show ?thesis unfolding log_matches_def
    by (elim conjE, intro conjI) (simp_all add: used_since_append)
qed

lemma length_claims_matches:
  "log_matches L es f \<Longrightarrow> length (claims f) \<le> 256"
  unfolding log_matches_def by (metis length_map length_take_last min.cobounded1)

lemma distinct_take_last: "distinct xs \<Longrightarrow> distinct (take_last n xs)"
  by (simp add: take_last_def)

lemma log_matches_grant:
  assumes L: "log_matches L es f" and ref: "claim_refusal key u now r f = None"
    and new: "find (\<lambda>c. claim_id c = fu_event u) (claims f) = None" and ord: "orderly L r"
  shows "log_matches L (es @ [Granted (claim_of u now)]) (grant_claim u now f)"
proof -
  note a = claim_allowed [OF ref]
  have len: "length (claims f) \<le> 256" using L by (rule length_claims_matches)
  have push: "claims (grant_claim u now f) = take_last 256 (claims f @ [claim_of u now])"
    using claim_history.push_law [OF len] by simp
  have ids0: "map claim_id (claims f) = map claim_id (take_last 256 (granted_claims es))"
    using L unfolding log_matches_def by (elim conjE)
  have ids: "map claim_id (claims (grant_claim u now f)) =
      map claim_id (take_last 256 (granted_claims es @ [claim_of u now]))"
  proof -
    have "map claim_id (claims (grant_claim u now f)) =
        take_last 256 (take_last 256 (map claim_id (granted_claims es)) @ [fu_event u])"
      unfolding push by (simp only: map_take_last map_append ids0 list.map claim_of_simps)
    then show ?thesis by (simp add: take_last_append map_take_last)
  qed
  have "distinct (map claim_id (claims f))" using L unfolding ids0 log_matches_def by (elim conjE)
  then have "distinct (map claim_id (claims f @ [claim_of u now]))"
    using new by (auto simp: find_None_iff)
  then have "distinct (map claim_id (claims (grant_claim u now f)))"
    unfolding push map_take_last by (rule distinct_take_last)
  then have dist: "distinct (map claim_id (take_last 256 (granted_claims (es @ [Granted (claim_of u now)]))))"
    unfolding ids by simp
  have used: "int (used_since 0 es) + (if fu_automatic u then 1 else 0) \<le> L"
    using L allowance_left [OF a(2) ord] by (auto simp: log_matches_def)
  show ?thesis
    unfolding log_matches_def
  proof (intro conjI)
    show "spaced (granted_claims (es @ [Granted (claim_of u now)]))"
      using L a(1) by (force simp: log_matches_def spaced_def sorted_wrt_append)
    show "told_once (granted_claims (es @ [Granted (claim_of u now)]))"
      using L a(3) by (force simp: log_matches_def told_once_def sorted_wrt_append)
    show "\<forall>c\<in>set (granted_claims (es @ [Granted (claim_of u now)])).
        attempt_at (claim_attempt c) \<le> last_notification (grant_claim u now f)"
      using L a(1) by (force simp: log_matches_def)
    show "\<forall>c\<in>set (granted_claims (es @ [Granted (claim_of u now)])).
        claim_result c = '''' \<longrightarrow> claim_through c \<le> notified_through (grant_claim u now f)"
      using L by (auto simp: log_matches_def)
    show "int (used_since 0 (es @ [Granted (claim_of u now)])) \<le> attempts_used (grant_claim u now f)"
      using L by (simp add: log_matches_def used_since_append)
    show "int (used_since 0 (es @ [Granted (claim_of u now)])) \<le> L"
      using used by (simp add: used_since_append split: if_splits)
    show "map claim_id (claims (grant_claim u now f)) =
        map claim_id (take_last 256 (granted_claims (es @ [Granted (claim_of u now)])))"
      using ids by simp
  qed (rule dist)
qed

lemma observation_inv:
  assumes I: "follow_inv L es r"
  shows "follow_inv L (es @ follow_entries digest stamp (Observation u now saved) r)
           (follow_step digest stamp (Observation u now saved) r)"
proof (cases "apply_follow_ups (notification_key digest stamp r) u now r")
  case (Inl e)
  with I show ?thesis by (simp add: observe_follow_ups_def)
next
  case (Inr g)
  note M = log_matches_ensure [OF I]
  have ord: "orderly L r" "0 \<le> L" using I by (simp_all add: follow_inv_def)
  show ?thesis
  proof (cases saved)
    case False
    with Inr I show ?thesis by (simp add: observe_follow_ups_def)
  next
    case True
    from Inr show ?thesis
    proof (cases rule: apply_cases)
      case quiet
      show ?thesis
      proof (cases "fu_stage u = ''renew'' \<and> last_control_id (ensure_follow_ups r) \<noteq> fu_event u")
        case new: True
        then have "log_matches L (es @ [Renewed]) g"
          using quiet(2) by (intro log_matches_renew [OF M quiet(1) _ ord(2)]) simp
        with new Inr True ord show ?thesis by (simp add: observe_follow_ups_def follow_inv_def)
      next
        case False
        then have "log_matches L es g"
          using quiet(2) by (intro log_matches_same [OF M quiet(1)]) auto
        moreover have "follow_entries digest stamp (Observation u now saved) r = []"
          using False quiet(3) Inr by auto
        ultimately show ?thesis using Inr True ord by (simp add: observe_follow_ups_def follow_inv_def)
      qed
    next
      case grant
      with log_matches_grant [OF M grant(3,2) ord(1)] show ?thesis using Inr True ord
        by (simp add: observe_follow_ups_def follow_inv_def)
    qed
  qed
qed

lemma follow_step_inv:
  assumes "follow_inv L es r" "orderly_event L e"
  shows "follow_inv L (es @ follow_entries digest stamp e r) (follow_step digest stamp e r)"
proof (cases e)
  case (Observation u now saved)
  with observation_inv [OF assms(1)] show ?thesis by simp
next
  case Host_Stop
  have "log_matches L es (set_host_paused True (ensure_follow_ups r))"
    by (rule log_matches_same [OF log_matches_ensure [OF assms(1)]]) simp_all
  with Host_Stop assms show ?thesis by (simp add: follow_inv_def)
next
  case Host_Resume
  have "log_matches L es (set_host_paused False f)" if "room_follow_ups r = Some f" for f
    by (rule log_matches_same [of L es f]) (use that assms(1) in \<open>simp_all add: follow_inv_def\<close>)
  with Host_Resume assms show ?thesis by (auto simp: follow_inv_def split: option.splits)
next
  case (Elsewhere t)
  with assms show ?thesis by (simp add: follow_inv_def)
qed

lemma follow_run_inv:
  assumes "follow_inv L es r" "list_all (orderly_event L) evs" "follow_run digest stamp evs r = (log, t)"
  shows "follow_inv L (es @ log) t"
  using assms
proof (induction evs arbitrary: es r log)
  case (Cons e evs)
  obtain log' where run: "follow_run digest stamp evs (follow_step digest stamp e r) = (log', t)"
    and log: "log = follow_entries digest stamp e r @ log'"
    using Cons.prems(3) by (auto split: prod.splits)
  from Cons.IH [OF follow_step_inv [OF Cons.prems(1)] _ run] Cons.prems(2) log show ?case by simp
qed simp

lemma effective_limit_pos: "0 < follow_up_limit (effective_limits st)"
  by (auto simp: effective_limits_def default_limits_def split: option.splits)

lemma host_paused_observed:
  assumes "apply_follow_ups key u now r = Inr g"
  shows "host_paused g = host_paused (ensure_follow_ups r)"
  using assms
  by (auto simp: apply_follow_ups_def apply_control_def apply_panel_def settle_claim_def Let_def
      split: if_splits option.splits)

lemma paused_step:
  assumes "room_follow_ups r = Some f" "host_paused f" "e \<noteq> Host_Resume"
  shows "\<exists>g. room_follow_ups (follow_step digest stamp e r) = Some g \<and> host_paused g"
    and "granted_claims (follow_entries digest stamp e r) = []"
proof -
  show "\<exists>g. room_follow_ups (follow_step digest stamp e r) = Some g \<and> host_paused g"
    using assms
    by (cases e) (auto simp: observe_follow_ups_def ensure_some set_host_paused_def host_paused_observed split: sum.splits)
  show "granted_claims (follow_entries digest stamp e r) = []"
  proof (cases e)
    case (Observation u now saved)
    have "g \<noteq> grant_claim u now f \<or> find (\<lambda>c. claim_id c = fu_event u) (claims f) \<noteq> None \<or> fu_stage u \<noteq> ''notification_attempted''"
      if "apply_follow_ups (notification_key digest stamp r) u now r = Inr g" for g
      using that
    proof (cases rule: apply_cases)
      case grant
      then have False using claim_allowed(5) [OF grant(3)] assms by (simp add: ensure_some delivery_stopped_def)
      then show ?thesis ..
    qed (use assms in \<open>auto simp: ensure_some\<close>)
    moreover have "g = grant_claim u now f" if "apply_follow_ups (notification_key digest stamp r) u now r = Inr g"
      "find (\<lambda>c. claim_id c = fu_event u) (claims f) = None" "fu_stage u = ''notification_attempted''" for g
      using that(1) by (cases rule: apply_cases) (use that assms in \<open>auto simp: ensure_some\<close>)
    ultimately show ?thesis using Observation assms by (auto simp: ensure_some split: sum.splits)
  qed simp_all
qed

lemma paused_run:
  "room_follow_ups r = Some f \<Longrightarrow> host_paused f \<Longrightarrow> Host_Resume \<notin> set evs \<Longrightarrow>
   granted_claims (fst (follow_run digest stamp evs r)) = []"
proof (induction evs arbitrary: r f)
  case (Cons e evs)
  from Cons.prems(3) have "e \<noteq> Host_Resume" by auto
  note step = paused_step [OF Cons.prems(1,2) this, of digest stamp]
  from step(1) obtain g where "room_follow_ups (follow_step digest stamp e r) = Some g" "host_paused g" by blast
  from Cons.IH [OF this] Cons.prems(3) step(2) show ?case
    by (simp add: split_beta Let_def)
qed simp

section \<open>Properties\<close>


text \<open>
  After the host stopped the room no notification is granted, whatever panels observe and
  whatever else happens (a renewed allowance and a new grant included), until the host resumes.
\<close>

theorem stop_silences:
  assumes "Host_Resume \<notin> set evs"
  shows "granted_claims (fst (follow_run digest stamp (Host_Stop # evs) r)) = []"
  using paused_run [OF _ _ assms] by (simp add: split_beta Let_def set_host_paused_def)

section \<open>Examples\<close>

definition sample_coord_room :: coord_room where
  "sample_coord_room =
     \<lparr>room_follow_ups = None,
      room_chatgpt = Some \<lparr>chatgpt_enabled = True, chatgpt_connected = True, chatgpt_paused = False,
        expires_at = 0, lease_until = 0, exchanges_remaining = 3,
        chatgpt_limits = \<lparr>exchanges = 3, follow_up_limit = 2, follow_up_seconds = 600, repeated_requests = 3\<rparr>,
        pause_reason = ''''\<rparr>,
      room_run = None, room_messages = [], room_jobs = [], room_workflows = [], room_activities = [],
      pending_posts = [], room_next = 1\<rparr>"

definition sample_update :: "string \<Rightarrow> string \<Rightarrow> nat \<Rightarrow> nat \<Rightarrow> follow_up_update" where
  "sample_update stage event through n =
     \<lparr>fu_update_key = '''', fu_stage = stage, fu_event = event, fu_panel = ''p'', fu_delivery = ''enabled'',
      fu_revision = n, fu_automatic = True, fu_through = through, fu_run = '''', fu_result = ''''\<rparr>"

definition sample_follow_events :: "follow_event list" where
  "sample_follow_events =
     [Observation (sample_update ''panel_status'' ''s'' 0 0) (100 * second) True,
      Observation (sample_update ''notification_attempted'' ''a'' 1 1) (101 * second) True,
      Observation (sample_update ''notification_attempted'' ''b'' 2 1) (110 * second) True,
      Observation (sample_update ''notification_attempted'' ''b'' 2 1) (121 * second) True,
      Observation (sample_update ''notification_attempted'' ''c'' 3 1) (142 * second) True,
      Observation (sample_update ''renew'' ''r'' 0 1) (143 * second) True,
      Observation (sample_update ''notification_attempted'' ''c'' 3 2) (144 * second) True]"

lemmas follow_sample_defs = sample_coord_room_def sample_update_def sample_follow_events_def

lemma sample_follow_ids:
  "map claim_id (granted_claims (fst (follow_run (\<lambda>s. s) (\<lambda>_. '''') sample_follow_events sample_coord_room)))
   = [''a'', ''b'', ''c'']"
  by code_simp

lemma sample_orderly: "orderly 32 sample_coord_room"
  by (simp add: orderly_def effective_limits_def follow_sample_defs)


theorem stop_silences_witness:
  "granted_claims (fst (follow_run (\<lambda>s. s) (\<lambda>_. '''') (Host_Stop # sample_follow_events) sample_coord_room)) = []"
  by (rule stop_silences) (simp add: follow_sample_defs)

end
