(* ===== verification/Coordination_Ledger.thy ===== *)
theory Coordination_Ledger
  imports Follow_Ups
begin

text \<open>
  The ledger of a monitored run (\<^verbatim>\<open>internal/room/coordination.go\<close> and the state changes of
  \<^verbatim>\<open>internal/room/continuation.go\<close> that need no dispatch): reconciling the run with the durable
  jobs and workflows of its room.  The room's locks are held over it, so it is one step.  The
  entries of the Go map \<open>Workflows\<close> are in the order the iteration happens to take.
\<close>

section \<open>Reading the room\<close>

definition job_open :: "conversation_job \<Rightarrow> bool" where
  "job_open j \<longleftrightarrow> \<not> conversation_terminal (job_state j)"

definition run_source :: "coordination_run \<Rightarrow> message \<Rightarrow> bool" where
  "run_source run m \<longleftrightarrow>
     \<not> (sequence m < start_sequence run \<or> (author m \<noteq> ChatGPT \<and> author m \<noteq> User)) \<and>
     \<not> (requested_replies m = [] \<and> (workflow_id m = '''' \<or> \<not> is_workflow_source m))"

definition find_handoff :: "string \<Rightarrow> coordination_run \<Rightarrow> handoff option" where
  "find_handoff key run = (if key = '''' then None else find (\<lambda>h. handoff_key h = key) (handoffs run))"

definition change_handoff :: "string \<Rightarrow> (handoff \<Rightarrow> handoff) \<Rightarrow> coordination_run \<Rightarrow> coordination_run" where
  "change_handoff key f run = run\<lparr>handoffs := update_first (\<lambda>h. handoff_key h = key) f (handoffs run)\<rparr>"

definition find_continuation :: "string \<Rightarrow> coordination_run \<Rightarrow> continuation option" where
  "find_continuation w run = find (\<lambda>c. parent_workflow c = w) (continuations run)"

section \<open>Continuations\<close>

text \<open>The dispatched message of a continuation decides its state, also after a restart.\<close>

definition dispatch_outcome :: "continuation \<Rightarrow> conversation_job \<Rightarrow> continuation" where
  "dispatch_outcome c j =
     (let c = c\<lparr>cont_state := ''running'', cont_reason := ''''\<rparr>
      in if job_open j then c
         else if job_state j \<noteq> ConversationAnswered
         then c\<lparr>cont_state := ''blocked'', cont_reason := ''Review did not complete; coordinator action required''\<rparr>
         else c\<lparr>cont_state := ''completed''\<rparr>)"

definition routed_as :: "string \<Rightarrow> message \<Rightarrow> bool" where
  "routed_as key m = (case route m of None \<Rightarrow> False | Some rt \<Rightarrow> route_message_id rt = key)"

definition reconcile_dispatch :: "coord_room \<Rightarrow> continuation \<Rightarrow> bool \<times> continuation" where
  "reconcile_dispatch r c =
     (case find (routed_as (cont_id c)) (room_messages r) of
        None \<Rightarrow> (False, c)
      | Some m \<Rightarrow>
          (True, foldl (\<lambda>c j. if job_source_sequence j = sequence m then dispatch_outcome c j else c)
                   (c\<lparr>cont_assignment_sequence := sequence m, cont_state := ''blocked'',
                      cont_reason := ''Dispatch outcome unknown; inspect saved assignment before retrying''\<rparr>)
                   (room_jobs r)))"

definition cancel_continuation :: "string \<Rightarrow> coord_room \<Rightarrow> continuation \<Rightarrow> continuation" where
  "cancel_continuation reason r c =
     (if cont_state c = ''queued''
      then let (found, c) = reconcile_dispatch r c
           in if found then c else c\<lparr>cont_state := ''cancelled'', cont_reason := reason\<rparr>
      else c)"

definition cancel_continuations :: "string \<Rightarrow> coord_room \<Rightarrow> coordination_run \<Rightarrow> bool \<times> coordination_run" where
  "cancel_continuations reason r run =
     (list_ex (\<lambda>c. cont_state c = ''queued'') (continuations run),
      run\<lparr>continuations := map (cancel_continuation reason r) (continuations run)\<rparr>)"

section \<open>Assignments\<close>

definition work_persisted :: "coord_room \<Rightarrow> message \<Rightarrow> bool" where
  "work_persisted r m =
     (case map_of (room_workflows r) (workflow_id m) of
        None \<Rightarrow> False
      | Some w \<Rightarrow> wf_wait_reason w \<noteq> ''could not persist ChatGPT work request'')"

definition reply_persisted :: "coord_room \<Rightarrow> message \<Rightarrow> conversation_job \<Rightarrow> bool" where
  "reply_persisted r m j \<longleftrightarrow>
     job_source_sequence j = sequence m \<and> terminal_reason j \<noteq> ''could not persist peer reply request''
     \<and> job_id j \<notin> set (pending_posts r)"

definition dispatch_accepted :: "coord_room \<Rightarrow> message \<Rightarrow> bool" where
  "dispatch_accepted r m \<longleftrightarrow> work_persisted r m \<or> list_ex (reply_persisted r m) (room_jobs r)"

definition resolve_by_assignment :: "message \<Rightarrow> handoff \<Rightarrow> handoff" where
  "resolve_by_assignment m h =
     h\<lparr>resolution := ''assignment_accepted'', resolved_at := created_at m, assignment_sequence := sequence m,
       waiting_on := '''', waiting_for := '''', needs_reconciliation := False\<rparr>"

definition accept_handoff :: "string \<Rightarrow> message \<Rightarrow> coordination_run \<Rightarrow> bool \<times> coordination_run" where
  "accept_handoff key m run =
     (case find_handoff key run of
        None \<Rightarrow> (False, run)
      | Some h \<Rightarrow> if handoff_open h \<or> resolution h = ''coordinator_reported_blocked''
                  then (True, change_handoff key (resolve_by_assignment m) run) else (False, run))"

definition register_continuation :: "continuation_spec option \<Rightarrow> message \<Rightarrow> coordination_run \<Rightarrow> bool \<times> coordination_run" where
  "register_continuation spec m run =
     (case spec of
        None \<Rightarrow> (False, run)
      | Some sp \<Rightarrow>
          if find_continuation (workflow_id m) run = None
          then (True, run\<lparr>continuations := continuations run @
                  [\<lparr>cont_id = ''continuation_'' @ workflow_id m, parent_workflow = workflow_id m,
                    cont_source_sequence = sequence m, cont_spec = sp, cont_state = ''queued'', cont_reason = '''',
                    cont_assignment_sequence = 0\<rparr>]\<rparr>)
          else (False, run))"

definition accept_dispatch :: "coord_room \<Rightarrow> bool \<times> coordination_run \<Rightarrow> message \<Rightarrow> bool \<times> coordination_run" where
  "accept_dispatch r cr m =
     (case coordination m of
        None \<Rightarrow> cr
      | Some d \<Rightarrow>
          if run_id d = run_key (snd cr) \<and> workflow_id m \<notin> set (pending_posts r) \<and> dispatch_accepted r m
          then let (c1, run) = accept_handoff (handoff_id d) m (snd cr);
                   (c2, run) = register_continuation (dispatch_continuation d) m run
               in (fst cr \<or> c1 \<or> c2, run)
          else cr)"

definition empty_update :: coordinator_update where
  "empty_update = \<lparr>up_waiting_on = '''', up_handoff_only = False, up_objective = None, up_next_action = '''',
     up_owner = '''', up_waiting_for = '''', up_automatic = False, up_panel_id = '''', up_delivery = ''''\<rparr>"

definition plain_event :: "string \<Rightarrow> string \<Rightarrow> string \<Rightarrow> time \<Rightarrow> nat \<Rightarrow> string \<Rightarrow> coordination_event" where
  "plain_event key ekind result at n outcome =
     \<lparr>event_update = empty_update, event_detail = '''', event_key = key, event_kind = ekind, event_at = at,
      event_result_id = result, event_source_sequence = n, event_outcome = outcome\<rparr>"

definition assignment_event :: "message \<Rightarrow> coordination_event" where
  "assignment_event m =
     plain_event (''assignment:'' @ show_nat (sequence m)) ''assignment_accepted'' '''' (created_at m) (sequence m) ''''"

definition assignment_events :: "coordination_run \<Rightarrow> message list \<Rightarrow> coordination_event list" where
  "assignment_events run srcs = map assignment_event (filter (\<lambda>m. created_at m > last_assignment_at run) srcs)"
section \<open>Jobs and workflows\<close>

text \<open>\<open>sources\<close>: the sequences of the run's messages; a later message of a sequence replaces an earlier one.\<close>

definition is_source :: "message list \<Rightarrow> nat \<Rightarrow> bool" where
  "is_source srcs n \<longleftrightarrow> list_ex (\<lambda>m. sequence m = n) srcs"

definition source_message :: "message list \<Rightarrow> nat \<Rightarrow> message" where
  "source_message srcs n = (case find (\<lambda>m. sequence m = n) (rev srcs) of Some m \<Rightarrow> m | None \<Rightarrow> empty_message)"

definition source_jobs :: "message list \<Rightarrow> coord_room \<Rightarrow> conversation_job list" where
  "source_jobs srcs r = filter (\<lambda>j. is_source srcs (job_source_sequence j)) (room_jobs r)"

definition job_events :: "time \<Rightarrow> conversation_job list \<Rightarrow> coordination_event list" where
  "job_events since js =
     concat (map (\<lambda>j. case completed_at j of
         Some t \<Rightarrow> if \<not> job_open j \<and> \<not> t < since
                   then [plain_event (''reply:'' @ job_id j) ''result_available'' (''reply:'' @ job_id j) t
                           (job_source_sequence j) (conversation_state_name (job_state j))]
                   else []
       | None \<Rightarrow> []) js)"

text \<open>The first source of a workflow that belongs to the run; sequence 0 counts as none.\<close>

definition workflow_source :: "message list \<Rightarrow> workflow \<Rightarrow> nat" where
  "workflow_source srcs w = (case find (is_source srcs) (wf_sources w) of Some n \<Rightarrow> n | None \<Rightarrow> 0)"

definition source_workflows :: "message list \<Rightarrow> coord_room \<Rightarrow> workflow list" where
  "source_workflows srcs r = filter (\<lambda>w. workflow_source srcs w \<noteq> 0) (map snd (room_workflows r))"

definition same_result :: "string \<Rightarrow> handoff \<Rightarrow> bool" where
  "same_result key h \<longleftrightarrow> handoff_key h = key \<or> has_prefix (handoff_key h) (key @ ''@'')"

definition awaits_rerun :: "workflow \<Rightarrow> handoff \<Rightarrow> bool" where
  "awaits_rerun w h \<longleftrightarrow> handoff_open h \<and> same_result (''work:'' @ wf_id w) h \<and> waiting_for h \<noteq> wf_id w"

definition wait_for_rerun :: "bool \<times> coordination_run \<Rightarrow> workflow \<Rightarrow> bool \<times> coordination_run" where
  "wait_for_rerun cr w =
     (if workflow_live (wf_state w)
      then (fst cr \<or> list_ex (awaits_rerun w) (handoffs (snd cr)),
            (snd cr)\<lparr>handoffs := map (\<lambda>h. if awaits_rerun w h then h\<lparr>waiting_for := wf_id w\<rparr> else h)
                                   (handoffs (snd cr))\<rparr>)
      else cr)"

definition workflow_time :: "workflow \<Rightarrow> time" where
  "workflow_time w = (case wf_completed_at w of Some t \<Rightarrow> t | None \<Rightarrow> wf_updated_at w)"

definition workflow_events :: "time \<Rightarrow> message list \<Rightarrow> workflow list \<Rightarrow> coordination_event list" where
  "workflow_events since srcs ws =
     concat (map (\<lambda>w. if \<not> workflow_live (wf_state w) \<and> \<not> workflow_time w < since
         then [plain_event (''work:'' @ wf_id w @ '':'' @ workflow_state_name (wf_state w)) ''result_available''
                 (''work:'' @ wf_id w) (workflow_time w) (workflow_source srcs w) (workflow_state_name (wf_state w))]
         else []) ws)"

definition pending_jobs :: "message list \<Rightarrow> coord_room \<Rightarrow> nat" where
  "pending_jobs srcs r =
     length (filter job_open (source_jobs srcs r)) +
     length (filter (\<lambda>w. workflow_live (wf_state w)) (source_workflows srcs r))"

definition waiting_jobs :: "message list \<Rightarrow> coord_room \<Rightarrow> nat" where
  "waiting_jobs srcs r =
     length (filter (\<lambda>j. job_open j \<and> job_state j \<noteq> ConversationAnswering) (source_jobs srcs r)) +
     length (filter (\<lambda>w. workflow_live (wf_state w) \<and> wf_state w \<noteq> WorkflowActive) (source_workflows srcs r))"

section \<open>Results\<close>

definition result_job :: "string \<Rightarrow> handoff \<Rightarrow> conversation_job \<Rightarrow> handoff" where
  "result_job key h j =
     (if ''reply:'' @ job_id j = key
      then h\<lparr>handoff_participant := (if assigned j = '''' \<and> requested_agents j \<noteq> []
                                      then hd (requested_agents j) else assigned j),
             result_sequence := answer_sequence j\<rparr>
      else h)"

definition result_answer :: "string \<Rightarrow> handoff \<Rightarrow> message \<Rightarrow> handoff" where
  "result_answer key h m =
     (if workflow_id m \<noteq> '''' \<and> ''work:'' @ workflow_id m = key \<and> kind m = MessageText \<and> valid_agent (author m)
      then h\<lparr>result_sequence := sequence m, handoff_participant := author m\<rparr> else h)"

definition new_handoff :: "coord_room \<Rightarrow> message list \<Rightarrow> coordination_event \<Rightarrow> handoff" where
  "new_handoff r srcs e =
     (let h = \<lparr>actionable_since = 0, waiting_on = '''', needs_reconciliation = False,
               handoff_key = event_result_id e, source_sequence = event_source_sequence e, result_sequence = 0,
               handoff_participant = target (source_message srcs (event_source_sequence e)),
               handoff_outcome = event_outcome e, ready_at = event_at e, acknowledged_at = 0, resolved_at = 0,
               resolution = '''', assignment_sequence = 0, next_action = '''', handoff_owner = ''chatgpt'',
               waiting_for = '''', handoff_attempts = []\<rparr>;
          h = foldl (result_job (event_result_id e)) h (room_jobs r)
      in foldl (result_answer (event_result_id e)) h (room_messages r))"

text \<open>The handoffs of one result: the first with the latest time.\<close>

definition latest_handoff :: "string \<Rightarrow> handoff list \<Rightarrow> nat option" where
  "latest_handoff key hs =
     foldl (\<lambda>l i. if same_result key (hs ! i) \<and>
                     (case l of None \<Rightarrow> True | Some k \<Rightarrow> ready_at (hs ! i) > ready_at (hs ! k))
                  then Some i else l) None [0..<length hs]"

text \<open>\<open>Time.UnixNano\<close>: nanoseconds since 1970, 62135596800 seconds after Go's zero time.\<close>

definition unix_nano :: "time \<Rightarrow> int" where
  "unix_nano t = wrap64 (t - 62135596800 * second)"

definition supersede :: "time \<Rightarrow> handoff \<Rightarrow> handoff" where
  "supersede t h =
     (if handoff_open h \<or> resolution h = ''coordinator_reported_blocked''
      then h\<lparr>resolution := ''superseded_by_result'', resolved_at := t\<rparr> else h)"

definition record_result :: "coord_room \<Rightarrow> message list \<Rightarrow> coordination_event \<Rightarrow> coordination_run \<Rightarrow>
    coordination_event \<times> bool \<times> coordination_run" where
  "record_result r srcs e run =
     (let h = new_handoff r srcs e;
          (e, c, run) =
            (case latest_handoff (event_result_id e) (handoffs run) of
               None \<Rightarrow> (e, True, run\<lparr>handoffs := handoffs run @
                          [h\<lparr>needs_reconciliation := \<not> event_at e > legacy_results_through run\<rparr>]\<rparr>)
             | Some i \<Rightarrow>
                 let l = handoffs run ! i
                 in if event_at e > ready_at l \<and> (handoff_outcome l \<noteq> handoff_outcome h \<or> result_sequence l \<noteq> result_sequence h)
                    then let key = event_result_id e @ ''@'' @ itoa (unix_nano (event_at e))
                         in (e\<lparr>event_result_id := key\<rparr>, True,
                             run\<lparr>handoffs := (handoffs run)[i := supersede (event_at e) l] @ [h\<lparr>handoff_key := key\<rparr>]\<rparr>)
                    else (e\<lparr>event_result_id := handoff_key l\<rparr>, False, run))
      in (if CHR ''@'' \<in> set (event_result_id e) then e\<lparr>event_key := event_key e @ '':'' @ event_result_id e\<rparr> else e,
          c, run))"

definition count_event :: "coordination_event \<Rightarrow> coordination_run \<Rightarrow> coordination_run" where
  "count_event e run =
     (if event_kind e = ''assignment_accepted''
      then run\<lparr>last_assignment_at := event_at e, run_state := ''pending'', run_detail := '''', run_waiting_on := ''''\<rparr>
      else let run = run\<lparr>last_result_at := event_at e\<rparr>
           in if event_outcome e = ''answered'' \<or> event_outcome e = ''completed''
              then run\<lparr>last_success_at := event_at e\<rparr> else run)"

definition is_result :: "coordination_event \<Rightarrow> bool" where
  "is_result e \<longleftrightarrow> event_kind e = ''result_available''"

definition monitored :: "coordination_run \<Rightarrow> bool" where
  "monitored run \<longleftrightarrow> run_state run = ''pending'' \<or> run_state run = ''blocked''"

definition observe_event :: "coord_room \<Rightarrow> message list \<Rightarrow> bool \<times> coordination_run \<Rightarrow> coordination_event \<Rightarrow> bool \<times> coordination_run" where
  "observe_event r srcs cr e =
     (if is_result e \<and> \<not> event_at e > completed_through (snd cr) then cr
      else let (e, c, run) = (if is_result e \<and> monitored (snd cr) then record_result r srcs e (snd cr)
                              else (e, False, snd cr));
               (fresh, run) = record_event e run
           in if fresh then (True, count_event e run) else (fst cr \<or> c, run))"

section \<open>Waits that ended\<close>

definition wait_active :: "coord_room \<Rightarrow> string \<Rightarrow> bool" where
  "wait_active r key =
     foldl (\<lambda>a j. if job_id j = key then job_open j else a)
       (case map_of (room_workflows r) key of None \<Rightarrow> False | Some w \<Rightarrow> workflow_live (wf_state w)) (room_jobs r)"

definition wait_over :: "coord_room \<Rightarrow> handoff \<Rightarrow> bool" where
  "wait_over r h \<longleftrightarrow> waiting_for h \<noteq> '''' \<and> \<not> wait_active r (waiting_for h)"

definition end_wait :: "coord_room \<Rightarrow> time \<Rightarrow> handoff \<Rightarrow> handoff" where
  "end_wait r now h =
     (if wait_over r h
      then h\<lparr>waiting_for := '''', actionable_since := now,
             waiting_on := (if waiting_on h = ''assignment'' then ''coordinator'' else waiting_on h)\<rparr>
      else h)"

definition reconcile_run :: "coord_room \<Rightarrow> time \<Rightarrow> coordination_run \<Rightarrow> (nat \<times> nat) \<times> bool \<times> coordination_run" where
  "reconcile_run r now run =
     (let (c, run) = migrate_ledger run;
          srcs = filter (run_source run) (room_messages r);
          assignments = assignment_events run srcs;
          (c, run) = foldl (accept_dispatch r) (c, run) srcs;
          js = source_jobs srcs r;
          ws = source_workflows srcs r;
          results = job_events (last_result_at run) js @ workflow_events (last_result_at run) srcs ws;
          (c, run) = foldl wait_for_rerun (c, run) ws;
          (c, run) = foldl (observe_event r srcs) (c, run) (sort_key event_at (assignments @ results));
          c = (c \<or> list_ex (wait_over r) (handoffs run));
          run = run\<lparr>handoffs := map (end_wait r now) (handoffs run)\<rparr>
      in ((pending_jobs srcs r, waiting_jobs srcs r), c, run))"

definition reconcile_coordination :: "coord_room \<Rightarrow> time \<Rightarrow> (nat \<times> nat) \<times> bool \<times> coord_room" where
  "reconcile_coordination r now =
     (case room_run r of
        None \<Rightarrow> ((0, 0), False, r)
      | Some run \<Rightarrow>
          if run_state run = ''stopped'' then ((0, 0), False, r)
          else let (n, c, run) = reconcile_run r now run in (n, c, r\<lparr>room_run := Some run\<rparr>))"

section \<open>What no operation takes away from a handoff\<close>

definition settled_handoff :: "handoff \<Rightarrow> bool" where
  "settled_handoff h \<longleftrightarrow>
     resolution h \<notin> {'''', ''coordinator_reported_blocked'', ''coordinator_reported_stopped''}"

definition automatic_attempts :: "handoff \<Rightarrow> nat" where
  "automatic_attempts h = length (filter attempt_automatic (handoff_attempts h))"

definition handoff_kept :: "handoff \<Rightarrow> handoff \<Rightarrow> bool" where
  "handoff_kept h g \<longleftrightarrow>
     handoff_key g = handoff_key h \<and> source_sequence g = source_sequence h \<and> ready_at g = ready_at h \<and>
     handoff_outcome g = handoff_outcome h \<and> result_sequence g = result_sequence h \<and>
     handoff_participant g = handoff_participant h \<and>
     (settled_handoff h \<longrightarrow> resolution g = resolution h \<and> resolved_at g = resolved_at h) \<and>
     (\<exists>ext. map attempt_id (handoff_attempts g) = map attempt_id (handoff_attempts h) @ ext) \<and>
     automatic_attempts g \<le> max 3 (automatic_attempts h)"

lemma handoff_kept_attempts: "handoff_kept h g \<Longrightarrow> automatic_attempts h \<le> 3 \<Longrightarrow> automatic_attempts g \<le> 3"
  by (auto simp: handoff_kept_def)

lemma handoff_kept_refl [simp]: "handoff_kept h h"
  by (simp add: handoff_kept_def)

lemma handoff_kept_trans: "handoff_kept a b \<Longrightarrow> handoff_kept b c \<Longrightarrow> handoff_kept a c"
  unfolding handoff_kept_def settled_handoff_def by auto

text \<open>A change that leaves the identity and the attempts alone.\<close>

lemma handoff_keptI:
  assumes "handoff_key g = handoff_key h" "source_sequence g = source_sequence h" "ready_at g = ready_at h"
    "handoff_outcome g = handoff_outcome h" "result_sequence g = result_sequence h"
    "handoff_participant g = handoff_participant h" "handoff_attempts g = handoff_attempts h"
    and "settled_handoff h \<Longrightarrow> resolution g = resolution h \<and> resolved_at g = resolved_at h"
  shows "handoff_kept h g"
  using assms by (simp add: handoff_kept_def automatic_attempts_def)

text \<open>A ledger only grows: what it held is kept in place, what is new has at most three automatic attempts.\<close>

definition ledger_kept :: "handoff list \<Rightarrow> handoff list \<Rightarrow> bool" where
  "ledger_kept hs gs \<longleftrightarrow>
     length hs \<le> length gs \<and> (\<forall>i<length hs. handoff_kept (hs ! i) (gs ! i)) \<and>
     (\<forall>i. length hs \<le> i \<and> i < length gs \<longrightarrow> automatic_attempts (gs ! i) \<le> 3)"

lemma ledger_kept_refl [simp]: "ledger_kept hs hs"
  by (simp add: ledger_kept_def)

lemma ledger_kept_trans:
  assumes "ledger_kept a b" "ledger_kept b c"
  shows "ledger_kept a c"
  unfolding ledger_kept_def
proof (intro conjI allI impI)
  show "length a \<le> length c" using assms by (auto simp: ledger_kept_def)
  show "handoff_kept (a ! i) (c ! i)" if "i < length a" for i
  proof (rule handoff_kept_trans)
    show "handoff_kept (a ! i) (b ! i)" using that assms(1) by (simp add: ledger_kept_def)
    show "handoff_kept (b ! i) (c ! i)" using that assms by (simp add: ledger_kept_def)
  qed
  show "automatic_attempts (c ! i) \<le> 3" if "length a \<le> i \<and> i < length c" for i
    using that assms unfolding ledger_kept_def by (meson handoff_kept_attempts not_le)
qed

lemma ledger_kept_map: "(\<And>h. h \<in> set hs \<Longrightarrow> handoff_kept h (f h)) \<Longrightarrow> ledger_kept hs (map f hs)"
  by (simp add: ledger_kept_def)

lemma ledger_kept_append:
  "ledger_kept hs gs \<Longrightarrow> automatic_attempts h \<le> 3 \<Longrightarrow> ledger_kept hs (gs @ [h])"
  by (auto simp: ledger_kept_def nth_append less_Suc_eq)

lemma ledger_kept_nth:
  "handoff_kept (hs ! i) h \<Longrightarrow> ledger_kept hs (hs[i := h])"
  by (auto simp: ledger_kept_def nth_updated)

lemma update_first_nth:
  assumes "i < length xs"
  shows "update_first p f xs ! i = (if index_of p xs = Some i then f (xs ! i) else xs ! i)"
  using assms
proof (induction xs arbitrary: i)
  case (Cons x xs)
  then show ?case by (cases i) auto
qed simp

lemma find_nth: "index_of p xs = Some i \<Longrightarrow> find p xs = Some (xs ! i)"
  by (induction xs arbitrary: i) (auto split: if_splits)

lemma ledger_kept_update:
  assumes "\<And>h. find p hs = Some h \<Longrightarrow> handoff_kept h (f h)"
  shows "ledger_kept hs (update_first p f hs)"
  using assms find_nth [of p hs] by (auto simp: ledger_kept_def update_first_nth)

lemma ledger_kept_change:
  assumes "\<And>h. find_handoff key run = Some h \<Longrightarrow> handoff_kept h (f h)" "find_handoff key run \<noteq> None"
  shows "ledger_kept (handoffs run) (handoffs (change_handoff key f run))"
  using assms ledger_kept_update [of "\<lambda>h. handoff_key h = key" "handoffs run" f]
  by (auto simp: change_handoff_def find_handoff_def split: if_splits)

section \<open>Reconciling keeps the ledger\<close>

abbreviation run_kept :: "coordination_run \<Rightarrow> coordination_run \<Rightarrow> bool" where
  "run_kept a b \<equiv> ledger_kept (handoffs a) (handoffs b)"

lemma migrate_handoff_kept: "handoff_kept h (migrate_handoff t a es h)"
  by (rule handoff_keptI)
     (auto simp: migrate_handoff_def migrate_report_def settled_handoff_def handoff_open_def Let_def
       split: option.splits)

lemma migrate_ledger_kept: "run_kept run (snd (migrate_ledger run))"
  by (auto simp: migrate_ledger_def Let_def intro: ledger_kept_map migrate_handoff_kept)

lemma resolve_kept:
  "handoff_open h \<or> resolution h = ''coordinator_reported_blocked'' \<Longrightarrow> handoff_kept h (resolve_by_assignment m h)"
  by (rule handoff_keptI) (auto simp: resolve_by_assignment_def settled_handoff_def handoff_open_def)

lemma accept_handoff_kept: "run_kept run (snd (accept_handoff key m run))"
  by (auto simp: accept_handoff_def split: option.splits intro!: ledger_kept_change resolve_kept)

lemma register_handoffs [simp]: "handoffs (snd (register_continuation sp m run)) = handoffs run"
  by (auto simp: register_continuation_def split: option.splits)

lemma accept_dispatch_kept: "run_kept (snd cr) (snd (accept_dispatch r cr m))"
  using accept_handoff_kept by (auto simp: accept_dispatch_def split: option.splits prod.splits)
     (metis register_handoffs snd_conv)+

lemma wait_for_rerun_kept: "run_kept (snd cr) (snd (wait_for_rerun cr w))"
  by (auto simp: wait_for_rerun_def intro!: ledger_kept_map handoff_keptI)

lemma result_fields [simp]:
  "handoff_attempts (foldl (result_job k) h js) = handoff_attempts h"
  "handoff_attempts (foldl (result_answer k) h ms) = handoff_attempts h"
  by (induction js arbitrary: h, simp_all add: result_job_def)
     (induction ms arbitrary: h, simp_all add: result_answer_def)

lemma new_handoff_attempts [simp]: "automatic_attempts (new_handoff r srcs e) = 0"
  by (simp add: automatic_attempts_def new_handoff_def Let_def)

lemma automatic_attempts_upd [simp]:
  "automatic_attempts (h\<lparr>needs_reconciliation := b\<rparr>) = automatic_attempts h"
  "automatic_attempts (h\<lparr>handoff_key := k\<rparr>) = automatic_attempts h"
  by (simp_all add: automatic_attempts_def)

lemma supersede_kept: "handoff_kept h (supersede t h)"
  by (rule handoff_keptI) (auto simp: supersede_def settled_handoff_def handoff_open_def)

lemma record_result_kept: "run_kept run (snd (snd (record_result r srcs e run)))"
  by (auto simp: record_result_def Let_def split: option.splits prod.splits
      intro!: ledger_kept_append ledger_kept_nth supersede_kept)

lemma record_event_handoffs [simp]: "handoffs (snd (record_event e run)) = handoffs run"
  by (simp add: record_event_def)

lemma count_event_handoffs [simp]: "handoffs (count_event e run) = handoffs run"
  by (simp add: count_event_def Let_def)

lemma observe_event_kept: "run_kept (snd cr) (snd (observe_event r srcs cr e))"
proof -
  obtain e' c run' where res: "(if is_result e \<and> monitored (snd cr) then record_result r srcs e (snd cr)
      else (e, False, snd cr)) = (e', c, run')" by (cases "(if is_result e \<and> monitored (snd cr)
        then record_result r srcs e (snd cr) else (e, False, snd cr))") auto
  then have kept: "run_kept (snd cr) run'"
    using record_result_kept [of "snd cr" r srcs e] by (auto split: if_splits)
  obtain fresh run'' where rec: "record_event e' run' = (fresh, run'')" by (cases "record_event e' run'")
  then have "handoffs run'' = handoffs run'" using record_event_handoffs [of e' run'] by simp
  with kept show ?thesis by (simp add: observe_event_def res rec)
qed

lemma end_wait_kept: "handoff_kept h (end_wait r now h)"
  by (rule handoff_keptI) (auto simp: end_wait_def)

lemma foldl_kept:
  "(\<And>cr x. run_kept (snd cr) (snd (g cr x))) \<Longrightarrow> run_kept (snd cr) (snd (foldl g cr xs))"
proof (induction xs arbitrary: cr)
  case (Cons x xs)
  from ledger_kept_trans [OF Cons.prems Cons.IH [OF Cons.prems]] show ?case by simp
qed simp

lemma accept_all_kept: "run_kept (snd cr) (snd (foldl (accept_dispatch r) cr ms))"
  by (rule foldl_kept) (rule accept_dispatch_kept)

lemma wait_all_kept: "run_kept (snd cr) (snd (foldl wait_for_rerun cr ws))"
  by (rule foldl_kept) (rule wait_for_rerun_kept)

lemma observe_all_kept: "run_kept (snd cr) (snd (foldl (observe_event r srcs) cr es))"
  by (rule foldl_kept) (rule observe_event_kept)

lemma reconcile_run_kept: "run_kept run (snd (snd (reconcile_run r now run)))"
proof -
  obtain c1 run1 where 1: "migrate_ledger run = (c1, run1)" by (cases "migrate_ledger run")
  define srcs where "srcs = filter (run_source run1) (room_messages r)"
  obtain c2 run2 where 2: "foldl (accept_dispatch r) (c1, run1) srcs = (c2, run2)"
    by (cases "foldl (accept_dispatch r) (c1, run1) srcs")
  define ws where "ws = source_workflows srcs r"
  obtain c3 run3 where 3: "foldl wait_for_rerun (c2, run2) ws = (c3, run3)"
    by (cases "foldl wait_for_rerun (c2, run2) ws")
  define es where "es = sort_key event_at (assignment_events run1 srcs @
      job_events (last_result_at run2) (source_jobs srcs r) @ workflow_events (last_result_at run2) srcs ws)"
  obtain c4 run4 where 4: "foldl (observe_event r srcs) (c3, run3) es = (c4, run4)"
    by (cases "foldl (observe_event r srcs) (c3, run3) es")
  have "run_kept run run1" using migrate_ledger_kept [of run] 1 by simp
  also have "run_kept run1 run2" using accept_all_kept [of "(c1, run1)" r srcs] 2 by simp
  finally (ledger_kept_trans) have "run_kept run run2" .
  also have "run_kept run2 run3" using wait_all_kept [of "(c2, run2)" ws] 3 by simp
  finally (ledger_kept_trans) have "run_kept run run3" .
  also have "run_kept run3 run4" using observe_all_kept [of "(c3, run3)" r srcs es] 4 by simp
  finally (ledger_kept_trans) have "run_kept run run4" .
  also have "ledger_kept (handoffs run4) (map (end_wait r now) (handoffs run4))"
    by (rule ledger_kept_map) (rule end_wait_kept)
  finally (ledger_kept_trans) show ?thesis
    using 1 2 3 4 by (simp add: reconcile_run_def Let_def srcs_def ws_def es_def)
qed

section \<open>Rooms\<close>

text \<open>The run of one room becomes the run of the other: it may appear, it never disappears.\<close>

definition room_kept :: "coord_room \<Rightarrow> coord_room \<Rightarrow> bool" where
  "room_kept r t \<longleftrightarrow>
     (\<forall>run. room_run r = Some run \<longrightarrow> (\<exists>run'. room_run t = Some run' \<and> run_kept run run'))"

lemma room_kept_refl [simp]: "room_kept r r"
  by (simp add: room_kept_def)

lemma room_kept_trans: "room_kept a b \<Longrightarrow> room_kept b c \<Longrightarrow> room_kept a c"
  unfolding room_kept_def by (meson ledger_kept_trans)

lemma room_kept_run: "room_run r = Some run \<Longrightarrow> run_kept run run' \<Longrightarrow> room_run t = Some run' \<Longrightarrow> room_kept r t"
  by (simp add: room_kept_def)

lemma reconcile_kept: "reconcile_coordination r now = (n, c, t) \<Longrightarrow> room_kept r t"
  using reconcile_run_kept [of "the (room_run r)" r now]
  by (auto simp: reconcile_coordination_def room_kept_def split: option.splits if_splits prod.splits)

lemma cancel_handoffs [simp]: "handoffs (snd (cancel_continuations reason r run)) = handoffs run"
  by (simp add: cancel_continuations_def)

lemma ledger_kept_attempts:
  assumes "ledger_kept hs gs" "\<forall>h\<in>set hs. automatic_attempts h \<le> 3"
  shows "\<forall>g\<in>set gs. automatic_attempts g \<le> 3"
proof
  fix g assume "g \<in> set gs"
  then obtain i where i: "i < length gs" "g = gs ! i" by (auto simp: in_set_conv_nth)
  show "automatic_attempts g \<le> 3"
  proof (cases "i < length hs")
    case True
    then have "handoff_kept (hs ! i) g" "automatic_attempts (hs ! i) \<le> 3"
      using assms i by (auto simp: ledger_kept_def)
    then show ?thesis by (simp add: handoff_kept_def)
  next
    case False
    with assms i show ?thesis by (simp add: ledger_kept_def)
  qed
qed

section \<open>Results are not missed\<close>

definition result_known :: "string \<Rightarrow> coordination_run \<Rightarrow> bool" where
  "result_known key run \<longleftrightarrow> (\<exists>h\<in>set (handoffs run). same_result key h)"

lemma result_known_kept:
  assumes "result_known key run" "run_kept run run'"
  shows "result_known key run'"
proof -
  obtain i where "i < length (handoffs run)" "same_result key (handoffs run ! i)"
    using assms(1) by (auto simp: result_known_def in_set_conv_nth)
  moreover from this assms(2) have "i < length (handoffs run')" "handoff_kept (handoffs run ! i) (handoffs run' ! i)"
    by (auto simp: ledger_kept_def)
  ultimately show ?thesis by (auto simp: result_known_def same_result_def handoff_kept_def intro!: bexI [of _ "handoffs run' ! i"])
qed

lemma latest_handoff_Some:
  assumes "latest_handoff key hs = Some i"
  shows "i < length hs \<and> same_result key (hs ! i)"
proof -
  define f where "f = (\<lambda>l i. if same_result key (hs ! i) \<and>
      (case l of None \<Rightarrow> True | Some k \<Rightarrow> ready_at (hs ! i) > ready_at (hs ! k)) then Some i else l)"
  have "\<forall>i. foldl f None [0..<n] = Some i \<longrightarrow> i < n \<and> same_result key (hs ! i)" for n
    by (induction n) (auto simp: f_def less_Suc_eq split: if_splits)
  with assms show ?thesis by (simp add: latest_handoff_def f_def)
qed

lemma result_fields_key [simp]:
  "handoff_key (foldl (result_job k) h js) = handoff_key h"
  "handoff_key (foldl (result_answer k) h ms) = handoff_key h"
  by (induction js arbitrary: h, simp_all add: result_job_def)
     (induction ms arbitrary: h, simp_all add: result_answer_def)

lemma new_handoff_key [simp]: "handoff_key (new_handoff r srcs e) = event_result_id e"
  by (simp add: new_handoff_def Let_def)

lemma record_result_known: "result_known (event_result_id e) (snd (snd (record_result r srcs e run)))"
proof (cases "latest_handoff (event_result_id e) (handoffs run)")
  case None
  then show ?thesis by (simp add: record_result_def Let_def result_known_def same_result_def)
next
  case (Some i)
  with latest_handoff_Some have "result_known (event_result_id e) run"
    by (fastforce simp: result_known_def)
  then show ?thesis using record_result_kept by (rule result_known_kept)
qed

lemma record_result_frame [simp]:
  "run_state (snd (snd (record_result r srcs e run))) = run_state run"
  "completed_through (snd (snd (record_result r srcs e run))) = completed_through run"
  by (auto simp: record_result_def Let_def split: option.splits)

lemma record_event_frame [simp]:
  "run_state (snd (record_event e run)) = run_state run"
  "completed_through (snd (record_event e run)) = completed_through run"
  "last_result_at (snd (record_event e run)) = last_result_at run"
  by (simp_all add: record_event_def)

lemma observe_event_frame:
  assumes "monitored (snd cr)"
  shows "monitored (snd (observe_event r srcs cr e)) \<and>
         completed_through (snd (observe_event r srcs cr e)) = completed_through (snd cr) \<and>
         (is_result e \<and> event_at e > completed_through (snd cr) \<longrightarrow>
            result_known (event_result_id e) (snd (observe_event r srcs cr e)))"
proof (cases "is_result e \<and> \<not> event_at e > completed_through (snd cr)")
  case True
  with assms show ?thesis by (simp add: observe_event_def)
next
  case False
  obtain e' c run' where res: "(if is_result e \<and> monitored (snd cr) then record_result r srcs e (snd cr)
      else (e, False, snd cr)) = (e', c, run')" by (cases "(if is_result e \<and> monitored (snd cr)
        then record_result r srcs e (snd cr) else (e, False, snd cr))") auto
  have run': "run' = (if is_result e then snd (snd (record_result r srcs e (snd cr))) else snd cr)"
    using res assms by (auto split: if_splits)
  have fr: "run_state run' = run_state (snd cr)" "completed_through run' = completed_through (snd cr)"
    "is_result e \<Longrightarrow> result_known (event_result_id e) run'"
    using record_result_known [of e r srcs "snd cr"] by (simp_all add: run')
  obtain fresh run'' where rec: "record_event e' run' = (fresh, run'')" by (cases "record_event e' run'")
  then have "handoffs run'' = handoffs run'" "run_state run'' = run_state run'"
    "completed_through run'' = completed_through run'"
    using record_event_handoffs [of e' run'] record_event_frame [of e' run'] by simp_all
  moreover have "snd (observe_event r srcs cr e) = (if fresh then count_event e' run'' else run'')"
    using False unfolding observe_event_def by (simp add: res rec del: de_Morgan_conj not_less)
  moreover have "run_state (count_event e' run'') \<in> {''pending'', run_state run''}"
    "completed_through (count_event e' run'') = completed_through run''"
    by (simp_all add: count_event_def Let_def)
  ultimately show ?thesis
    using fr assms by (auto simp: monitored_def result_known_def)
qed

lemma observe_all_known:
  "monitored (snd cr) \<Longrightarrow> e \<in> set es \<Longrightarrow> is_result e \<Longrightarrow> event_at e > completed_through (snd cr) \<Longrightarrow>
   result_known (event_result_id e) (snd (foldl (observe_event r srcs) cr es))"
proof (induction es arbitrary: cr)
  case (Cons x es)
  note fr = observe_event_frame [OF Cons.prems(1), of r srcs x]
  show ?case
  proof (cases "e = x")
    case True
    then have "result_known (event_result_id e) (snd (observe_event r srcs cr x))" using fr Cons.prems by blast
    then show ?thesis using result_known_kept [OF _ observe_all_kept] by simp
  next
    case False
    then show ?thesis using Cons.IH [of "observe_event r srcs cr x"] fr Cons.prems by auto
  qed
qed simp

text \<open>What the first passes leave alone.\<close>

definition same_marks :: "coordination_run \<Rightarrow> coordination_run \<Rightarrow> bool" where
  "same_marks a b \<longleftrightarrow> run_state b = run_state a \<and> completed_through b = completed_through a \<and>
     last_result_at b = last_result_at a"

lemma same_marks_refl [simp]: "same_marks a a"
  by (simp add: same_marks_def)

lemma accept_dispatch_marks: "same_marks (snd cr) (snd (accept_dispatch r cr m))"
  by (auto simp: accept_dispatch_def accept_handoff_def register_continuation_def change_handoff_def same_marks_def
      split: option.splits prod.splits if_splits)

lemma wait_for_rerun_marks: "same_marks (snd cr) (snd (wait_for_rerun cr w))"
  by (simp add: wait_for_rerun_def same_marks_def)

lemma foldl_marks:
  "(\<And>cr x. same_marks (snd cr) (snd (g cr x))) \<Longrightarrow> same_marks (snd cr) (snd (foldl g cr xs))"
proof (induction xs arbitrary: cr)
  case (Cons x xs)
  from Cons.IH [OF Cons.prems, of "g cr x"] Cons.prems [of cr x] show ?case by (simp add: same_marks_def)
qed simp

lemma accept_all_marks: "same_marks (snd cr) (snd (foldl (accept_dispatch r) cr ms))"
  by (rule foldl_marks) (rule accept_dispatch_marks)

lemma wait_all_marks: "same_marks (snd cr) (snd (foldl wait_for_rerun cr ws))"
  by (rule foldl_marks) (rule wait_for_rerun_marks)

lemma end_wait_key [simp]: "same_result key (end_wait r now h) = same_result key h"
  by (simp add: end_wait_def same_result_def)

definition result_events :: "coord_room \<Rightarrow> coordination_run \<Rightarrow> coordination_event list" where
  "result_events r run =
     (let srcs = filter (run_source run) (room_messages r)
      in job_events (last_result_at run) (source_jobs srcs r) @
         workflow_events (last_result_at run) srcs (source_workflows srcs r))"

lemma reconcile_known:
  assumes "ledger_version run \<ge> 2" "monitored run" "e \<in> set (result_events r run)" "is_result e"
    and "event_at e > completed_through run"
  shows "result_known (event_result_id e) (snd (snd (reconcile_run r now run)))"
proof -
  define srcs where "srcs = filter (run_source run) (room_messages r)"
  obtain c2 run2 where 2: "foldl (accept_dispatch r) (False, run) srcs = (c2, run2)"
    by (cases "foldl (accept_dispatch r) (False, run) srcs")
  define ws where "ws = source_workflows srcs r"
  obtain c3 run3 where 3: "foldl wait_for_rerun (c2, run2) ws = (c3, run3)"
    by (cases "foldl wait_for_rerun (c2, run2) ws")
  define es where "es = sort_key event_at (assignment_events run srcs @
      job_events (last_result_at run2) (source_jobs srcs r) @ workflow_events (last_result_at run2) srcs ws)"
  obtain c4 run4 where 4: "foldl (observe_event r srcs) (c3, run3) es = (c4, run4)"
    by (cases "foldl (observe_event r srcs) (c3, run3) es")
  have "same_marks run run2" using accept_all_marks [of "(False, run)" r srcs] 2 by simp
  moreover have "same_marks run2 run3" using wait_all_marks [of "(c2, run2)" ws] 3 by simp
  ultimately have marks: "monitored run3" "completed_through run3 = completed_through run"
    "last_result_at run2 = last_result_at run"
    using assms(2) by (auto simp: same_marks_def monitored_def)
  have "e \<in> set es" using assms(3) by (simp add: es_def result_events_def srcs_def ws_def marks(3) Let_def)
  with observe_all_known [of "(c3, run3)" e es r srcs] 4 marks assms(4,5)
  have "result_known (event_result_id e) run4" by simp
  moreover have "snd (snd (reconcile_run r now run)) = run4\<lparr>handoffs := map (end_wait r now) (handoffs run4)\<rparr>"
    using assms(1) 2 3 4 by (simp add: reconcile_run_def migrate_ledger_def Let_def srcs_def ws_def es_def)
  ultimately show ?thesis by (auto simp: result_known_def)
qed

lemma job_event_in:
  assumes "j \<in> set (room_jobs r)" "\<not> job_open j" "completed_at j = Some t" "last_result_at run \<le> t"
    and "m \<in> set (room_messages r)" "run_source run m" "sequence m = job_source_sequence j"
  shows "\<exists>e\<in>set (result_events r run). is_result e \<and> event_at e = t \<and> event_result_id e = ''reply:'' @ job_id j"
proof -
  have "j \<in> set (source_jobs (filter (run_source run) (room_messages r)) r)"
    using assms by (auto simp: source_jobs_def is_source_def list_ex_iff)
  moreover define e where "e = plain_event (''reply:'' @ job_id j) ''result_available'' (''reply:'' @ job_id j) t
      (job_source_sequence j) (conversation_state_name (job_state j))"
  ultimately have "e \<in> set (job_events (last_result_at run)
      (source_jobs (filter (run_source run) (room_messages r)) r))"
    using assms(2-4) unfolding job_events_def set_concat set_map image_image
    by (intro UN_I [of j]) simp_all
  then have "e \<in> set (result_events r run)" by (simp add: result_events_def Let_def)
  moreover have "is_result e \<and> event_at e = t \<and> event_result_id e = ''reply:'' @ job_id j"
    by (simp add: e_def plain_event_def is_result_def)
  ultimately show ?thesis by blast
qed

section \<open>What is pending\<close>

lemma accept_dispatch_start [simp]: "start_sequence (snd (accept_dispatch r cr m)) = start_sequence (snd cr)"
  by (auto simp: accept_dispatch_def accept_handoff_def register_continuation_def change_handoff_def
      split: option.splits prod.splits if_splits)

lemma wait_for_rerun_start [simp]: "start_sequence (snd (wait_for_rerun cr w)) = start_sequence (snd cr)"
  by (simp add: wait_for_rerun_def)

lemma record_result_start [simp]: "start_sequence (snd (snd (record_result r srcs e run))) = start_sequence run"
  by (auto simp: record_result_def Let_def split: option.splits)

lemma observe_event_start [simp]: "start_sequence (snd (observe_event r srcs cr e)) = start_sequence (snd cr)"
  using record_result_start [of r srcs e "snd cr"]
  by (cases "record_result r srcs e (snd cr)")
     (auto simp: observe_event_def record_event_def count_event_def Let_def simp del: record_result_start)

lemma migrate_start [simp]: "start_sequence (snd (migrate_ledger run)) = start_sequence run"
  by (simp add: migrate_ledger_def Let_def)

lemma foldl_start:
  "(\<And>cr x. start_sequence (snd (g cr x)) = start_sequence (snd cr)) \<Longrightarrow>
   start_sequence (snd (foldl g cr xs)) = start_sequence (snd cr)"
  by (induction xs arbitrary: cr) simp_all

lemma reconcile_run_pending:
  assumes "reconcile_run r now run = (n, c, run')"
  shows "start_sequence run' = start_sequence run"
    and "fst n = pending_jobs (filter (run_source run) (room_messages r)) r"
proof -
  obtain c1 run1 where 1: "migrate_ledger run = (c1, run1)" by (cases "migrate_ledger run")
  then have start: "start_sequence run1 = start_sequence run" using migrate_start [of run] by simp
  have src: "run_source run1 = run_source run" by (simp add: fun_eq_iff run_source_def start)
  show "fst n = pending_jobs (filter (run_source run) (room_messages r)) r"
    using assms 1 src by (auto simp: reconcile_run_def Let_def split: prod.splits)
  define srcs where "srcs = filter (run_source run1) (room_messages r)"
  obtain c2 run2 where 2: "foldl (accept_dispatch r) (c1, run1) srcs = (c2, run2)"
    by (cases "foldl (accept_dispatch r) (c1, run1) srcs")
  define ws where "ws = source_workflows srcs r"
  obtain c3 run3 where 3: "foldl wait_for_rerun (c2, run2) ws = (c3, run3)"
    by (cases "foldl wait_for_rerun (c2, run2) ws")
  define es where "es = sort_key event_at (assignment_events run1 srcs @
      job_events (last_result_at run2) (source_jobs srcs r) @ workflow_events (last_result_at run2) srcs ws)"
  obtain c4 run4 where 4: "foldl (observe_event r srcs) (c3, run3) es = (c4, run4)"
    by (cases "foldl (observe_event r srcs) (c3, run3) es")
  have "start_sequence run2 = start_sequence run1"
    using foldl_start [of "accept_dispatch r", OF accept_dispatch_start, of "(c1, run1)" srcs] 2 by simp
  moreover have "start_sequence run3 = start_sequence run2"
    using foldl_start [of wait_for_rerun, OF wait_for_rerun_start, of "(c2, run2)" ws] 3 by simp
  moreover have "start_sequence run4 = start_sequence run3"
    using foldl_start [of "observe_event r srcs", OF observe_event_start, of "(c3, run3)" es] 4 by simp
  moreover have "run' = run4\<lparr>handoffs := map (end_wait r now) (handoffs run4)\<rparr>"
    using assms 1 2 3 4 by (simp add: reconcile_run_def Let_def srcs_def ws_def es_def)
  ultimately show "start_sequence run' = start_sequence run" using start by simp
qed

lemma workflow_event_in:
  assumes "w \<in> set (map snd (room_workflows r))" "\<not> workflow_live (wf_state w)" "last_result_at run \<le> workflow_time w"
    and "workflow_source (filter (run_source run) (room_messages r)) w \<noteq> 0"
  shows "\<exists>e\<in>set (result_events r run). is_result e \<and> event_at e = workflow_time w \<and>
           event_result_id e = ''work:'' @ wf_id w"
proof -
  let ?srcs = "filter (run_source run) (room_messages r)"
  have "w \<in> set (source_workflows ?srcs r)" using assms(1,4) by (auto simp: source_workflows_def)
  moreover define e where "e = plain_event (''work:'' @ wf_id w @ '':'' @ workflow_state_name (wf_state w))
      ''result_available'' (''work:'' @ wf_id w) (workflow_time w) (workflow_source ?srcs w) (workflow_state_name (wf_state w))"
  ultimately have "e \<in> set (workflow_events (last_result_at run) ?srcs (source_workflows ?srcs r))"
    using assms(2,3) unfolding workflow_events_def set_concat set_map image_image
    by (intro UN_I [of w]) simp_all
  then have "e \<in> set (result_events r run)" by (simp add: result_events_def Let_def)
  moreover have "is_result e \<and> event_at e = workflow_time w \<and> event_result_id e = ''work:'' @ wf_id w"
    by (simp add: e_def plain_event_def is_result_def)
  ultimately show ?thesis by blast
qed

section \<open>Property\<close>


section \<open>Examples\<close>

definition sample_question :: message where
  "sample_question = empty_message\<lparr>sequence := 5, author := ChatGPT, kind := MessageText,
     requested_replies := [''codex''], target := ''codex'', created_at := 50 * second\<rparr>"

definition sample_reply_job :: conversation_job where
  "sample_reply_job = empty_job\<lparr>job_id := ''j1'', job_source_sequence := 5, job_state := ConversationAnswered,
     completed_at := Some (100 * second), answer_sequence := 6, assigned := ''codex''\<rparr>"

definition sample_run :: coordination_run where
  "sample_run =
     \<lparr>ledger_version = 2, completed_through = 0, legacy_results_through = 0, run_waiting_on = '''',
      run_objective = None, handoffs = [], continuations = [], run_panels = [], run_last_notification = 0,
      run_next_action = '''', run_owner = '''', run_key = ''r'', run_state = ''pending'', run_detail = '''',
      run_started_at = 10 * second, start_sequence = 1, last_assignment_at = 0, last_result_at = 0,
      last_success_at = 0, run_acknowledged_at = 0, acknowledged_result = '''', run_events = []\<rparr>"

definition sample_ledger_room :: coord_room where
  "sample_ledger_room = sample_coord_room\<lparr>room_run := Some sample_run, room_messages := [sample_question],
     room_jobs := [sample_reply_job], room_next := 7\<rparr>"

lemmas ledger_sample_defs =
  sample_question_def sample_reply_job_def sample_run_def sample_ledger_room_def empty_message_def empty_job_def


text \<open>
  A reply request that failed because the room could not be saved has no completion time, and no later
  reconciling brings it into the ledger.
\<close>

definition unscheduled_room :: coord_room where
  "unscheduled_room = sample_ledger_room\<lparr>room_jobs := [sample_reply_job\<lparr>job_state := ConversationFailed,
     completed_at := None, answer_sequence := 0\<rparr>]\<rparr>"

lemma untimed_failure_missed:
  "map_option handoffs (room_run (snd (snd (reconcile_coordination unscheduled_room (200 * second))))) = Some []"
  by code_simp

end
