(* ===== verification/Coordination_Reports.thy ===== *)
theory Coordination_Reports
  imports Coordination_Ledger
begin

text \<open>
  The operations on a monitored run (\<^verbatim>\<open>internal/room/coordination.go\<close>): the host's control of
  it (\<open>ControlCoordination\<close>), its status, and the reports of the coordinator and its panels
  (\<open>ReportCoordination\<close>), each with the rollback of a refused or unsaved operation.  The answer is
  given by the numbers of pending and waiting jobs, from which the view is made.
\<close>

section \<open>Host control\<close>

datatype control_error =
  AlreadyPending | NothingToResume | ResumeInstead | NoIdentifier | NoRun | UnknownControl | ControlNotSaved

definition new_run :: "string \<Rightarrow> time \<Rightarrow> nat \<Rightarrow> coordination_run" where
  "new_run key now n =
     \<lparr>ledger_version = 2, completed_through = 0, legacy_results_through = 0, run_waiting_on = '''',
      run_objective = None, handoffs = [], continuations = [], run_panels = [], run_last_notification = 0,
      run_next_action = '''', run_owner = '''', run_key = key, run_state = ''pending'', run_detail = '''',
      run_started_at = now, start_sequence = n, last_assignment_at = 0, last_result_at = 0, last_success_at = 0,
      run_acknowledged_at = 0, acknowledged_result = '''', run_events = []\<rparr>"

definition reopen_stopped :: "handoff \<Rightarrow> handoff" where
  "reopen_stopped h =
     (if resolution h = ''coordinator_reported_stopped'' then h\<lparr>resolution := '''', resolved_at := 0\<rparr> else h)"

definition resume_run :: "string \<Rightarrow> time \<Rightarrow> coordination_run \<Rightarrow> coordination_run" where
  "resume_run key now run =
     run\<lparr>run_key := key, run_state := ''pending'', run_detail := '''', run_started_at := now,
         handoffs := map reopen_stopped (handoffs run)\<rparr>"

definition stop_run :: "coord_room \<Rightarrow> coordination_run \<Rightarrow> coordination_run" where
  "stop_run r run = snd (cancel_continuations ''Host stopped the run'' r (run\<lparr>run_state := ''stopped''\<rparr>))"

definition controlled_run :: "string option \<Rightarrow> time \<Rightarrow> string \<Rightarrow> coord_room \<Rightarrow> control_error + coordination_run" where
  "controlled_run fresh now action r =
     (let previous = room_run r;
          was = (\<lambda>s. case previous of None \<Rightarrow> False | Some p \<Rightarrow> run_state p = s)
      in if action = ''start'' \<or> action = ''resume''
         then if was ''pending'' \<or> was ''blocked'' then Inl AlreadyPending
              else if action = ''resume'' \<and> \<not> was ''stopped'' then Inl NothingToResume
              else if action = ''start'' \<and> was ''stopped'' then Inl ResumeInstead
              else case fresh of
                     None \<Rightarrow> Inl NoIdentifier
                   | Some key \<Rightarrow> Inr (if action = ''resume'' then resume_run key now (the previous)
                                      else new_run key now (room_next r))
         else if action = ''stop''
         then case previous of None \<Rightarrow> Inl NoRun | Some p \<Rightarrow> Inr (stop_run r p)
         else Inl UnknownControl)"

definition control_coordination ::
  "string option \<Rightarrow> bool \<Rightarrow> time \<Rightarrow> string \<Rightarrow> coord_room \<Rightarrow> (control_error + nat \<times> nat) \<times> coord_room" where
  "control_coordination fresh saved now action r =
     (case controlled_run fresh now action r of
        Inl e \<Rightarrow> (Inl e, r)
      | Inr run \<Rightarrow>
          let (n, _, t) = reconcile_coordination (r\<lparr>room_run := Some run\<rparr>) now
          in if saved then (Inr n, t) else (Inl ControlNotSaved, r))"

text \<open>\<open>CoordinationStatus\<close> on a room that is open.\<close>

definition coordination_status :: "bool \<Rightarrow> time \<Rightarrow> coord_room \<Rightarrow> (nat \<times> nat) option \<times> coord_room" where
  "coordination_status saved now r =
     (let (n, c, t) = reconcile_coordination r now
      in if c \<and> \<not> saved then (None, r) else (Some n, t))"

section \<open>Reports\<close>

record report =
  rp_run :: string
  rp_event :: string
  rp_kind :: string
  rp_result :: string
  rp_state :: string
  rp_detail :: string
  rp_update :: coordinator_update

text \<open>An error is its message, or the error of the follow-ups, or a failed save.\<close>

datatype report_error = Refused string | RefusedFollowUp follow_up_error | ReportNotSaved

definition check_update :: "coordinator_update \<Rightarrow> report_error option" where
  "check_update u =
     (if up_waiting_on u \<notin> {'''', ''coordinator'', ''human'', ''assignment'', ''external''} then Some (Refused ''invalid waiting_on'')
      else if up_waiting_on u = ''assignment'' \<and> up_waiting_for u = '''' then Some (Refused ''assignment wait requires waiting_for'')
      else if up_waiting_on u = ''human'' \<and> trim_space (up_owner u) = '''' then Some (Refused ''human wait requires the decision owner'')
      else if up_waiting_for u \<noteq> '''' \<and> up_waiting_on u \<noteq> '''' \<and> up_waiting_on u \<noteq> ''assignment'' then Some (Refused ''waiting_for requires an assignment wait'')
      else if length (up_next_action u) > 1024 \<or> length (up_owner u) > 128 \<or> length (up_waiting_for u) > 128
              \<or> length (up_panel_id u) > 128 then Some (Refused ''coordination update too long'')
      else case up_objective u of
             None \<Rightarrow> None
           | Some ob \<Rightarrow> if length (summary ob) > 1024 \<or> length (scope_text ob) > 2048
                          \<or> length (completion_criteria ob) > 2048 then Some (Refused ''objective too long'') else None)"

definition notification_kinds :: "string list" where
  "notification_kinds = [''notification_attempted'', ''host_accepted'', ''host_rejected'', ''host_unknown'']"

definition check_report :: "report \<Rightarrow> coord_room \<Rightarrow> report_error option" where
  "check_report p r =
     (case check_update (rp_update p) of
        Some e \<Rightarrow> Some e
      | None \<Rightarrow>
          if (case room_run r of None \<Rightarrow> True | Some run \<Rightarrow> run_key run \<noteq> rp_run p \<or> run_state run = ''stopped'')
          then Some (Refused ''monitored run is absent, stale, or stopped'')
          else if rp_event p = '''' \<or> length (rp_event p) > 128 \<or> length (rp_detail p) > 1024 then Some (Refused ''invalid event ID or detail (maximum 1024 bytes)'')
          else if rp_kind p = ''coordinator_report''
          then if rp_state p \<notin> {''pending'', ''blocked'', ''complete'', ''stopped''} then Some (Refused ''invalid coordinator state'')
               else if (rp_state p = ''pending'' \<or> rp_state p = ''blocked'') \<and> trim_space (rp_detail p) = ''''
               then Some (Refused ''describe the next action or blocker'') else None
          else if rp_kind p \<notin> set notification_kinds \<and> rp_kind p \<noteq> ''panel_status'' then Some (Refused ''invalid observation kind'')
          else None)"

definition retained_result :: "string \<Rightarrow> coordination_run \<Rightarrow> bool" where
  "retained_result key run \<longleftrightarrow>
     find_handoff key run \<noteq> None \<or> list_ex (\<lambda>e. is_result e \<and> event_result_id e = key) (run_events run)"

definition attempt_recorded :: "report \<Rightarrow> coordination_run \<Rightarrow> bool" where
  "attempt_recorded p run \<longleftrightarrow>
     list_ex (\<lambda>e. event_key e = rp_event p \<and> event_kind e = ''notification_attempted''
                   \<and> event_result_id e = rp_result p) (run_events run) \<or>
     (case find_handoff (rp_result p) run of
        None \<Rightarrow> False
      | Some h \<Rightarrow> list_ex (\<lambda>a. attempt_id a = rp_event p) (handoff_attempts h))"

definition check_retained :: "report \<Rightarrow> coordination_run \<Rightarrow> report_error option" where
  "check_retained p run =
     (if rp_result p \<noteq> '''' \<and> \<not> retained_result (rp_result p) run then Some (Refused ''result is not in this run's retained history'')
      else if rp_kind p \<noteq> ''coordinator_report'' \<and> rp_kind p \<noteq> ''panel_status'' \<and> rp_result p = ''''
      then Some (Refused ''notification must identify a retained result'')
      else if rp_kind p \<noteq> ''coordinator_report'' \<and> rp_kind p \<noteq> ''panel_status'' \<and> rp_kind p \<noteq> ''notification_attempted''
              \<and> \<not> attempt_recorded p run
      then Some (Refused ''notification attempt not recorded'') else None)"

definition plain_update :: follow_up_update where
  "plain_update = \<lparr>fu_update_key = '''', fu_stage = '''', fu_event = '''', fu_panel = '''', fu_delivery = '''',
     fu_revision = 0, fu_automatic = False, fu_through = 0, fu_run = '''', fu_result = ''''\<rparr>"

definition panel_observation :: "report \<Rightarrow> follow_up_update" where
  "panel_observation p = plain_update\<lparr>fu_stage := rp_kind p, fu_event := rp_event p,
     fu_panel := up_panel_id (rp_update p), fu_delivery := up_delivery (rp_update p)\<rparr>"

definition notification_observation :: "report \<Rightarrow> coordination_run \<Rightarrow> follow_up_update" where
  "notification_observation p run = plain_update\<lparr>fu_stage := rp_kind p, fu_event := rp_event p,
     fu_run := run_key run, fu_result := rp_result p, fu_panel := up_panel_id (rp_update p),
     fu_automatic := up_automatic (rp_update p)\<rparr>"

text \<open>A panel's availability goes to the follow-ups and to the run.\<close>

definition report_panel :: "string \<Rightarrow> report \<Rightarrow> time \<Rightarrow> coordination_run \<Rightarrow> coord_room \<Rightarrow> report_error + coord_room" where
  "report_panel key p now run r =
     (case apply_follow_ups key (panel_observation p) now r of
        Inl e \<Rightarrow> Inl (RefusedFollowUp e)
      | Inr f \<Rightarrow>
          if up_delivery (rp_update p) \<notin> set delivery_modes then Inl (Refused ''invalid panel delivery state'')
          else if up_panel_id (rp_update p) = '''' then Inl (Refused ''panel_id required'')
          else Inr (r\<lparr>room_follow_ups := Some f,
                      room_run := Some (run\<lparr>run_panels := place_panel (up_panel_id (rp_update p))
                                             (up_delivery (rp_update p)) now (run_panels run)\<rparr>)\<rparr>))"

definition report_attempt :: "string \<Rightarrow> report \<Rightarrow> time \<Rightarrow> handoff \<Rightarrow> coordination_run \<Rightarrow> coord_room \<Rightarrow> report_error + coord_room" where
  "report_attempt key p now h run r =
     (case find (\<lambda>a. attempt_id a = rp_event p) (handoff_attempts h) of
        Some a \<Rightarrow> if attempt_automatic a \<noteq> up_automatic (rp_update p) \<or> attempt_panel a \<noteq> up_panel_id (rp_update p)
                  then Inl (Refused ''notification claim ID reused by different request'') else Inr r
      | None \<Rightarrow>
          if \<not> handoff_open h \<or> run_state run \<noteq> ''pending'' then Inl (Refused ''handoff already accounted for'')
          else if time_sub now (run_last_notification run) < 20 * second then Inl (Refused ''another panel recently claimed a notification'')
          else if up_automatic (rp_update p) \<and> \<not> handoff_due h now then Inl (Refused ''handoff notification is not due'')
          else case apply_follow_ups key (notification_observation p run) now r of
                 Inl e \<Rightarrow> Inl (RefusedFollowUp e)
               | Inr f \<Rightarrow>
                   Inr (r\<lparr>room_follow_ups := Some f,
                          room_run := Some ((change_handoff (rp_result p)
                            (\<lambda>h. h\<lparr>handoff_attempts := handoff_attempts h @
                               [\<lparr>attempt_panel = up_panel_id (rp_update p), attempt_id = rp_event p, attempt_at = now,
                                 attempt_outcome = ''host_unknown'', attempt_automatic = up_automatic (rp_update p)\<rparr>]\<rparr>) run)
                            \<lparr>run_last_notification := now\<rparr>)\<rparr>))"

text \<open>The loop over the attempts stops at the first one the outcome does not fit.\<close>

definition outcome_conflict :: "report \<Rightarrow> notification_attempt \<Rightarrow> report_error option" where
  "outcome_conflict p a =
     (if attempt_id a \<noteq> rp_event p then None
      else if attempt_panel a \<noteq> up_panel_id (rp_update p) \<or> attempt_automatic a \<noteq> up_automatic (rp_update p)
      then Some (Refused ''notification outcome does not match its claim'')
      else if attempt_outcome a \<noteq> ''host_unknown'' \<and> attempt_outcome a \<noteq> rp_kind p then Some (Refused ''notification outcome already recorded'')
      else None)"

definition settle_attempt :: "report \<Rightarrow> notification_attempt \<Rightarrow> notification_attempt" where
  "settle_attempt p a = (if attempt_id a = rp_event p then a\<lparr>attempt_outcome := rp_kind p\<rparr> else a)"

definition report_outcome :: "string \<Rightarrow> report \<Rightarrow> time \<Rightarrow> handoff \<Rightarrow> coordination_run \<Rightarrow> coord_room \<Rightarrow> report_error + coord_room" where
  "report_outcome key p now h run r =
     (case apply_follow_ups key (notification_observation p run) now r of
        Inl e \<Rightarrow> Inl (RefusedFollowUp e)
      | Inr f \<Rightarrow>
          (case find (\<lambda>a. outcome_conflict p a \<noteq> None) (handoff_attempts h) of
             Some a \<Rightarrow> Inl (the (outcome_conflict p a))
           | None \<Rightarrow>
               Inr (r\<lparr>room_follow_ups := Some f,
                      room_run := Some (change_handoff (rp_result p)
                        (\<lambda>h. h\<lparr>handoff_attempts := map (settle_attempt p) (handoff_attempts h)\<rparr>) run)\<rparr>)))"

section \<open>The coordinator's report\<close>

definition report_refusal :: "report \<Rightarrow> handoff option \<Rightarrow> coord_room \<Rightarrow> report_error option" where
  "report_refusal p h r =
     (if up_handoff_only (rp_update p) \<and> (h = None \<or> rp_state p = ''stopped'') then Some (Refused ''handoff_only requires a retained result and pending, blocked, or complete state'')
      else if up_waiting_for (rp_update p) \<noteq> '''' \<and> (\<not> wait_active r (up_waiting_for (rp_update p)) \<or> h = None)
      then Some (Refused ''waiting_for must identify an active assignment for this handoff'') else None)"

definition review_open :: "continuation \<Rightarrow> bool" where
  "review_open c \<longleftrightarrow> cont_state c = ''queued'' \<or> cont_state c = ''running''"

definition whole_run :: "report \<Rightarrow> bool" where
  "whole_run p \<longleftrightarrow> \<not> up_handoff_only (rp_update p)"

definition set_run_state :: "report \<Rightarrow> coordination_run \<Rightarrow> coordination_run" where
  "set_run_state p run =
     (if whole_run p
      then run\<lparr>run_state := rp_state p, run_detail := rp_detail p,
               run_waiting_on := (if rp_state p = ''blocked'' \<and> up_waiting_on (rp_update p) = ''''
                                  then ''external'' else up_waiting_on (rp_update p))\<rparr>
      else run)"

definition end_reviews :: "report \<Rightarrow> time \<Rightarrow> coord_room \<Rightarrow> coordination_run \<Rightarrow> coordination_run" where
  "end_reviews p now r run =
     (let run = (if rp_state p = ''stopped''
                 then snd (cancel_continuations ''Coordinator reported explicit stop'' r run) else run)
      in if rp_state p = ''complete'' \<and> whole_run p
         then (snd (cancel_continuations ''Coordinator reported objective complete'' r run))\<lparr>completed_through := now\<rparr>
         else run)"

definition describe_run :: "report \<Rightarrow> time \<Rightarrow> coordination_run \<Rightarrow> coordination_run" where
  "describe_run p now run =
     (let u = rp_update p;
          run = (if up_objective u \<noteq> None \<and> whole_run p then run\<lparr>run_objective := up_objective u\<rparr> else run);
          run = (if up_next_action u \<noteq> '''' \<and> whole_run p then run\<lparr>run_next_action := up_next_action u\<rparr> else run);
          run = (if up_owner u \<noteq> '''' \<and> whole_run p then run\<lparr>run_owner := up_owner u\<rparr> else run)
      in if rp_result p \<noteq> '''' then run\<lparr>run_acknowledged_at := now, acknowledged_result := rp_result p\<rparr> else run)"

definition acknowledge :: "report \<Rightarrow> time \<Rightarrow> handoff \<Rightarrow> handoff" where
  "acknowledge p now h0 =
     (let u = rp_update p;
          h = (if up_handoff_only u \<and> rp_state p = ''pending'' \<and> resolution h0 = ''coordinator_reported_blocked''
               then h0\<lparr>resolution := '''', resolved_at := 0\<rparr> else h0);
          h = (if acknowledged_at h = 0 then h\<lparr>acknowledged_at := now\<rparr> else h);
          h = h\<lparr>next_action := (if up_next_action u = '''' \<and> (rp_state p = ''pending'' \<or> rp_state p = ''blocked'')
                                then rp_detail p else up_next_action u),
                needs_reconciliation := False, waiting_for := up_waiting_for u,
                waiting_on := (if up_waiting_for u \<noteq> '''' then ''assignment'' else up_waiting_on u)\<rparr>;
          h = (if rp_state p = ''blocked'' \<and> waiting_on h = '''' then h\<lparr>waiting_on := ''external''\<rparr> else h);
          h = (if up_owner u \<noteq> '''' then h\<lparr>handoff_owner := up_owner u\<rparr> else h)
      in if \<not> actionable h0 \<and> actionable h then h\<lparr>actionable_since := now\<rparr> else h)"

definition close_handoff :: "report \<Rightarrow> time \<Rightarrow> handoff \<Rightarrow> handoff" where
  "close_handoff p now h =
     (if (rp_state p = ''complete'' \<or> rp_state p = ''stopped'') \<and> handoff_open h
         \<and> (whole_run p \<or> handoff_key h = rp_result p)
      then h\<lparr>resolution := ''coordinator_reported_'' @ rp_state p, resolved_at := now\<rparr> else h)"

definition conclude :: "report \<Rightarrow> time \<Rightarrow> coord_room \<Rightarrow> coordination_run \<Rightarrow> coordination_run" where
  "conclude p now r run =
     (let run = describe_run p now (end_reviews p now r (set_run_state p run));
          run = (if find_handoff (rp_result p) run \<noteq> None
                 then change_handoff (rp_result p) (acknowledge p now) run else run)
      in run\<lparr>handoffs := map (close_handoff p now) (handoffs run)\<rparr>)"

definition coordinator_report :: "report \<Rightarrow> time \<Rightarrow> coordination_run \<Rightarrow> coord_room \<Rightarrow> report_error + coord_room" where
  "coordinator_report p now run r =
     (case report_refusal p (find_handoff (rp_result p) run) r of
        Some e \<Rightarrow> Inl e
      | None \<Rightarrow>
          if rp_state p = ''complete'' \<and> whole_run p
          then let (n, _, t) = reconcile_coordination r now
               in case room_run t of
                    None \<Rightarrow> Inl (Refused ''monitored run is absent, stale, or stopped'')
                  | Some run \<Rightarrow>
                      if list_ex review_open (continuations run) then Inl (Refused ''cannot report complete while a registered review is pending'')
                      else if fst n > 0 then Inl (Refused ''cannot report complete while assignments are pending'')
                      else Inr (t\<lparr>room_run := Some (conclude p now t run)\<rparr>)
          else Inr (r\<lparr>room_run := Some (conclude p now r run)\<rparr>))"

definition apply_report :: "string \<Rightarrow> report \<Rightarrow> time \<Rightarrow> coordination_run \<Rightarrow> coord_room \<Rightarrow> report_error + coord_room" where
  "apply_report key p now run r =
     (if rp_kind p = ''panel_status'' then report_panel key p now run r
      else if rp_kind p = ''coordinator_report'' then coordinator_report p now run r
      else case find_handoff (rp_result p) run of
             None \<Rightarrow> Inr r
           | Some h \<Rightarrow> if rp_kind p = ''notification_attempted'' then report_attempt key p now h run r
                       else report_outcome key p now h run r)"

definition report_event :: "report \<Rightarrow> time \<Rightarrow> coordination_event" where
  "report_event p now =
     \<lparr>event_update = rp_update p, event_detail = rp_detail p, event_key = rp_event p, event_kind = rp_kind p,
      event_at = now, event_result_id = rp_result p, event_source_sequence = 0, event_outcome = rp_state p\<rparr>"

definition report_answer :: "time \<Rightarrow> coord_room \<Rightarrow> (report_error + nat \<times> nat) \<times> coord_room" where
  "report_answer now r = (let (n, _, t) = reconcile_coordination r now in (Inr n, t))"

text \<open>\<open>ReportCoordination\<close> on the reconciled room; \<open>Inr None\<close> is a repeated report.\<close>

definition reported_room :: "string \<Rightarrow> report \<Rightarrow> time \<Rightarrow> coord_room \<Rightarrow> report_error + coord_room option" where
  "reported_room key p now r =
     (let run = the (room_run r)
      in case check_retained p run of
           Some e \<Rightarrow> Inl e
         | None \<Rightarrow>
             (case find (\<lambda>e. event_key e = rp_event p \<and> event_kind e = rp_kind p) (run_events run) of
                Some e \<Rightarrow> if event_result_id e \<noteq> rp_result p \<or> event_outcome e \<noteq> rp_state p
                             \<or> event_detail e \<noteq> rp_detail p \<or> event_update e \<noteq> rp_update p
                          then Inl (Refused ''event ID reused with different content'') else Inr None
              | None \<Rightarrow>
                  (case apply_report key p now run r of
                     Inl e \<Rightarrow> Inl e
                   | Inr t \<Rightarrow>
                       Inr (Some (if rp_kind p = ''panel_status'' then t
                                  else t\<lparr>room_run := map_option (\<lambda>run. snd (record_event (report_event p now) run)) (room_run t)\<rparr>)))))"

definition report_coordination ::
  "(string \<Rightarrow> string) \<Rightarrow> (time \<Rightarrow> string) \<Rightarrow> bool \<Rightarrow> time \<Rightarrow> report \<Rightarrow> coord_room \<Rightarrow> (report_error + nat \<times> nat) \<times> coord_room" where
  "report_coordination digest stamp saved now p r =
     (case check_report p r of
        Some e \<Rightarrow> (Inl e, r)
      | None \<Rightarrow>
          let (_, changed, s) = reconcile_coordination r now
          in case reported_room (notification_key digest stamp s) p now s of
               Inl e \<Rightarrow> (Inl e, r)
             | Inr None \<Rightarrow> if changed \<and> \<not> saved then (Inl ReportNotSaved, r) else report_answer now s
             | Inr (Some t) \<Rightarrow> if saved then report_answer now t else (Inl ReportNotSaved, r))"

section \<open>Every operation keeps the ledger\<close>

lemma reopen_kept: "handoff_kept h (reopen_stopped h)"
  by (rule handoff_keptI) (auto simp: reopen_stopped_def settled_handoff_def)

lemma resume_run_kept: "run_kept run (resume_run key now run)"
  by (auto simp: resume_run_def intro: ledger_kept_map reopen_kept)

lemma stop_run_kept: "run_kept run (stop_run r run)"
  by (simp add: stop_run_def)

lemma controlled_run_kept:
  "controlled_run fresh now action r = Inr run' \<Longrightarrow> action \<noteq> ''start'' \<Longrightarrow> room_run r = Some run \<Longrightarrow> run_kept run run'"
  by (auto simp: controlled_run_def Let_def resume_run_kept stop_run_kept split: if_splits option.splits)

lemma control_kept:
  assumes "action \<noteq> ''start''"
  shows "room_kept r (snd (control_coordination fresh saved now action r))"
proof (cases "controlled_run fresh now action r")
  case (Inr run')
  obtain n c t where rec: "reconcile_coordination (r\<lparr>room_run := Some run'\<rparr>) now = (n, c, t)"
    by (cases "reconcile_coordination (r\<lparr>room_run := Some run'\<rparr>) now")
  have "room_kept r (r\<lparr>room_run := Some run'\<rparr>)"
    using controlled_run_kept [OF Inr assms] by (simp add: room_kept_def)
  from room_kept_trans [OF this reconcile_kept [OF rec]] Inr rec show ?thesis
    by (simp add: control_coordination_def)
qed (simp add: control_coordination_def)

lemma status_kept: "room_kept r (snd (coordination_status saved now r))"
proof -
  obtain n c t where rec: "reconcile_coordination r now = (n, c, t)" by (cases "reconcile_coordination r now")
  from reconcile_kept [OF rec] rec show ?thesis by (simp add: coordination_status_def)
qed

lemma new_attempt_kept:
  assumes "attempt_automatic a \<Longrightarrow> handoff_due h now"
  shows "handoff_kept h (h\<lparr>handoff_attempts := handoff_attempts h @ [a]\<rparr>)"
  using assms by (auto simp: handoff_kept_def automatic_attempts_def settled_handoff_def handoff_due_iff Let_def)

lemma settle_attempt_simps [simp]:
  "attempt_id (settle_attempt p a) = attempt_id a"
  "attempt_automatic (settle_attempt p a) = attempt_automatic a"
  by (simp_all add: settle_attempt_def)

lemma outcome_kept: "handoff_kept h (h\<lparr>handoff_attempts := map (settle_attempt p) (handoff_attempts h)\<rparr>)"
  by (simp add: handoff_kept_def automatic_attempts_def settled_handoff_def filter_map comp_def)
lemma acknowledge_kept: "handoff_kept h (acknowledge p now h)"
  by (rule handoff_keptI) (auto simp: acknowledge_def settled_handoff_def Let_def)

lemma close_kept: "handoff_kept h (close_handoff p now h)"
  by (rule handoff_keptI) (auto simp: close_handoff_def settled_handoff_def handoff_open_def)

lemma describe_handoffs [simp]: "handoffs (describe_run p now run) = handoffs run"
  by (simp add: describe_run_def Let_def)

lemma end_reviews_handoffs [simp]: "handoffs (end_reviews p now r run) = handoffs run"
  by (simp add: end_reviews_def Let_def)

lemma set_run_state_handoffs [simp]: "handoffs (set_run_state p run) = handoffs run"
  by (simp add: set_run_state_def)

lemma conclude_kept: "run_kept run (conclude p now r run)"
proof -
  define run1 where "run1 = describe_run p now (end_reviews p now r (set_run_state p run))"
  define run2 where "run2 = (if find_handoff (rp_result p) run1 \<noteq> None
      then change_handoff (rp_result p) (acknowledge p now) run1 else run1)"
  have "run_kept run run2"
    using ledger_kept_change [of "rp_result p" run1 "acknowledge p now"]
    by (auto simp: run1_def run2_def acknowledge_kept)
  moreover have "handoffs (conclude p now r run) = map (close_handoff p now) (handoffs run2)"
    by (simp add: conclude_def run1_def run2_def Let_def)
  ultimately show ?thesis
    using ledger_kept_trans [OF _ ledger_kept_map [of "handoffs run2" "close_handoff p now"]] close_kept by simp
qed

lemma coordinator_report_kept:
  assumes "coordinator_report p now run r = Inr t" "room_run r = Some run"
  shows "room_kept r t"
proof (cases "rp_state p = ''complete'' \<and> whole_run p")
  case True
  obtain n c s where rec: "reconcile_coordination r now = (n, c, s)" by (cases "reconcile_coordination r now")
  then obtain run' where "room_run s = Some run'" "t = s\<lparr>room_run := Some (conclude p now s run')\<rparr>"
    using assms True by (auto simp: coordinator_report_def split: option.splits if_splits)
  then have "room_kept s t" by (auto intro: room_kept_run conclude_kept)
  with reconcile_kept [OF rec] show ?thesis by (rule room_kept_trans)
next
  case False
  with assms have "t = r\<lparr>room_run := Some (conclude p now r run)\<rparr>"
    by (auto simp: coordinator_report_def split: option.splits if_splits)
  with assms(2) show ?thesis by (auto intro: room_kept_run conclude_kept)
qed

lemma report_panel_kept: "report_panel key p now run r = Inr t \<Longrightarrow> room_run r = Some run \<Longrightarrow> room_kept r t"
  by (auto simp: report_panel_def room_kept_def split: sum.splits if_splits)

lemma report_attempt_kept:
  assumes "report_attempt key p now h run r = Inr t" "room_run r = Some run" "find_handoff (rp_result p) run = Some h"
  shows "room_kept r t"
proof -
  let ?a = "\<lparr>attempt_panel = up_panel_id (rp_update p), attempt_id = rp_event p, attempt_at = now,
    attempt_outcome = ''host_unknown'', attempt_automatic = up_automatic (rp_update p)\<rparr>"
  let ?run = "change_handoff (rp_result p) (\<lambda>h. h\<lparr>handoff_attempts := handoff_attempts h @ [?a]\<rparr>) run"
  from assms(1) consider (same) "t = r"
    | (new) f where "t = r\<lparr>room_follow_ups := Some f, room_run := Some (?run\<lparr>run_last_notification := now\<rparr>)\<rparr>"
        "up_automatic (rp_update p) \<Longrightarrow> handoff_due h now"
    by (auto simp: report_attempt_def split: option.splits if_splits sum.splits)
  then show ?thesis
  proof cases
    case new
    then have "run_kept run ?run" using assms(3) by (intro ledger_kept_change new_attempt_kept) auto
    with new(1) assms(2) show ?thesis by (simp add: room_kept_def)
  qed simp
qed

lemma report_outcome_kept:
  assumes "report_outcome key p now h run r = Inr t" "room_run r = Some run" "find_handoff (rp_result p) run = Some h"
  shows "room_kept r t"
  using assms
  by (auto simp: report_outcome_def room_kept_def split: option.splits sum.splits
      intro!: ledger_kept_change outcome_kept)

lemma apply_report_kept: "apply_report key p now run r = Inr t \<Longrightarrow> room_run r = Some run \<Longrightarrow> room_kept r t"
  by (auto simp: apply_report_def split: if_splits option.splits
      intro: report_panel_kept coordinator_report_kept report_attempt_kept report_outcome_kept)

lemma reported_room_kept:
  assumes "reported_room key p now r = Inr (Some t)" "room_run r = Some run"
  shows "room_kept r t"
proof -
  from assms obtain s where s: "apply_report key p now run r = Inr s"
    "t = (if rp_kind p = ''panel_status'' then s
          else s\<lparr>room_run := map_option (\<lambda>run. snd (record_event (report_event p now) run)) (room_run s)\<rparr>)"
    by (auto simp: reported_room_def Let_def split: option.splits if_splits sum.splits)
  have "room_kept s t" using s(2) by (auto simp: room_kept_def)
  with apply_report_kept [OF s(1) assms(2)] show ?thesis by (rule room_kept_trans)
qed

lemma report_kept: "room_kept r (snd (report_coordination digest stamp saved now p r))"
proof (cases "check_report p r")
  case None
  obtain n c s where rec: "reconcile_coordination r now = (n, c, s)" by (cases "reconcile_coordination r now")
  note kept = reconcile_kept [OF rec]
  have again: "room_kept r (snd (report_answer now t))" if "room_kept r t" for t
    using room_kept_trans [OF that reconcile_kept] by (auto simp: report_answer_def split: prod.splits)
  obtain run where "room_run r = Some run"
    using None by (auto simp: check_report_def split: option.splits if_splits)
  with kept obtain run' where run': "room_run s = Some run'" by (auto simp: room_kept_def)
  show ?thesis
  proof (cases "reported_room (notification_key digest stamp s) p now s")
    case (Inl e)
    with None rec show ?thesis by (simp add: report_coordination_def)
  next
    case (Inr to)
    show ?thesis
    proof (cases to)
      case None
      with Inr rec again [OF kept] \<open>check_report p r = None\<close> show ?thesis by (simp add: report_coordination_def)
    next
      case (Some t)
      from again [OF room_kept_trans [OF kept reported_room_kept [OF Inr [unfolded Some] run']]]
      show ?thesis using Some Inr rec None by (simp add: report_coordination_def)
    qed
  qed
qed (simp add: report_coordination_def)

section \<open>Sequences of operations\<close>

text \<open>
  The operations of the host, the coordinator and its panels, in any order, with anything else the
  room does in between.  \<open>Access_End\<close> is the end of a grant or an explicit leave, which cancels
  queued reviews; \<open>Room_Stop\<close> is the run's part of \<open>Stop\<close>.
\<close>

datatype coord_event =
  Control "string option" bool time string
| Status bool time
| Report bool time report
| Access_End string
| Room_Stop
| Room_Change coord_room

fun coord_step :: "(string \<Rightarrow> string) \<Rightarrow> (time \<Rightarrow> string) \<Rightarrow> coord_room \<Rightarrow> coord_event \<Rightarrow> coord_room" where
  "coord_step digest stamp r (Control fresh saved now action) = snd (control_coordination fresh saved now action r)"
| "coord_step digest stamp r (Status saved now) = snd (coordination_status saved now r)"
| "coord_step digest stamp r (Report saved now p) = snd (report_coordination digest stamp saved now p r)"
| "coord_step digest stamp r (Access_End reason) =
     r\<lparr>room_run := map_option (\<lambda>run. snd (cancel_continuations reason r run)) (room_run r)\<rparr>"
| "coord_step digest stamp r Room_Stop = r\<lparr>room_run := map_option (stop_run r) (room_run r)\<rparr>"
| "coord_step digest stamp r (Room_Change t) = t\<lparr>room_run := room_run r\<rparr>"

fun starts_run :: "coord_event \<Rightarrow> bool" where
  "starts_run (Control fresh saved now action) \<longleftrightarrow> action = ''start''"
| "starts_run _ \<longleftrightarrow> False"

lemma coord_step_kept: "\<not> starts_run e \<Longrightarrow> room_kept r (coord_step digest stamp r e)"
  by (cases e) (auto simp: control_kept status_kept report_kept room_kept_def [of r "r\<lparr>room_run := _\<rparr>"]
      room_kept_def [of r "_\<lparr>room_run := room_run r\<rparr>"] stop_run_kept)

lemma coord_run_kept:
  "list_all (\<lambda>e. \<not> starts_run e) es \<Longrightarrow> room_kept r (foldl (coord_step digest stamp) r es)"
proof (induction es arbitrary: r)
  case (Cons e es)
  then have "room_kept r (coord_step digest stamp r e)"
    "room_kept (coord_step digest stamp r e) (foldl (coord_step digest stamp) (coord_step digest stamp r e) es)"
    using coord_step_kept by simp_all
  then show ?case using room_kept_trans by simp
qed simp

section \<open>Completion\<close>

lemma change_handoff_frame [simp]:
  "run_state (change_handoff key f run) = run_state run"
  "start_sequence (change_handoff key f run) = start_sequence run"
  "continuations (change_handoff key f run) = continuations run"
  by (simp_all add: change_handoff_def)

lemma describe_frame [simp]:
  "run_state (describe_run p now run) = run_state run"
  "start_sequence (describe_run p now run) = start_sequence run"
  "continuations (describe_run p now run) = continuations run"
  by (simp_all add: describe_run_def Let_def)

lemma end_reviews_frame [simp]:
  "run_state (end_reviews p now r run) = run_state run"
  "start_sequence (end_reviews p now r run) = start_sequence run"
  by (simp_all add: end_reviews_def cancel_continuations_def Let_def)

lemma set_run_state_frame [simp]:
  "start_sequence (set_run_state p run) = start_sequence run"
  "continuations (set_run_state p run) = continuations run"
  by (simp_all add: set_run_state_def)

lemma conclude_frame:
  "rp_state p = ''complete'' \<Longrightarrow> whole_run p \<Longrightarrow> run_state (conclude p now r run) = ''complete''"
  "start_sequence (conclude p now r run) = start_sequence run"
  "continuations (conclude p now r run) = continuations (end_reviews p now r (set_run_state p run))"
  by (simp_all add: conclude_def Let_def) (simp add: set_run_state_def)
lemma conclude_closed:
  "rp_state p = ''complete'' \<Longrightarrow> whole_run p \<Longrightarrow> h \<in> set (handoffs (conclude p now r run)) \<Longrightarrow> \<not> handoff_open h"
  by (auto simp: conclude_def close_handoff_def handoff_open_def Let_def)

lemma conclude_reviews:
  assumes "\<not> list_ex review_open (continuations run)"
  shows "\<not> list_ex review_open (continuations (conclude p now r run))"
proof -
  have "continuations (conclude p now r run) = map id (continuations run)"
    if "\<forall>c\<in>set (continuations run). cont_state c \<noteq> ''queued''"
    using that
    by (simp add: conclude_frame end_reviews_def cancel_continuations_def cancel_continuation_def Let_def map_idI)
  with assms show ?thesis by (auto simp: list_ex_iff review_open_def)
qed

lemma coordinator_report_complete:
  assumes rep: "coordinator_report p now run r = Inr t" and c: "rp_state p = ''complete''" "whole_run p"
    and run: "room_run r = Some run" and open_run: "run_state run \<noteq> ''stopped''"
  shows "\<exists>run'. room_run t = Some run' \<and> run_state run' = ''complete'' \<and>
           \<not> list_ex handoff_open (handoffs run') \<and> \<not> list_ex review_open (continuations run') \<and>
           pending_jobs (filter (run_source run') (room_messages t)) t = 0"
proof -
  obtain n ch run1 where rec: "reconcile_run r now run = (n, ch, run1)" by (cases "reconcile_run r now run") auto
  let ?s = "r\<lparr>room_run := Some run1\<rparr>"
  let ?run = "conclude p now ?s run1"
  have t: "t = ?s\<lparr>room_run := Some ?run\<rparr>" "\<not> list_ex review_open (continuations run1)" "fst n = 0"
    using rep c run open_run rec
    by (auto simp: coordinator_report_def reconcile_coordination_def split: option.splits if_splits)
  have "run_source ?run = run_source run"
    using reconcile_run_pending(1) [OF rec] by (simp add: fun_eq_iff run_source_def conclude_frame)
  moreover have "pending_jobs srcs t = pending_jobs srcs r" for srcs
    by (simp add: t pending_jobs_def source_jobs_def source_workflows_def)
  ultimately have "pending_jobs (filter (run_source ?run) (room_messages t)) t = 0"
    using reconcile_run_pending(2) [OF rec] t by simp
  then show ?thesis
    using t conclude_frame(1) [OF c] conclude_closed [OF c] conclude_reviews [OF t(2)]
    by (auto simp: list_ex_iff)
qed

section \<open>Properties\<close>

text \<open>A refused or unsaved control or report leaves the room as it was.\<close>

interpretation control_store: atomic_store
  "\<lambda>(fresh, saved, now, action). control_coordination fresh saved now action" "\<lambda>r. r" "\<lambda>r. True"
  by unfold_locales (auto simp: control_coordination_def split: sum.splits prod.splits if_splits)

interpretation report_store: atomic_store
  "\<lambda>(saved, now, p). report_coordination digest stamp saved now p" "\<lambda>r. r" "\<lambda>r. True"
  by unfold_locales
     (auto simp: report_coordination_def report_answer_def split: sum.splits prod.splits if_splits option.splits)


text \<open>
  C7. The coordinator can report the whole run complete only when nothing is outstanding: after an
  accepted report no assignment is pending, no registered review is queued or running, and every
  handoff is closed.
\<close>

theorem complete_means_done:
  assumes "apply_report key p now run r = Inr t" "rp_kind p = ''coordinator_report''"
    and "rp_state p = ''complete''" "whole_run p" "room_run r = Some run" "run_state run \<noteq> ''stopped''"
  shows "\<exists>run'. room_run t = Some run' \<and> run_state run' = ''complete'' \<and>
           \<not> list_ex handoff_open (handoffs run') \<and> \<not> list_ex review_open (continuations run') \<and>
           pending_jobs (filter (run_source run') (room_messages t)) t = 0"
  using assms by (intro coordinator_report_complete) (simp_all add: apply_report_def)

section \<open>Examples\<close>

definition sample_report :: "string \<Rightarrow> string \<Rightarrow> string \<Rightarrow> string \<Rightarrow> report" where
  "sample_report event k result st =
     \<lparr>rp_run = ''r'', rp_event = event, rp_kind = k, rp_result = result, rp_state = st, rp_detail = ''d'',
      rp_update = empty_update\<lparr>up_panel_id := ''p'', up_delivery := ''enabled''\<rparr>\<rparr>"

definition sample_coord_events :: "coord_event list" where
  "sample_coord_events =
     [Status True (200 * second),
      Report True (210 * second) (sample_report ''s'' ''panel_status'' '''' ''''),
      Report True (220 * second) (sample_report ''n'' ''notification_attempted'' ''reply:j1'' ''''),

      Report True (240 * second) (sample_report ''c'' ''coordinator_report'' ''reply:j1'' ''complete'')]"

lemmas report_sample_defs = sample_report_def sample_coord_events_def empty_update_def

definition final_ledger :: "coord_room \<Rightarrow> (string \<times> string \<times> string list) list" where
  "final_ledger r = (case room_run r of None \<Rightarrow> []
     | Some run \<Rightarrow> map (\<lambda>h. (handoff_key h, resolution h, map attempt_outcome (handoff_attempts h))) (handoffs run))"

lemma sample_final_ledger:
  "final_ledger (foldl (coord_step (\<lambda>s. s) (\<lambda>_. '''')) sample_ledger_room sample_coord_events) =
     [(''reply:j1'', ''coordinator_reported_complete'', [''host_unknown''])]"
  by code_simp


definition sample_completion :: "report_error + coord_room" where
  "sample_completion = apply_report '''' (sample_report ''c'' ''coordinator_report'' '''' ''complete'') (240 * second)
     sample_run sample_ledger_room"

lemma sample_completion_done: "\<exists>t. sample_completion = Inr t"
proof -
  have "case sample_completion of Inl e \<Rightarrow> False | Inr t \<Rightarrow> True" by code_simp
  then show ?thesis by (auto split: sum.splits)
qed

theorem complete_means_done_witness:
  "\<exists>t run'. sample_completion = Inr t \<and> room_run t = Some run' \<and> run_state run' = ''complete'' \<and>
     \<not> list_ex handoff_open (handoffs run')"
proof -
  obtain t where t: "sample_completion = Inr t" using sample_completion_done by blast
  have "whole_run (sample_report ''c'' ''coordinator_report'' '''' ''complete'')"
    "room_run sample_ledger_room = Some sample_run" "run_state sample_run \<noteq> ''stopped''"
    by (simp_all add: ledger_sample_defs report_sample_defs whole_run_def)
  from complete_means_done [OF t [unfolded sample_completion_def] _ _ this] t show ?thesis
    by (auto simp: sample_report_def)
qed

end
