(* ===== verification/Coordination_View.thy ===== *)
theory Coordination_View
  imports Coordination_Reports
begin

text \<open>
  What clients see of a monitored run: \<open>View\<close> of \<^verbatim>\<open>internal/chat/coordination.go\<close> with the
  metrics and the per-handoff ages of \<^verbatim>\<open>internal/chat/handoff.go\<close>, and the delivery status that
  reconciling adds (the end of \<open>reconcileCoordinationLocked\<close>).  Seconds are whole seconds; the
  code's detour over a \<open>float64\<close> rounds differently only for spans beyond 97 days.
\<close>

section \<open>Handoffs in the view\<close>

record handoff_view =
  hv_handoff :: handoff
  hv_age :: int
  hv_stalled :: bool
  hv_due :: bool

record coordination_metrics =
  m_handoffs :: nat
  m_outstanding :: nat
  m_stalled :: nat
  m_attempts :: nat
  m_acknowledged :: nat
  m_acknowledgment_seconds :: int
  m_dispatched :: nat
  m_dispatch_seconds :: int
  m_stalled_seconds :: int
  m_manual :: nat

record coordination_view =
  cv_metrics :: coordination_metrics
  cv_recovery :: string
  cv_run :: "coordination_run option"
  cv_events :: "coordination_event list"
  cv_handoffs :: "handoff_view list"
  cv_pending :: nat
  cv_waiting :: nat
  cv_idle :: int
  cv_no_success :: int
  cv_action_needed :: bool
  cv_no_completion :: bool
  cv_summary :: string
  cv_follow_ups :: "follow_up_view option"

definition seconds_between :: "time \<Rightarrow> time \<Rightarrow> int" where
  "seconds_between a b = max 0 (go_div (time_sub b a) second)"

definition handoff_end :: "time \<Rightarrow> handoff \<Rightarrow> time" where
  "handoff_end now h = (if resolved_at h \<noteq> 0 then resolved_at h else now)"

definition action_age :: "time \<Rightarrow> handoff \<Rightarrow> int" where
  "action_age now h =
     seconds_between (if actionable_since h > ready_at h then actionable_since h else ready_at h) (handoff_end now h)"

definition view_handoff :: "time \<Rightarrow> coordination_run \<Rightarrow> handoff \<Rightarrow> handoff_view" where
  "view_handoff now run h =
     \<lparr>hv_handoff = h, hv_age = seconds_between (ready_at h) (handoff_end now h),
      hv_stalled = (handoff_open h \<and> run_state run = ''pending'' \<and> actionable h \<and> action_age now h \<ge> 180),
      hv_due = (handoff_open h \<and> run_state run = ''pending'' \<and> handoff_due h now
                \<and> time_sub now (run_last_notification run) \<ge> 20 * second)\<rparr>"

definition retryable :: "handoff \<Rightarrow> bool" where
  "retryable h \<longleftrightarrow> automatic_attempts h < 3 \<and>
     \<not> list_ex (\<lambda>a. attempt_outcome a = ''host_rejected'') (handoff_attempts h)"

definition sum_of :: "('a \<Rightarrow> int) \<Rightarrow> 'a list \<Rightarrow> int" where
  "sum_of f xs = sum_list (map f xs)"

definition view_metrics :: "time \<Rightarrow> coordination_run \<Rightarrow> coordination_metrics" where
  "view_metrics now run =
     (let hs = handoffs run; count = (\<lambda>p. length (filter p hs))
      in \<lparr>m_handoffs = length hs, m_outstanding = count handoff_open,
          m_stalled = count (\<lambda>h. hv_stalled (view_handoff now run h)),
          m_attempts = sum_list (map (\<lambda>h. length (handoff_attempts h)) hs),
          m_acknowledged = count (\<lambda>h. acknowledged_at h \<noteq> 0),
          m_acknowledgment_seconds =
            sum_of (\<lambda>h. seconds_between (ready_at h) (acknowledged_at h)) (filter (\<lambda>h. acknowledged_at h \<noteq> 0) hs),
          m_dispatched = count (\<lambda>h. assignment_sequence h \<noteq> 0),
          m_dispatch_seconds =
            sum_of (\<lambda>h. hv_age (view_handoff now run h)) (filter (\<lambda>h. assignment_sequence h \<noteq> 0) hs),
          m_stalled_seconds = sum_of (\<lambda>h. max 0 (action_age now h - 180)) (filter actionable hs),
          m_manual = sum_list (map (\<lambda>h. length (filter (\<lambda>a. \<not> attempt_automatic a) (handoff_attempts h))) hs)\<rparr>)"

text \<open>The first actionable open handoff with the earliest time.\<close>

definition oldest_handoff :: "handoff list \<Rightarrow> handoff option" where
  "oldest_handoff hs =
     foldl (\<lambda>l h. if actionable h \<and> (case l of None \<Rightarrow> True | Some k \<Rightarrow> ready_at h < ready_at k)
                  then Some h else l) None hs"

section \<open>The view\<close>

definition idle_since :: "coordination_run \<Rightarrow> time" where
  "idle_since run = foldl (\<lambda>idle t. if t > idle then t else idle) (run_started_at run) [last_assignment_at run, last_result_at run]"

definition success_since :: "coordination_run \<Rightarrow> time" where
  "success_since run = (if last_success_at run < run_started_at run then run_started_at run else last_success_at run)"

text \<open>The right single quotation mark, in UTF-8.\<close>

definition possessive :: string where
  "possessive = [CHR 0xE2, CHR 0x80, CHR 0x99] @ ''s''"

definition run_summary :: "coordination_run \<Rightarrow> nat \<Rightarrow> nat \<Rightarrow> bool \<Rightarrow> string" where
  "run_summary run pending waits needed =
     (if run_state run = ''stopped'' then ''Monitored run stopped; only the local host can resume''
      else if run_state run = ''complete'' then ''Coordinator reports run complete (not independently verified)''
      else if run_state run = ''blocked''
      then if run_waiting_on run = ''human''
           then ''Waiting for '' @ run_owner run @ possessive @ '' decision: '' @ run_detail run
           else ''Waiting for '' @ run_owner run @ '': '' @ run_detail run
      else if needed then ''Coordinator action needed: no pending jobs for at least 3 minutes''
      else if waits > 0 then ''Assignments waiting for provider or resource capacity''
      else if pending > 0 then ''Assignments in progress''
      else ''Waiting for coordinator action'')"

fun panel_report :: "time \<Rightarrow> coordination_panel list \<Rightarrow> string \<Rightarrow> string" where
  "panel_report now [] v = v"
| "panel_report now (p # ps) v =
     (if time_sub now (panel_seen_at p) \<le> 45 * second
      then if panel_mode p = ''enabled'' then ''Panel available for follow-ups''
           else panel_report now ps (''Panel reports '' @ panel_mode p)
      else panel_report now ps v)"

definition wait_summary :: "handoff \<Rightarrow> string" where
  "wait_summary h =
     (if needs_reconciliation h then ''Needs reconciliation: historical result '' @ handoff_key h
      else if waiting_on h = ''human'' then ''Waiting for '' @ handoff_owner h @ possessive @ '' decision: '' @ next_action h
      else if waiting_for h \<noteq> '''' then ''Waiting for assignment '' @ waiting_for h
      else ''Waiting for '' @ handoff_owner h @ '': '' @ next_action h)"

definition oldest_summary :: "handoff_view \<Rightarrow> string" where
  "oldest_summary v =
     (let h = hv_handoff v
      in (if hv_stalled v then ''Stalled handoff. '' else '''') @
         ''Awaiting '' @ handoff_owner h @ '': result from '' @ handoff_participant h @ '' ready '' @ itoa (hv_age v) @ ''s ago'' @
         (if next_action h \<noteq> '''' then ''; next: '' @ next_action h else '''') @
         (if acknowledged_at h \<noteq> 0 then ''; acknowledged, next assignment outstanding'' else ''''))"

definition empty_metrics :: coordination_metrics where
  "empty_metrics = \<lparr>m_handoffs = 0, m_outstanding = 0, m_stalled = 0, m_attempts = 0, m_acknowledged = 0,
     m_acknowledgment_seconds = 0, m_dispatched = 0, m_dispatch_seconds = 0, m_stalled_seconds = 0, m_manual = 0\<rparr>"

definition disabled_view :: "nat \<Rightarrow> nat \<Rightarrow> coordination_view" where
  "disabled_view pending waits =
     \<lparr>cv_metrics = empty_metrics, cv_recovery = ''Delivery availability unknown'', cv_run = None, cv_events = [],
      cv_handoffs = [], cv_pending = pending, cv_waiting = waits, cv_idle = 0, cv_no_success = 0,
      cv_action_needed = False, cv_no_completion = False, cv_summary = ''Coordination monitoring disabled'',
      cv_follow_ups = None\<rparr>"

definition run_view :: "time \<Rightarrow> coordination_run \<Rightarrow> nat \<Rightarrow> nat \<Rightarrow> coordination_view" where
  "run_view now run pending waits =
     (let live = (run_state run = ''pending'');
          idle = seconds_between (idle_since run) now;
          no_success = seconds_between (success_since run) now;
          needed = (live \<and> pending = 0 \<and> idle \<ge> 180);
          late = (live \<and> no_success \<ge> 3600);
          note_late = (if late then ''; no successful operation completion for at least one hour'' else '''');
          calls = filter actionable (handoffs run);
          recovery = (if live \<and> calls \<noteq> [] \<and> \<not> list_ex retryable calls
                      then ''Automatic handoff notifications exhausted or rejected; coordinator action still outstanding''
                      else panel_report now (run_panels run) ''Delivery availability unknown'');
          oldest = oldest_handoff (handoffs run);
          v = \<lparr>cv_metrics = view_metrics now run, cv_recovery = recovery, cv_run = Some run,
               cv_events = take_last 20 (run_events run), cv_handoffs = map (view_handoff now run) (handoffs run),
               cv_pending = pending, cv_waiting = waits, cv_idle = idle, cv_no_success = no_success,
               cv_action_needed = needed, cv_no_completion = late,
               cv_summary = run_summary run pending waits needed @ note_late, cv_follow_ups = None\<rparr>
      in if live
         then case oldest of
                Some h \<Rightarrow> v\<lparr>cv_action_needed := hv_stalled (view_handoff now run h),
                            cv_summary := oldest_summary (view_handoff now run h)\<rparr>
              | None \<Rightarrow>
                  (case find handoff_open (handoffs run) of
                     Some h \<Rightarrow> if pending = 0 then v\<lparr>cv_action_needed := False, cv_no_completion := False,
                                                     cv_summary := wait_summary h\<rparr> else v
                   | None \<Rightarrow> v)
         else v)"

text \<open>The view reconciling returns, with the status of the follow-ups.\<close>

definition contains :: "string \<Rightarrow> string \<Rightarrow> bool" where
  "contains s p \<longleftrightarrow> list_ex (\<lambda>i. has_prefix (drop i s) p) [0..<Suc (length s)]"

definition with_delivery :: "follow_up_view \<Rightarrow> coordination_view \<Rightarrow> coordination_view" where
  "with_delivery f v =
     (let v = v\<lparr>cv_follow_ups := Some f\<rparr>;
          was = cv_recovery v
      in if fv_status f \<noteq> ''On and connected'' \<or> was = ''Delivery availability unknown'' \<or> has_prefix was ''Panel ''
         then v\<lparr>cv_recovery := fv_status f @
                  (if fv_reason f \<noteq> '''' then '' ('' @ fv_reason f @ '')'' else '''') @
                  (if contains was ''exhausted or rejected'' then ''; '' @ was else '''')\<rparr>
         else v)"

definition coordination_view_of :: "coord_room \<Rightarrow> time \<Rightarrow> coordination_view" where
  "coordination_view_of r now =
     (case room_run r of
        None \<Rightarrow> disabled_view 0 0
      | Some run \<Rightarrow>
          if run_state run = ''stopped'' then run_view now run 0 0
          else let (n, _, run) = reconcile_run r now run
               in with_delivery (follow_view now (room_chatgpt r) (Some run) (room_follow_ups r))
                    (run_view now run (fst n) (snd n)))"

section \<open>Lemmas\<close>

lemma view_handoff_simps [simp]:
  "hv_handoff (view_handoff now run h) = h"
  "hv_due (view_handoff now run h) \<longleftrightarrow>
     handoff_open h \<and> run_state run = ''pending'' \<and> handoff_due h now
     \<and> time_sub now (run_last_notification run) \<ge> 20 * second"
  by (simp_all add: view_handoff_def)

definition handoff_refusals :: "(report_error + coord_room) set" where
  "handoff_refusals = {Inl (Refused ''handoff already accounted for''),
     Inl (Refused ''another panel recently claimed a notification''), Inl (Refused ''handoff notification is not due'')}"

text \<open>
  A handoff can be stalled, and be counted as stalled, while the view says that no action is needed:
  only the oldest actionable handoff decides, and its own wait may just have ended.
\<close>

definition hidden_stall_run :: coordination_run where
  "hidden_stall_run = sample_run\<lparr>handoffs := [
     new_handoff sample_ledger_room [] (plain_event ''a'' ''result_available'' ''a'' (100 * second) 5 ''answered'')
       \<lparr>actionable_since := 1000 * second\<rparr>,
     new_handoff sample_ledger_room [] (plain_event ''b'' ''result_available'' ''b'' (200 * second) 5 ''answered'')],
     last_result_at := 200 * second\<rparr>"

lemma hidden_stall:
  "m_stalled (cv_metrics (run_view (1010 * second) hidden_stall_run 0 0)) = 1 \<and>
   \<not> cv_action_needed (run_view (1010 * second) hidden_stall_run 0 0)"
  by code_simp

section \<open>Property\<close>

text \<open>
  C40. The view is exact about notifications: it shows a handoff as due exactly when a new automatic
  notification of it passes every check of the ledger (only the follow-up budget can still refuse).
\<close>

theorem due_exactly_claimable:
  assumes "find (\<lambda>a. attempt_id a = rp_event p) (handoff_attempts h) = None" "up_automatic (rp_update p)"
  shows "hv_due (view_handoff now run h) \<longleftrightarrow> report_attempt key p now h run r \<notin> handoff_refusals"
  using assms
  by (auto simp: report_attempt_def handoff_refusals_def not_less split: sum.splits)

theorem due_exactly_claimable_witness:
  "hv_due (view_handoff (1010 * second) hidden_stall_run (hd (handoffs hidden_stall_run))) \<and>
   report_attempt '''' ((sample_report ''n'' ''notification_attempted'' ''a'' '''')
       \<lparr>rp_update := empty_update\<lparr>up_automatic := True\<rparr>\<rparr>) (1010 * second)
     (hd (handoffs hidden_stall_run)) hidden_stall_run sample_ledger_room \<notin> handoff_refusals"
proof -
  have "hv_due (view_handoff (1010 * second) hidden_stall_run (hd (handoffs hidden_stall_run)))"
    "handoff_attempts (hd (handoffs hidden_stall_run)) = []"
    by code_simp+
  moreover from this(1) have "report_attempt '''' ((sample_report ''n'' ''notification_attempted'' ''a'' '''')
       \<lparr>rp_update := empty_update\<lparr>up_automatic := True\<rparr>\<rparr>) (1010 * second)
     (hd (handoffs hidden_stall_run)) hidden_stall_run sample_ledger_room \<notin> handoff_refusals"
    by (subst due_exactly_claimable [symmetric]) (simp_all add: \<open>handoff_attempts _ = []\<close> del: view_handoff_simps)
  ultimately show ?thesis by blast
qed

end
