(* ===== verification/Conversation_Scheduler.thy ===== *)
theory Conversation_Scheduler
  imports Core_Peers Recovery Coordination_Reports
begin

text \<open>
  The conversation scheduler (\<^verbatim>\<open>internal/room/conversations.go\<close>, with the participation state of
  \<^verbatim>\<open>internal/room/chatgpt.go\<close>): one pass expires leases and deadlines, retires temporary responders
  and assigns waiting conversations to eligible responders, creating a temporary one when nobody
  else may answer.  Each pass holds the room's lock, so it is one step; what appending to the
  transcript and creating a responder answer are arguments.  The displayed activity of a
  participant, the prompts and the per-agent settings are left out: no decision reads them.
\<close>

section \<open>State\<close>

record conversation_turn =
  turn_key :: string
  turn_conversation :: string

text \<open>
  The jobs, the members, the agents, the calls in progress and the temporary responders are in
  \<open>core_state\<close>; \<open>sc_turns\<close> are the calls that answer a conversation.
\<close>

record scheduler =
  core_state :: core_host
  sc_messages :: "message list"
  sc_next :: nat
  sc_routes :: "nat list"
  sc_resolutions :: "nat \<rightharpoonup> input_resolution"
  sc_chatgpt :: "chatgpt_state option"
  sc_follow_ups :: "follow_ups option"
  sc_run :: "coordination_run option"
  sc_workflows :: "(string \<times> workflow) list"
  sc_activities :: "(participant \<times> activity) list"
  sc_posting :: "string list"
  sc_turns :: "(participant \<times> conversation_turn) list"
  temporary_limit :: int
  temporary_factory :: "participant list option"
  sc_closed :: bool
  sc_routing :: bool

abbreviation jobs :: "scheduler \<Rightarrow> conversation_job list" where
  "jobs s \<equiv> room_conversations (room (core_state s))"

abbreviation with_core :: "(core_host \<Rightarrow> core_host) \<Rightarrow> scheduler \<Rightarrow> scheduler" where
  "with_core f s \<equiv> s\<lparr>core_state := f (core_state s)\<rparr>"

definition set_jobs :: "conversation_job list \<Rightarrow> scheduler \<Rightarrow> scheduler" where
  "set_jobs js = with_core (set_room (\<lambda>r. r\<lparr>room_conversations := js\<rparr>))"

definition conversation :: "string \<Rightarrow> scheduler \<Rightarrow> conversation_job option" where
  "conversation cid s = find (\<lambda>j. job_id j = cid) (jobs s)"

definition put_job :: "conversation_job \<Rightarrow> scheduler \<Rightarrow> scheduler" where
  "put_job j s = set_jobs (update_first (\<lambda>k. job_id k = job_id j) (\<lambda>_. j) (jobs s)) s"

definition remove_sequence :: "nat \<Rightarrow> nat list \<Rightarrow> nat list" where
  "remove_sequence n ns = filter (\<lambda>v. v \<noteq> n) ns"

definition drop_routes :: "nat \<Rightarrow> scheduler \<Rightarrow> scheduler" where
  "drop_routes n s = s\<lparr>sc_routes := remove_sequence n (sc_routes s)\<rparr>"

definition chatgpt_conversation :: "scheduler \<Rightarrow> conversation_job \<Rightarrow> bool" where
  "chatgpt_conversation s j =
     (case find (\<lambda>m. sequence m = job_source_sequence j) (sc_messages s) of
        None \<Rightarrow> False | Some m \<Rightarrow> author m = ChatGPT)"

section \<open>The transcript\<close>

text \<open>What \<open>NewID\<close> and \<open>AppendMessage\<close> answer: the error, or the identifier of the stored message.\<close>

type_synonym append_answer = "string + string"

definition post :: "append_answer \<Rightarrow> message \<Rightarrow> scheduler \<Rightarrow> message option \<times> scheduler" where
  "post io m s =
     (case io of
        Inl e \<Rightarrow> (None, s)
      | Inr mid \<Rightarrow> let m = m\<lparr>msg_id := mid\<rparr>
                   in (Some m, s\<lparr>sc_next := sc_next s + 1, sc_messages := sc_messages s @ [m]\<rparr>))"

definition conversation_message :: "time \<Rightarrow> participant \<Rightarrow> string \<Rightarrow> string \<Rightarrow> string \<Rightarrow> scheduler \<Rightarrow> message" where
  "conversation_message now p k cid text s =
     empty_message\<lparr>sequence := sc_next s, author := p, kind := k, conversation_id := cid,
       msg_text := trim_space text, created_at := now,
       turn_id := (case map_of (sc_turns s) p of None \<Rightarrow> '''' | Some t \<Rightarrow> turn_key t)\<rparr>"

section \<open>Failing a conversation\<close>

definition failure_code :: "string \<Rightarrow> conversation_reason" where
  "failure_code line =
     (if line = failureLineTimedOut then ReasonDeadline
      else if line = failureLineNeedsAccess then ReasonAccess
      else if line = failureLineInterrupted then ReasonHostRestart
      else if line = failureLineNoAnswer then ReasonNoAnswer
      else if line = failureLineNotStarted \<or> line = failureLineNotSaved \<or> line = failureLineNotDurable
      then ReasonPersistence
      else ReasonProvider)"

definition retire_now :: "time \<Rightarrow> conversation_job \<Rightarrow> conversation_job" where
  "retire_now now j = (if temporary j then j\<lparr>retire_at := Some now\<rparr> else j)"

definition fail_job :: "string \<Rightarrow> string \<Rightarrow> time \<Rightarrow> conversation_job \<Rightarrow> conversation_job" where
  "fail_job reason line now j =
     retire_now now ((finish_job (failure_code line) now (j\<lparr>job_state := ConversationFailed\<rparr>))
       \<lparr>action_state := ActionNone, terminal_reason := trim_space reason, assigned := '''', queue_position := 0,
        job_wait_reason := '''', unread := False, job_updated_at := now\<rparr>)"

text \<open>The failed job and the state with its line; the caller stores the job.\<close>

definition fail_conversation ::
  "append_answer \<Rightarrow> string \<Rightarrow> string \<Rightarrow> time \<Rightarrow> conversation_job \<Rightarrow> scheduler \<Rightarrow> conversation_job \<times> scheduler" where
  "fail_conversation io reason line now j s =
     (let s = drop_routes (job_source_sequence j) s;
          j = fail_job reason line now j
      in if failure_sequence j \<noteq> 0 \<or> trim_space line = '''' then (j, s)
         else case post io (conversation_message now System MessageText (job_id j) line s) s of
                (None, s) \<Rightarrow> ((if terminal_reason j = '''' then j\<lparr>terminal_reason := (case io of Inl e \<Rightarrow> e | Inr _ \<Rightarrow> '''')\<rparr> else j), s)
              | (Some m, s) \<Rightarrow> (j\<lparr>failure_sequence := sequence m\<rparr>, s))"

section \<open>The first phases of a pass\<close>

definition cancel_job :: "conversation_reason \<Rightarrow> time \<Rightarrow> conversation_job \<Rightarrow> conversation_job" where
  "cancel_job reason now j =
     finish_job reason now (j\<lparr>job_state := ConversationCancelled, terminal_reason := reason_description reason,
                               job_updated_at := now\<rparr>)"

definition terminal :: "conversation_job \<Rightarrow> bool" where
  "terminal j \<longleftrightarrow> conversation_terminal (job_state j)"

definition cancel_chatgpt :: "conversation_reason \<Rightarrow> time \<Rightarrow> scheduler \<Rightarrow> scheduler" where
  "cancel_chatgpt reason now s =
     set_jobs (map (\<lambda>j. if terminal j \<or> \<not> chatgpt_conversation s j then j else cancel_job reason now j) (jobs s)) s"

definition expire_lease :: "time \<Rightarrow> scheduler \<Rightarrow> scheduler" where
  "expire_lease now s =
     (case sc_chatgpt s of
        None \<Rightarrow> s
      | Some st \<Rightarrow> if chatgpt_connected st \<and> (\<not> now < lease_until st \<or> \<not> now < expires_at st)
                   then s\<lparr>sc_chatgpt := Some (st\<lparr>chatgpt_connected := False\<rparr>)\<rparr> else s)"

definition expire_grant :: "time \<Rightarrow> scheduler \<Rightarrow> scheduler" where
  "expire_grant now s =
     (case sc_chatgpt s of
        None \<Rightarrow> cancel_chatgpt ReasonHostRestart now s
      | Some st \<Rightarrow> if \<not> chatgpt_enabled st then cancel_chatgpt ReasonGrantRevoked now s
                   else if \<not> now < expires_at st then cancel_chatgpt ReasonGrantExpired now s
                   else s)"

definition overdue :: "time \<Rightarrow> conversation_job \<Rightarrow> bool" where
  "overdue now j \<longleftrightarrow> (case job_deadline j of None \<Rightarrow> False | Some d \<Rightarrow> \<not> terminal j \<and> \<not> now < d)"

definition expire_job :: "(string \<Rightarrow> append_answer) \<Rightarrow> time \<Rightarrow> scheduler \<Rightarrow> nat \<Rightarrow> scheduler" where
  "expire_job io now s i =
     (let j = jobs s ! i
      in if overdue now j
         then let (j, s) = fail_conversation (io (job_id j)) ''hard response deadline expired'' failureLineTimedOut now j s
              in set_jobs ((jobs s)[i := j]) s
         else s)"

definition expire_jobs :: "(string \<Rightarrow> append_answer) \<Rightarrow> time \<Rightarrow> scheduler \<Rightarrow> scheduler" where
  "expire_jobs io now s = foldl (expire_job io now) s [0..<length (jobs s)]"

section \<open>Temporary responders\<close>

definition drop_agent :: "participant \<Rightarrow> core_host \<Rightarrow> core_host" where
  "drop_agent p h =
     h\<lparr>temporary_for := remove_key p (temporary_for h), agents := filter (\<lambda>q. q \<noteq> p) (agents h),
       room := (room h)\<lparr>members := map_option (remove_key p) (members (room h)),
                        session_keys := filter (\<lambda>q. q \<noteq> p) (session_keys (room h))\<rparr>\<rparr>"

definition retired_job :: "participant \<Rightarrow> time \<Rightarrow> conversation_job \<Rightarrow> conversation_job" where
  "retired_job p now j =
     j\<lparr>retired_at := Some now, job_updated_at := now, assigned := (if assigned j = p then '''' else assigned j),
       temporary := False, retire_at := None\<rparr>"

definition retire_temporary :: "time \<Rightarrow> scheduler \<Rightarrow> participant \<times> string \<Rightarrow> scheduler" where
  "retire_temporary now s pc =
     (case conversation (snd pc) s of
        None \<Rightarrow> s
      | Some j \<Rightarrow>
          (case retire_at j of
             None \<Rightarrow> s
           | Some t \<Rightarrow> if now < t \<or> fst pc \<in> set (active_calls (core_state s)) then s
                       else put_job (retired_job (fst pc) now j) (with_core (drop_agent (fst pc)) s)))"

definition retire_temporaries :: "time \<Rightarrow> scheduler \<Rightarrow> scheduler" where
  "retire_temporaries now s = foldl (retire_temporary now) s (temporary_for (core_state s))"

definition provider_has_temporary :: "participant \<Rightarrow> core_host \<Rightarrow> bool" where
  "provider_has_temporary pr h \<longleftrightarrow> list_ex (\<lambda>x. provider (fst x) = pr) (temporary_for h)"

text \<open>\<open>nextTemporaryParticipantLocked\<close> counts up; among one more names than agents one is free.\<close>

definition auxiliary_name :: "participant \<Rightarrow> nat \<Rightarrow> participant" where
  "auxiliary_name pr i = (case auxiliary_participant pr (int i) of Some p \<Rightarrow> p | None \<Rightarrow> '''')"

definition next_temporary :: "participant \<Rightarrow> core_host \<Rightarrow> participant option" where
  "next_temporary pr h =
     map_option (auxiliary_name pr)
       (find (\<lambda>i. auxiliary_name pr i \<notin> set (agents h)) [1..<length (agents h) + 2])"

definition add_temporary :: "participant \<Rightarrow> string \<Rightarrow> core_host \<Rightarrow> core_host" where
  "add_temporary p cid h =
     h\<lparr>agents := p # agents h, temporary_for := put p cid (temporary_for h),
       room := (room h)\<lparr>members := map_option (put p True) (members (room h)),
                        session_keys := (if p \<in> set (session_keys (room h)) then session_keys (room h)
                                         else p # session_keys (room h))\<rparr>\<rparr>"
section \<open>Choosing a responder\<close>

definition window_attempts :: "conversation_job \<Rightarrow> conversation_attempt list" where
  "window_attempts j = filter (\<lambda>a. att_window a = attempt_window j) (job_attempts j)"

definition used_providers :: "conversation_job \<Rightarrow> participant list" where
  "used_providers j = map att_provider (window_attempts j)"

definition for_conversation :: "string \<Rightarrow> eligibility_options" where
  "for_conversation cid = plain_options\<lparr>option_conversation := cid\<rparr>"

definition noted_reason :: "provider_eligibility \<Rightarrow> string \<Rightarrow> string" where
  "noted_reason e reason = (if trim_space (eligibility_reason e) \<noteq> '''' then eligibility_reason e else reason)"

text \<open>The first eligible of a list, and the reason the refused ones leave behind.\<close>

fun pick_eligible :: "core_host \<Rightarrow> conversation_job \<Rightarrow> time \<Rightarrow> participant list \<Rightarrow> string \<Rightarrow> participant option \<times> string" where
  "pick_eligible h j now [] reason = (None, reason)"
| "pick_eligible h j now (p # ps) reason =
     (if provider p \<in> set (used_providers j)
      then pick_eligible h j now ps ''waiting for an alternate eligible provider''
      else let e = provider_eligibility_of h p now (for_conversation (job_id j))
           in if eligible e then (Some p, reason) else pick_eligible h j now ps (noted_reason e reason))"

text \<open>The candidates, in the order they are tried: requested ones; then, but not for ChatGPT, auxiliaries, others, and an idle core.\<close>

definition candidates :: "scheduler \<Rightarrow> conversation_job \<Rightarrow> time \<Rightarrow> participant list" where
  "candidates s j now =
     requested_agents j @
     (if chatgpt_conversation s j then []
      else let h = core_state s; ps = operational_participants h now
           in filter is_auxiliary ps @ filter (\<lambda>p. p \<notin> set (active_present_core h now)) ps @
              (if active_work h = 0 then ps else []))"

text \<open>The loop over the providers of the factory; \<open>created\<close> says which creations succeed.\<close>

fun pick_temporary ::
  "(participant \<Rightarrow> bool) \<Rightarrow> core_host \<Rightarrow> conversation_job \<Rightarrow> time \<Rightarrow> participant list \<Rightarrow> string \<Rightarrow> participant option \<times> string" where
  "pick_temporary created h j now [] reason = (None, reason)"
| "pick_temporary created h j now (pr # ps) reason =
     (if \<not> is_primary_agent pr \<or> pr \<in> set (used_providers j) \<or> provider_has_temporary pr h
      then pick_temporary created h j now ps reason
      else let e = provider_eligibility_of h pr now ((for_conversation (job_id j))\<lparr>temporary_runtime := True\<rparr>)
           in if \<not> eligible e then pick_temporary created h j now ps (noted_reason e reason)
              else case next_temporary pr h of
                     None \<Rightarrow> pick_temporary created h j now ps reason
                   | Some p \<Rightarrow> if created p then (Some p, '''') else pick_temporary created h j now ps reason)"

record choice =
  responder :: "participant option"
  is_temporary :: bool
  wait_text :: string

definition reserved_for :: "core_host \<Rightarrow> participant \<Rightarrow> string \<Rightarrow> bool" where
  "reserved_for h p cid \<longleftrightarrow> map_of (temporary_for h) p = Some cid"

definition select_responder ::
  "(participant \<Rightarrow> bool) \<Rightarrow> time \<Rightarrow> conversation_job \<Rightarrow> scheduler \<Rightarrow> choice \<times> scheduler" where
  "select_responder created now j s =
     (let h = core_state s;
          (found, reason) = pick_eligible h j now (candidates s j now) ''no eligible provider is currently available''
      in case found of
           Some p \<Rightarrow> (\<lparr>responder = Some p, is_temporary = reserved_for h p (job_id j), wait_text = ''''\<rparr>, s)
         | None \<Rightarrow>
             if chatgpt_conversation s j \<or> temporary_factory s = None \<or> temporary_limit s \<le> 0
                \<or> int (length (temporary_for h)) \<ge> temporary_limit s
             then (\<lparr>responder = None, is_temporary = False, wait_text = reason\<rparr>, s)
             else case pick_temporary created h j now (the (temporary_factory s)) reason of
                    (Some p, _) \<Rightarrow> (\<lparr>responder = Some p, is_temporary = True, wait_text = ''''\<rparr>,
                                    with_core (add_temporary p (job_id j)) s)
                  | (None, reason) \<Rightarrow> (\<lparr>responder = None, is_temporary = False, wait_text = reason\<rparr>, s))"

section \<open>The pass\<close>

record launch =
  launch_id :: string
  launch_participant :: participant
  launch_attempt :: nat
  launch_temporary :: bool

definition schedulable :: "scheduler \<Rightarrow> conversation_job \<Rightarrow> bool" where
  "schedulable s j \<longleftrightarrow>
     \<not> (terminal j \<or> job_state j = ConversationAnswering \<or> job_state j = ConversationRetrying
        \<or> job_id j \<in> set (sc_posting s))"

definition waiting_job :: "nat \<Rightarrow> string \<Rightarrow> time \<Rightarrow> conversation_job \<Rightarrow> conversation_job" where
  "waiting_job n reason now j =
     (if job_state j \<noteq> ConversationWaiting \<or> queue_position j \<noteq> int n \<or> job_wait_reason j \<noteq> reason
      then j\<lparr>job_state := ConversationWaiting, queue_position := int n, job_wait_reason := reason, job_updated_at := now\<rparr>
      else j)"

definition start_clock :: "time \<Rightarrow> conversation_job \<Rightarrow> conversation_job" where
  "start_clock now j =
     (if job_started_at j = None
      then j\<lparr>job_started_at := Some now, job_deadline := Some (now + total_budget (job_class j))\<rparr> else j)"

text \<open>A started job always has its deadline: the code sets both together.\<close>

definition attempt_end :: "time \<Rightarrow> conversation_job \<Rightarrow> time" where
  "attempt_end now j =
     now + (let remaining = time_sub (case job_deadline j of Some d \<Rightarrow> d | None \<Rightarrow> now) now
            in if remaining < attempt_budget (job_class j) then remaining else attempt_budget (job_class j))"

definition new_attempt :: "time \<Rightarrow> participant \<Rightarrow> conversation_job \<Rightarrow> conversation_attempt" where
  "new_attempt now p j =
     \<lparr>att_turn_id = '''', att_participant = p, att_provider = provider p, att_started_at = now,
      att_deadline = attempt_end now j, att_completed_at = None, att_error = '''', att_window = attempt_window j\<rparr>"

definition assign_job :: "time \<Rightarrow> participant \<Rightarrow> bool \<Rightarrow> conversation_job \<Rightarrow> conversation_job" where
  "assign_job now p temp j =
     (let j = start_clock now j;
          j = j\<lparr>job_attempts := job_attempts j @ [new_attempt now p j], assigned := p, temporary := temp,
                retire_at := None, retired_at := None, queue_position := 0, job_wait_reason := ''''\<rparr>
      in j\<lparr>job_state := (if length (window_attempts j) = 1 then ConversationAnswering else ConversationRetrying),
           job_updated_at := now\<rparr>)"

text \<open>The test \<open>participant.ValidAgent()\<close> of the pass.\<close>

definition chosen :: "choice \<Rightarrow> participant option" where
  "chosen c = (case responder c of None \<Rightarrow> None | Some p \<Rightarrow> if valid_agent p then Some p else None)"

definition schedule_job ::
  "(participant \<Rightarrow> bool) \<Rightarrow> time \<Rightarrow> nat \<times> launch list \<times> scheduler \<Rightarrow> nat \<Rightarrow> nat \<times> launch list \<times> scheduler" where
  "schedule_job created now acc i =
     (let (n, ls, s) = acc; j = jobs s ! i
      in if \<not> schedulable s j then acc
         else let (c, s) = select_responder created now j s
              in case chosen c of
                   None \<Rightarrow> (n + 1, ls, set_jobs ((jobs s)[i := waiting_job (n + 1) (wait_text c) now j]) s)
                 | Some p \<Rightarrow>
                     let j = assign_job now p (is_temporary c) j
                     in (n, ls @ [\<lparr>launch_id = job_id j, launch_participant = p,
                                   launch_attempt = length (job_attempts j) - 1, launch_temporary = is_temporary c\<rparr>],
                         set_jobs ((jobs s)[i := j]) s))"

definition assign_jobs :: "(participant \<Rightarrow> bool) \<Rightarrow> time \<Rightarrow> scheduler \<Rightarrow> launch list \<times> scheduler" where
  "assign_jobs created now s = snd (foldl (schedule_job created now) (0, [], s) [0..<length (jobs s)])"

record pass_io =
  pass_now :: time
  pass_append :: "string \<Rightarrow> append_answer"
  pass_created :: "participant \<Rightarrow> bool"

definition schedule_conversations :: "pass_io \<Rightarrow> scheduler \<Rightarrow> launch list \<times> scheduler" where
  "schedule_conversations io s =
     (if sc_closed s \<or> \<not> sc_routing s then ([], s)
      else let now = pass_now io
           in assign_jobs (pass_created io) now
                (retire_temporaries now (expire_jobs (pass_append io) now (expire_grant now (expire_lease now s)))))"

end
