(* ===== verification/Conversation_Attempts.thy ===== *)
theory Conversation_Attempts
  imports Conversation_Scheduler
begin

text \<open>
  The life of a conversation around the scheduler (\<^verbatim>\<open>internal/room/conversations.go\<close>): a launched
  attempt begins, its provider runs, and its result is recorded; the human starts, cancels,
  retries, extends, dismisses, follows up and routes conversations.  Each critical section is one
  step; between two of them anything else may happen, also when one operation has two (a save that
  fails after the lock was released).  What the provider returns and what the store answers are
  arguments.
\<close>

section \<open>A launched attempt begins\<close>

datatype begin_answer = Abandoned | Withdrawn | NoTurn | Running string nat string bool

definition grant_over :: "time \<Rightarrow> scheduler \<Rightarrow> bool" where
  "grant_over now s \<longleftrightarrow>
     (case sc_chatgpt s of None \<Rightarrow> True | Some st \<Rightarrow> \<not> chatgpt_enabled st \<or> \<not> now < expires_at st)"

definition conversation_source :: "conversation_job \<Rightarrow> scheduler \<Rightarrow> nat \<times> string" where
  "conversation_source j s =
     (case find (\<lambda>m. sequence m = job_source_sequence j \<and> (author m = User \<or> author m = ChatGPT)) (sc_messages s) of
        Some m \<Rightarrow> (sequence m, trim_space (msg_text m))
      | None \<Rightarrow> (job_source_sequence j, ''''))"

definition drop_open_attempt :: "nat \<Rightarrow> conversation_job \<Rightarrow> conversation_job" where
  "drop_open_attempt i j =
     (let as = job_attempts j
      in if Suc i = length as \<and> att_completed_at (as ! i) = None then j\<lparr>job_attempts := take i as\<rparr> else j)"

definition withdraw_job :: "nat \<Rightarrow> bool \<Rightarrow> string \<Rightarrow> time \<Rightarrow> conversation_job \<Rightarrow> conversation_job" where
  "withdraw_job i temp reason now j =
     (let j = (drop_open_attempt i j)\<lparr>job_state := ConversationWaiting, assigned := '''', queue_position := 0,
                job_wait_reason := reason, job_updated_at := now\<rparr>
      in if temp then j\<lparr>retire_at := Some now\<rparr> else j)"
definition change_attempt :: "nat \<Rightarrow> (conversation_attempt \<Rightarrow> conversation_attempt) \<Rightarrow> conversation_job \<Rightarrow> conversation_job" where
  "change_attempt i f j = j\<lparr>job_attempts := (job_attempts j)[i := f (job_attempts j ! i)]\<rparr>"

definition start_turn :: "launch \<Rightarrow> string \<Rightarrow> scheduler \<Rightarrow> scheduler" where
  "start_turn l t s =
     (with_core (\<lambda>h. h\<lparr>active_calls := launch_participant l # active_calls h\<rparr>) s)
       \<lparr>sc_turns := put (launch_participant l) \<lparr>turn_key = t, turn_conversation = launch_id l\<rparr> (sc_turns s)\<rparr>"

text \<open>
  \<open>turn\<close> is the answer of \<open>NewID\<close>.  The gate of the participant lets one conversation turn of it
  run at a time, so the step is taken only when the participant has none.
\<close>

definition begin_attempt :: "string option \<Rightarrow> time \<Rightarrow> launch \<Rightarrow> scheduler \<Rightarrow> begin_answer \<times> scheduler" where
  "begin_attempt turn now l s =
     (case conversation (launch_id l) s of
        None \<Rightarrow> (Abandoned, s)
      | Some j \<Rightarrow>
          let p = launch_participant l; i = launch_attempt l
          in if p \<notin> set (agents (core_state s)) \<or> i \<ge> length (job_attempts j) \<or> sc_closed s \<or> terminal j
                \<or> assigned j \<noteq> p \<or> (chatgpt_conversation s j \<and> grant_over now s)
             then (Abandoned, s)
             else let e = provider_eligibility_of (core_state s) p now (for_conversation (launch_id l))
                  in if \<not> eligible e
                     then (Withdrawn, put_job (withdraw_job i (launch_temporary l) (eligibility_reason e) now j) s)
                     else case turn of
                            None \<Rightarrow> (NoTurn, s)
                          | Some t \<Rightarrow>
                              let (n, text) = conversation_source j s
                              in (Running t n text (chatgpt_conversation s j),
                                  start_turn l t (put_job (change_attempt i (\<lambda>a. a\<lparr>att_turn_id := t\<rparr>) j) s)))"

section \<open>An attempt ends\<close>

datatype failure_kind = Cancelled | DeadlineExceeded | QueueOverflow | EffortError | ProviderError

text \<open>
  What the provider run returned: its error and the error of the attempt's context; a result with
  text, a request for access (its mode) or for work; the correction events the result amounts to,
  whether its turn may read the host, and whether drafts were captured.
\<close>

record turn_result =
  run_error :: "(failure_kind \<times> string) option"
  context_error :: "failure_kind option"
  result_text :: string
  requires_work :: bool
  access_mode :: "string option"
  result_events :: "correction_event list"
  host_scope :: bool
  has_drafts :: bool

definition answer_message :: "time \<Rightarrow> launch \<Rightarrow> string \<Rightarrow> turn_result \<Rightarrow> conversation_job \<Rightarrow> scheduler \<Rightarrow> message" where
  "answer_message now l t res j s =
     (let m = empty_message\<lparr>sequence := sc_next s, turn_id := t, author := launch_participant l, kind := MessageText,
                conversation_id := launch_id l, msg_text := trim_space (result_text res), created_at := now\<rparr>
      in if chatgpt_conversation s j then m\<lparr>reply_to := job_source_sequence j, target := ChatGPT\<rparr> else m\<lparr>correction_events := result_events res\<rparr>)"

definition temporaryGracePeriod :: duration where "temporaryGracePeriod = 5 * minute"

definition answered_job :: "time \<Rightarrow> launch \<Rightarrow> nat \<Rightarrow> conversation_job \<Rightarrow> conversation_job" where
  "answered_job now l n j =
     (let j = (finish_job (OtherReason '''') now (j\<lparr>job_state := ConversationAnswered\<rparr>))
            \<lparr>answer_sequence := n, unread := False, terminal_reason := '''', action_state := ActionNone,
             failure_sequence := 0, assigned := launch_participant l, last_activity_at := now\<rparr>
      in if temporary j then j\<lparr>retire_at := Some (now + temporaryGracePeriod)\<rparr> else j)"

definition set_attempt_error :: "nat \<Rightarrow> string \<Rightarrow> conversation_job \<Rightarrow> conversation_job" where
  "set_attempt_error i e = change_attempt i (\<lambda>a. a\<lparr>att_error := e\<rparr>)"

definition end_answered :: "append_answer \<Rightarrow> append_answer \<Rightarrow> time \<Rightarrow> launch \<Rightarrow> string \<Rightarrow> turn_result \<Rightarrow>
    conversation_job \<Rightarrow> scheduler \<Rightarrow> conversation_job \<times> scheduler" where
  "end_answered io fio now l t res j s =
     (case post io (answer_message now l t res j s) s of
        (Some m, s) \<Rightarrow> (answered_job now l (sequence m) j, s)
      | (None, s) \<Rightarrow>
          let e = ''could not persist responder answer: '' @ (case io of Inl e \<Rightarrow> e | Inr _ \<Rightarrow> '''')
          in fail_conversation fio e failureLineNotSaved now (set_attempt_error (launch_attempt l) e j) s)"

definition dismissed_to_work :: "time \<Rightarrow> conversation_job \<Rightarrow> conversation_job" where
  "dismissed_to_work now j =
     retire_now now (j\<lparr>job_state := ConversationDismissed, action_state := ActionNone, unread := False,
                       terminal_reason := requiresWorkSentinel, assigned := ''''\<rparr>)"

definition route_source :: "time \<Rightarrow> nat \<Rightarrow> scheduler \<Rightarrow> scheduler" where
  "route_source now n s =
     s\<lparr>sc_routes := (if n \<in> set (sc_routes s) then sc_routes s else sc_routes s @ [n]),
       sc_resolutions := (sc_resolutions s)(n \<mapsto> \<lparr>res_source = n, res_intent = ''ambiguous'', res_at = now\<rparr>)\<rparr>"

definition end_requires_work :: "append_answer \<Rightarrow> time \<Rightarrow> conversation_job \<Rightarrow> scheduler \<Rightarrow> conversation_job \<times> scheduler" where
  "end_requires_work fio now j s =
     (if chatgpt_conversation s j
      then fail_conversation fio ''external peer discussion cannot authorize work'' failureLineNeedsAccess now j s
      else (dismissed_to_work now j, route_source now (job_source_sequence j) s))"

definition end_needs_access :: "append_answer \<Rightarrow> time \<Rightarrow> launch \<Rightarrow> turn_result \<Rightarrow> conversation_job \<Rightarrow> scheduler \<Rightarrow>
    conversation_job \<times> scheduler" where
  "end_needs_access fio now l res j s =
     (let e = ''conversation responder requested additional access'';
          (j, s) = fail_conversation fio e failureLineNeedsAccess now (set_attempt_error (launch_attempt l) e j) s
      in (if access_mode res = Some ''read_write'' then j\<lparr>reason_code := ReasonWriteDenied\<rparr>
          else if host_scope res then j\<lparr>reason_code := ReasonInvalidAccess\<rparr> else j, s))"

definition attempt_error_text :: "turn_result \<Rightarrow> string" where
  "attempt_error_text res =
     (case run_error res of
        Some e \<Rightarrow> snd e
      | None \<Rightarrow> if context_error res \<noteq> None then ''hard response deadline expired''
                else ''responder returned no public answer'')"

text \<open>Only a confirmed provider error is worth one more provider.\<close>

definition worth_alternate :: "time \<Rightarrow> turn_result \<Rightarrow> conversation_job \<Rightarrow> scheduler \<Rightarrow> bool" where
  "worth_alternate now res j s \<longleftrightarrow>
     \<not> chatgpt_conversation s j \<and>
     (case run_error res of None \<Rightarrow> False | Some e \<Rightarrow> fst e \<notin> {Cancelled, DeadlineExceeded, QueueOverflow}) \<and>
     context_error res = None \<and> length (window_attempts j) < 2 \<and>
     (case job_deadline j of None \<Rightarrow> False | Some d \<Rightarrow> now < d)"

definition failed_line :: "turn_result \<Rightarrow> string" where
  "failed_line res =
     (if context_error res = Some DeadlineExceeded \<or> map_option fst (run_error res) = Some DeadlineExceeded
      then failureLineTimedOut
      else if run_error res = None then failureLineNoAnswer else failureLineFailed)"

definition refine_code :: "turn_result \<Rightarrow> conversation_job \<Rightarrow> conversation_job" where
  "refine_code res j =
     (case run_error res of
        None \<Rightarrow> j
      | Some e \<Rightarrow> if fst e = QueueOverflow then j\<lparr>reason_code := ReasonEventQueueOverflow\<rparr>
                  else if fst e = EffortError then j\<lparr>reason_code := ReasonEffortUnsupported\<rparr> else j)"

definition end_failed :: "append_answer \<Rightarrow> time \<Rightarrow> launch \<Rightarrow> turn_result \<Rightarrow> conversation_job \<Rightarrow> scheduler \<Rightarrow>
    conversation_job \<times> scheduler" where
  "end_failed fio now l res j s =
     (let e = attempt_error_text res; j = set_attempt_error (launch_attempt l) e j
      in if worth_alternate now res j s
         then let j = j\<lparr>job_state := ConversationFinding, action_state := ActionNone, assigned := '''', temporary := False\<rparr>
              in (if launch_temporary l then j\<lparr>retire_at := Some now\<rparr> else j, s)
         else let (j, s) = fail_conversation fio e (failed_line res) now j s in (refine_code res j, s))"

definition end_attempt :: "append_answer \<Rightarrow> append_answer \<Rightarrow> time \<Rightarrow> launch \<Rightarrow> string \<Rightarrow> turn_result \<Rightarrow>
    conversation_job \<Rightarrow> scheduler \<Rightarrow> conversation_job \<times> scheduler" where
  "end_attempt io fio now l t res j s =
     (if terminal j then (retire_now now (j\<lparr>job_updated_at := now\<rparr>), s)
      else if run_error res = None \<and> context_error res = None \<and> trim_space (result_text res) \<noteq> ''''
              \<and> \<not> requires_work res \<and> access_mode res = None
      then end_answered io fio now l t res j s
      else if requires_work res then end_requires_work fio now j s
      else if access_mode res \<noteq> None then end_needs_access fio now l res j s
      else end_failed fio now l res j s)"

definition drop_turn :: "launch \<Rightarrow> scheduler \<Rightarrow> scheduler" where
  "drop_turn l s =
     (case map_of (sc_turns s) (launch_participant l) of
        None \<Rightarrow> s
      | Some t \<Rightarrow> if turn_conversation t = launch_id l
                  then (with_core (\<lambda>h. h\<lparr>active_calls := remove1 (launch_participant l) (active_calls h)\<rparr>) s)
                         \<lparr>sc_turns := remove_key (launch_participant l) (sc_turns s)\<rparr>
                  else s)"

definition settle_result :: "time \<Rightarrow> turn_result \<Rightarrow> conversation_job \<Rightarrow> conversation_job" where
  "settle_result now res j =
     (let j = j\<lparr>queue_position := 0, job_updated_at := now\<rparr>
      in if terminal j \<and> job_state j \<noteq> ConversationAnswered
         then j\<lparr>has_partial_response := has_drafts res \<or> trim_space (result_text res) \<noteq> ''''\<rparr> else j)"

definition finish_attempt ::
  "append_answer \<Rightarrow> append_answer \<Rightarrow> time \<Rightarrow> launch \<Rightarrow> string \<Rightarrow> turn_result \<Rightarrow> scheduler \<Rightarrow> scheduler" where
  "finish_attempt io fio now l t res s =
     (let s = drop_turn l s
      in case conversation (launch_id l) s of
           None \<Rightarrow> s
         | Some j \<Rightarrow>
             if launch_attempt l \<ge> length (job_attempts j) then s
             else let j = change_attempt (launch_attempt l) (\<lambda>a. a\<lparr>att_completed_at := Some now\<rparr>) j;
                      (j, s) = end_attempt io fio now l t res j s
                  in put_job (settle_result now res j) s)"

text \<open>The second critical section, when the room could not be saved.\<close>

definition result_unsaved :: "append_answer \<Rightarrow> string \<Rightarrow> time \<Rightarrow> string \<Rightarrow> scheduler \<Rightarrow> scheduler" where
  "result_unsaved fio e now cid s =
     (case conversation cid s of
        None \<Rightarrow> s
      | Some j \<Rightarrow> if job_state j \<noteq> ConversationFailed
                  then let (j, s) = fail_conversation fio (''could not persist conversation result: '' @ e)
                                      failureLineNotDurable now j s
                       in put_job j s
                  else s)"
end
