(* ===== verification/Conversation_Actions.thy ===== *)
theory Conversation_Actions
  imports Conversation_Attempts
begin

text \<open>
  What the human and the website do to conversations (\<^verbatim>\<open>internal/room/conversations.go\<close>, the
  participation of \<^verbatim>\<open>internal/room/chatgpt.go\<close>).  An operation answers its error or \<open>None\<close>, and its
  state; saving the room follows the critical section and changes nothing here, except where the
  code has a second section for the save that failed.  The class \<open>ClassifyInput\<close> gives a text, the
  room's modes and the identifiers of \<open>NewID\<close> are arguments.
\<close>

type_synonym action = "scheduler \<Rightarrow> string option \<times> scheduler"

abbreviation refused :: "string \<Rightarrow> action" where
  "refused e s \<equiv> (Some e, s)"

definition not_found :: "string \<Rightarrow> string" where
  "not_found cid = ''conversation '' @ cid @ '' not found''"

text \<open>What most operations share: look the job up, check it, replace it.\<close>

definition on_job :: "string \<Rightarrow> (conversation_job \<Rightarrow> string + conversation_job) \<Rightarrow> action" where
  "on_job cid f s =
     (case conversation cid s of
        None \<Rightarrow> (Some (not_found cid), s)
      | Some j \<Rightarrow> (case f j of Inl e \<Rightarrow> (Some e, s) | Inr k \<Rightarrow> (None, put_job k s)))"

text \<open>The same for an operation that also drops the pending route of the source.\<close>

definition on_routed_job :: "string \<Rightarrow> (conversation_job \<Rightarrow> string + conversation_job) \<Rightarrow> action" where
  "on_routed_job cid f s =
     (case conversation cid s of
        None \<Rightarrow> (Some (not_found cid), s)
      | Some j \<Rightarrow> (case f j of Inl e \<Rightarrow> (Some e, s)
                            | Inr k \<Rightarrow> (None, drop_routes (job_source_sequence j) (put_job k s))))"

section \<open>Starting\<close>

definition routed_message :: "time \<Rightarrow> participant \<Rightarrow> string \<Rightarrow> route_metadata option \<Rightarrow> string \<Rightarrow> string \<Rightarrow> string \<Rightarrow>
    scheduler \<Rightarrow> message" where
  "routed_message now to text via intent cid wid s =
     empty_message\<lparr>sequence := sc_next s, author := User, target := to, kind := MessageText, workflow_id := wid,
       input_intent := intent, conversation_id := cid, msg_text := trim_space text, route := via, created_at := now\<rparr>"

definition InputConversation :: string where "InputConversation = ''conversation''"

definition valid_mode :: "string \<Rightarrow> bool" where
  "valid_mode m \<longleftrightarrow> m = ''execute'' \<or> m = ''plan''"

definition mode_or_default :: "string \<Rightarrow> string" where
  "mode_or_default m = (if valid_mode m then m else ''execute'')"

definition started_job :: "string \<Rightarrow> nat \<Rightarrow> conversation_class \<Rightarrow> string \<Rightarrow> participant list \<Rightarrow> string \<Rightarrow> time \<Rightarrow> conversation_job" where
  "started_job cid n cl mode who remote now =
     empty_job\<lparr>job_id := cid, job_source_sequence := n, job_state := ConversationFinding, job_class := cl,
       workflow_mode := mode, requested_agents := who, job_created_at := now, job_updated_at := now,
       job_started_at := Some now, job_deadline := Some (now + total_budget cl), last_activity_at := now,
       remote_message_id := remote\<rparr>"

definition add_job :: "conversation_job \<Rightarrow> scheduler \<Rightarrow> scheduler" where
  "add_job j s = set_jobs (jobs s @ [j]) s"

text \<open>\<open>new_id\<close> is the error of \<open>NewID\<close> or the identifier; \<open>io\<close> is the answer of the transcript.\<close>

definition start_conversation :: "string \<Rightarrow> bool \<Rightarrow> route_metadata option \<Rightarrow> participant list \<Rightarrow> conversation_class \<Rightarrow>
    string \<Rightarrow> string + string \<Rightarrow> append_answer \<Rightarrow> time \<Rightarrow> action" where
  "start_conversation text attached via who cl mode new_id io now s =
     (if trim_space text = '''' \<and> \<not> attached then (Some ''message is empty'', s)
      else case new_id of Inl e \<Rightarrow> (Some e, s)
      | Inr cid \<Rightarrow>
          if sc_closed s then (Some ''room is closed'', s)
          else case post io (routed_message now '''' text via InputConversation cid '''' s) s of
                 (None, s) \<Rightarrow> (Some (case io of Inl e \<Rightarrow> e | Inr _ \<Rightarrow> ''''), s)
               | (Some m, s) \<Rightarrow>
                   (None, add_job (started_job cid (sequence m) cl (mode_or_default mode) who
                                     (case via of None \<Rightarrow> '''' | Some r \<Rightarrow> route_message_id r) now) s))"

text \<open>The second section, when the room with the new conversation could not be saved.\<close>

definition start_unsaved :: "append_answer \<Rightarrow> string \<Rightarrow> time \<Rightarrow> string \<Rightarrow> scheduler \<Rightarrow> scheduler" where
  "start_unsaved fio e now cid s =
     (case conversation cid s of
        None \<Rightarrow> s
      | Some j \<Rightarrow> let (j, s) = fail_conversation fio (''could not persist conversation start: '' @ e)
                                failureLineNotStarted now j s
                  in put_job j s)"

definition persist_pending_route :: "string \<Rightarrow> route_metadata option \<Rightarrow> participant \<Rightarrow> string \<Rightarrow> string + string \<Rightarrow>
    append_answer \<Rightarrow> time \<Rightarrow> action" where
  "persist_pending_route text via to intent new_id io now s =
     (case new_id of Inl e \<Rightarrow> (Some e, s)
      | Inr cid \<Rightarrow>
          if sc_closed s then (Some ''room is closed'', s)
          else case post io (routed_message now to text via intent cid '''' s) s of
                 (None, s) \<Rightarrow> (Some (case io of Inl e \<Rightarrow> e | Inr _ \<Rightarrow> ''''), s)
               | (Some m, s) \<Rightarrow> (None, s\<lparr>sc_routes := sc_routes s @ [sequence m]\<rparr>))"

section \<open>Cancelling, retrying, extending\<close>

definition cancelled_job :: "time \<Rightarrow> conversation_job \<Rightarrow> conversation_job" where
  "cancelled_job now j =
     retire_now now ((finish_job ReasonHostStop now (j\<lparr>job_state := ConversationCancelled, action_state := ActionNone,
         terminal_reason := ''cancelled by the human''\<rparr>))\<lparr>unread := False, job_updated_at := now\<rparr>)"

definition cancel_conversation :: "time \<Rightarrow> string \<Rightarrow> action" where
  "cancel_conversation now cid =
     on_routed_job cid (\<lambda>j. if derived_inbox_category j \<noteq> InboxWorking then Inl ''conversation is not active''
                            else Inr (cancelled_job now j))"

text \<open>What the operations that open a conversation again have in common.\<close>

definition reopened :: "time \<Rightarrow> conversation_job \<Rightarrow> conversation_job" where
  "reopened now j =
     j\<lparr>job_state := ConversationFinding, attempt_window := attempt_window j + 1, job_started_at := Some now,
       job_deadline := Some (now + total_budget (job_class j)), retire_at := None, terminal_reason := '''',
       action_state := ActionNone, failure_sequence := 0, job_wait_reason := '''', job_updated_at := now\<rparr>"

definition forget_failure :: "conversation_job \<Rightarrow> conversation_job" where
  "forget_failure j =
     j\<lparr>assigned := '''', reason_code := OtherReason '''', completed_at := None, has_partial_response := False\<rparr>"

definition retry_conversation :: "time \<Rightarrow> string \<Rightarrow> action" where
  "retry_conversation now cid =
     on_routed_job cid (\<lambda>j. if job_state j \<noteq> ConversationFailed then Inl ''conversation is not failed''
                            else Inr (forget_failure (reopened now j)))"

definition keep_waiting :: "time \<Rightarrow> string \<Rightarrow> action" where
  "keep_waiting now cid =
     on_job cid (\<lambda>j.
       if job_state j \<noteq> ConversationFailed then Inl ''conversation is not waiting for direction''
       else if job_deadline j = None \<or> now < the (job_deadline j)
       then Inl ''keep waiting is available only after the hard class deadline''
       else if extension_count j \<ge> 1 then Inl ''this conversation already received its one explicit deadline extension''
       else Inr ((forget_failure (reopened now j))\<lparr>extension_count := extension_count j + 1\<rparr>))"

section \<open>Dismissing\<close>

definition decided :: "conversation_job \<Rightarrow> conversation_job" where
  "decided j = j\<lparr>job_state := ConversationDismissed, action_state := ActionNone, unread := False\<rparr>"

definition dismiss_conversation :: "time \<Rightarrow> string \<Rightarrow> action" where
  "dismiss_conversation now cid s =
     (case conversation cid s of
        None \<Rightarrow> (Some (not_found cid), s)
      | Some j \<Rightarrow>
          (case derived_inbox_category j of
             InboxNewAnswer \<Rightarrow> (None, put_job (j\<lparr>unread := False, job_updated_at := now\<rparr>) s)
           | InboxActionNeeded \<Rightarrow>
               (None, drop_routes (job_source_sequence j) (put_job ((decided j)\<lparr>job_updated_at := now\<rparr>) s))
           | _ \<Rightarrow> (Some ''conversation cannot be dismissed'', s)))"

definition dismissed_job :: "time \<Rightarrow> conversation_job \<Rightarrow> conversation_job" where
  "dismissed_job now j =
     (case derived_inbox_category j of
        InboxNewAnswer \<Rightarrow> j\<lparr>unread := False, job_updated_at := now\<rparr>
      | InboxActionNeeded \<Rightarrow> (decided j)\<lparr>job_updated_at := now\<rparr>
      | _ \<Rightarrow> j)"

definition dismiss_all :: "time \<Rightarrow> scheduler \<Rightarrow> scheduler" where
  "dismiss_all now s =
     set_jobs (map (dismissed_job now) (jobs s))
       (s\<lparr>sc_routes := filter (\<lambda>n. \<not> list_ex (\<lambda>j. derived_inbox_category j = InboxActionNeeded
                                             \<and> job_source_sequence j = n) (jobs s)) (sc_routes s)\<rparr>)"


section \<open>Routing a pending input\<close>

definition resolved_job :: "time \<Rightarrow> conversation_class \<Rightarrow> string \<Rightarrow> message \<Rightarrow> conversation_job \<Rightarrow> conversation_job" where
  "resolved_job now cl mode m j =
     j\<lparr>job_source_sequence := sequence m, job_state := ConversationFinding, job_class := cl, workflow_mode := mode,
       assigned := '''', temporary := False, queue_position := 0, answer_sequence := 0, unread := False,
       promoted_sequence := 0, job_started_at := Some now, job_deadline := Some (now + total_budget cl),
       retire_at := None, retired_at := None, terminal_reason := '''', action_state := ActionNone,
       failure_sequence := 0, job_wait_reason := '''', job_updated_at := now, last_activity_at := now,
       requested_agents := (if requested_agents j = [] \<and> valid_agent (target m) then [target m] else requested_agents j),
       remote_message_id := (case route m of None \<Rightarrow> remote_message_id j | Some r \<Rightarrow> route_message_id r)\<rparr>"

definition routed_source :: "nat \<Rightarrow> scheduler \<Rightarrow> message option" where
  "routed_source n s = find (\<lambda>m. sequence m = n \<and> author m = User) (sc_messages s)"

text \<open>The job that already has the conversation of the source is continued.\<close>

definition resolve_conversation :: "time \<Rightarrow> conversation_class \<Rightarrow> string \<Rightarrow> message \<Rightarrow> scheduler \<Rightarrow> scheduler" where
  "resolve_conversation now cl mode m s =
     (case conversation (conversation_id m) s of
        None \<Rightarrow> add_job (resolved_job now cl mode m (empty_job\<lparr>job_id := conversation_id m, job_created_at := now\<rparr>)) s
      | Some j \<Rightarrow> put_job (resolved_job now cl mode m (j\<lparr>attempt_window := attempt_window j + 1\<rparr>)) s)"

text \<open>\<open>ResolveInput\<close> with the choice of a conversation; the choice of Work starts a workflow.\<close>

definition resolve_input :: "time \<Rightarrow> nat \<Rightarrow> conversation_class \<Rightarrow> string \<Rightarrow> action" where
  "resolve_input now n cl mode s =
     (if n \<notin> set (sc_routes s) then (Some ''message is not waiting for routing'', s)
      else case routed_source n s of
             None \<Rightarrow> (Some ''message was not found'', s)
           | Some m \<Rightarrow>
               if sequence m = 0 then (Some ''message was not found'', s)
               else let s = resolve_conversation now cl (mode_or_default mode) m (drop_routes n s)
                    in (None, s\<lparr>sc_resolutions := (sc_resolutions s)
                          (n \<mapsto> \<lparr>res_source = n, res_intent = InputConversation, res_at = now\<rparr>)\<rparr>))"

definition cancel_pending_route :: "nat \<Rightarrow> action" where
  "cancel_pending_route n s =
     (if n \<notin> set (sc_routes s) then (Some ''message is not waiting for routing'', s) else (None, drop_routes n s))"

section \<open>Promotion and follow-ups\<close>

text \<open>The check of \<open>PromoteConversation\<close>, and its last section with the message the work request made.\<close>

definition promotable :: "string \<Rightarrow> scheduler \<Rightarrow> string option" where
  "promotable cid s =
     (case conversation cid s of
        None \<Rightarrow> Some (not_found cid)
      | Some j \<Rightarrow>
          if chatgpt_conversation s j
          then Some ''an external AI contribution cannot be promoted to human-authorized work; submit your own work request''
          else if (case find (\<lambda>m. sequence m = job_source_sequence j) (sc_messages s) of
                     None \<Rightarrow> True | Some m \<Rightarrow> sequence m = 0)
          then Some ''conversation source message was not found''
          else if derived_inbox_category j \<noteq> InboxActionNeeded
          then Some ''conversation does not require a work decision'' else None)"

definition promoted_to_work :: "nat \<Rightarrow> time \<Rightarrow> string \<Rightarrow> scheduler \<Rightarrow> scheduler" where
  "promoted_to_work n now cid s =
     (case conversation cid s of
        None \<Rightarrow> s
      | Some j \<Rightarrow> drop_routes (job_source_sequence j)
                    (put_job ((decided j)\<lparr>promoted_sequence := n, job_updated_at := now\<rparr>) s))"

definition followed_up :: "time \<Rightarrow> nat \<Rightarrow> conversation_job \<Rightarrow> conversation_job" where
  "followed_up now n j =
     (reopened now j)\<lparr>job_source_sequence := n, unread := False, answer_sequence := 0, last_activity_at := now\<rparr>"

definition follow_up_conversation :: "append_answer \<Rightarrow> time \<Rightarrow> string \<Rightarrow> string \<Rightarrow> action" where
  "follow_up_conversation io now cid text s =
     (if trim_space text = '''' then (Some ''follow-up text is required'', s)
      else case conversation cid s of
             None \<Rightarrow> (Some (not_found cid), s)
           | Some j \<Rightarrow>
               (case post io (conversation_message now User MessageText cid text s) s of
                  (None, s) \<Rightarrow> (Some (case io of Inl e \<Rightarrow> e | Inr _ \<Rightarrow> ''''), s)
                | (Some m, s) \<Rightarrow>
                    (None, put_job (followed_up now (sequence m) j) (drop_routes (job_source_sequence j) s))))"

section \<open>Participation of the website\<close>

definition coord_of :: "scheduler \<Rightarrow> coord_room" where
  "coord_of s =
     \<lparr>room_follow_ups = sc_follow_ups s, room_chatgpt = sc_chatgpt s, room_run = sc_run s,
      room_messages = sc_messages s, room_jobs = jobs s, room_workflows = sc_workflows s,
      room_activities = sc_activities s, pending_posts = sc_posting s, room_next = sc_next s\<rparr>"

definition cancel_reviews :: "string \<Rightarrow> scheduler \<Rightarrow> scheduler" where
  "cancel_reviews reason s =
     s\<lparr>sc_run := map_option (\<lambda>r. snd (cancel_continuations reason (coord_of s) r)) (sc_run s)\<rparr>"

definition merged_state :: "chatgpt_state \<Rightarrow> scheduler \<Rightarrow> chatgpt_state" where
  "merged_state st s =
     (let st = (case sc_chatgpt s of
                  None \<Rightarrow> st
                | Some p \<Rightarrow> if chatgpt_enabled p \<and> chatgpt_enabled st then st\<lparr>chatgpt_paused := chatgpt_paused p\<rparr> else st)
      in case sc_follow_ups s of
           None \<Rightarrow> st
         | Some f \<Rightarrow> if chatgpt_enabled st \<and> host_paused f then st\<lparr>chatgpt_paused := True\<rparr> else st)"

definition update_chatgpt_state :: "chatgpt_state \<Rightarrow> time \<Rightarrow> scheduler \<Rightarrow> scheduler" where
  "update_chatgpt_state st now s =
     (let st = merged_state st s
      in if sc_closed s \<or> sc_chatgpt s = Some st then s
         else let s = s\<lparr>sc_chatgpt := Some st\<rparr>
              in if chatgpt_enabled st then s
                 else cancel_chatgpt (if expires_at st \<noteq> 0 \<and> \<not> now < expires_at st then ReasonGrantExpired
                                      else ReasonGrantRevoked) now
                        (cancel_reviews ''Original access ended; continuation will not resume on renewal'' s))"

definition resume_chatgpt :: "scheduler \<Rightarrow> scheduler" where
  "resume_chatgpt s =
     s\<lparr>sc_chatgpt := map_option (\<lambda>st. st\<lparr>chatgpt_paused := False\<rparr>) (sc_chatgpt s),
       sc_follow_ups := map_option (\<lambda>f. f\<lparr>host_paused := False\<rparr>) (sc_follow_ups s)\<rparr>"

definition end_chatgpt_participation :: "conversation_reason \<Rightarrow> time \<Rightarrow> scheduler \<Rightarrow> scheduler" where
  "end_chatgpt_participation reason now s =
     cancel_reviews ''ChatGPT explicitly left''
       (cancel_chatgpt reason now
          (s\<lparr>sc_chatgpt := map_option (\<lambda>st. st\<lparr>chatgpt_connected := False, lease_until := 0\<rparr>) (sc_chatgpt s)\<rparr>))"

end
