(* ===== verification/Conversation_Runs.thy ===== *)
theory Conversation_Runs
  imports Website_Posts
begin

text \<open>
  Runs of the conversations of a room: every critical section of the scheduler, of the attempts,
  of the human's and of the website's operations is one event, in any order, with any answers of
  the clock, the store and the providers, and with anything the rest of the orchestrator does to
  members, agents, workflows and the transcript in between.  Theorems: a conversation gets one
  answer per opening, its attempts of one window use different providers within its deadline.
\<close>

section \<open>Events\<close>

datatype scheduler_event =
  Pass pass_io
| Begin "string option" time launch
| Finish append_answer append_answer time launch string turn_result
| Result_Unsaved append_answer string time string
| Outside core_host "(string \<times> workflow) list" "(participant \<times> activity) list" bool bool
| Say append_answer message

datatype human_event =
  Start string bool "route_metadata option" "participant list" conversation_class string "string + string" append_answer time
| Start_Unsaved append_answer string time string
| Pend string "route_metadata option" participant string "string + string" append_answer time
| Cancel time string
| Retry time string
| Keep_Waiting time string
| Dismiss time string
| Dismiss_All time
| Resolve time nat conversation_class string
| Cancel_Route nat
| Promoted nat time string
| Follow_Up append_answer time string string

datatype website_event =
  Update_State chatgpt_state time
| Resume_Website
| Leave conversation_reason time
| Publish publish_io contribution time
| Saved_Post "string list"
| Unsaved_Post "string list"
| Refresh bool time
| Advance time string
| Review_Posted "nat option" string

datatype event = Scheduling scheduler_event | Human human_event | Website website_event

text \<open>The rest of the orchestrator leaves the conversations and the temporary responders alone.\<close>

definition outside :: "core_host \<Rightarrow> (string \<times> workflow) list \<Rightarrow> (participant \<times> activity) list \<Rightarrow> bool \<Rightarrow> bool \<Rightarrow>
    scheduler \<Rightarrow> scheduler" where
  "outside h ws as closed routing s =
     s\<lparr>core_state := h\<lparr>room := (room h)\<lparr>room_conversations := jobs s\<rparr>, temporary_for := temporary_for (core_state s)\<rparr>,
       sc_workflows := ws, sc_activities := as, sc_closed := closed, sc_routing := routing\<rparr>"

text \<open>An answer of a conversation: what a responder says in it, other than reporting a tool.\<close>

definition is_answer :: "string \<Rightarrow> message \<Rightarrow> bool" where
  "is_answer c m \<longleftrightarrow> conversation_id m = c \<and> kind m = MessageText \<and> valid_agent (author m)"

text \<open>Messages of work turns belong to no conversation; tool reports of a responder to its own.\<close>

definition say :: "append_answer \<Rightarrow> message \<Rightarrow> scheduler \<Rightarrow> scheduler" where
  "say io m s = (if conversation_id m = '''' \<or> kind m \<noteq> MessageText
                 then snd (post io (m\<lparr>sequence := sc_next s\<rparr>) s) else s)"

fun scheduler_step :: "scheduler_event \<Rightarrow> scheduler \<Rightarrow> scheduler" where
  "scheduler_step (Pass io) s = snd (schedule_conversations io s)"
| "scheduler_step (Begin t now l) s = snd (begin_attempt t now l s)"
| "scheduler_step (Finish io fio now l t res) s = finish_attempt io fio now l t res s"
| "scheduler_step (Result_Unsaved fio e now cid) s = result_unsaved fio e now cid s"
| "scheduler_step (Outside h ws as closed routing) s = outside h ws as closed routing s"
| "scheduler_step (Say io m) s = say io m s"

fun human_step :: "human_event \<Rightarrow> scheduler \<Rightarrow> scheduler" where
  "human_step (Start text att via who cl mode new_id io now) s = snd (start_conversation text att via who cl mode new_id io now s)"
| "human_step (Start_Unsaved fio e now cid) s = start_unsaved fio e now cid s"
| "human_step (Pend text via to intent new_id io now) s = snd (persist_pending_route text via to intent new_id io now s)"
| "human_step (Cancel now cid) s = snd (cancel_conversation now cid s)"
| "human_step (Retry now cid) s = snd (retry_conversation now cid s)"
| "human_step (Keep_Waiting now cid) s = snd (keep_waiting now cid s)"
| "human_step (Dismiss now cid) s = snd (dismiss_conversation now cid s)"
| "human_step (Dismiss_All now) s = dismiss_all now s"
| "human_step (Resolve now n cl mode) s = snd (resolve_input now n cl mode s)"
| "human_step (Cancel_Route n) s = snd (cancel_pending_route n s)"
| "human_step (Promoted n now cid) s = promoted_to_work n now cid s"
| "human_step (Follow_Up io now cid text) s = snd (follow_up_conversation io now cid text s)"

fun website_step :: "website_event \<Rightarrow> scheduler \<Rightarrow> scheduler" where
  "website_step (Update_State st now) s = update_chatgpt_state st now s"
| "website_step Resume_Website s = resume_chatgpt s"
| "website_step (Leave reason now) s = end_chatgpt_participation reason now s"
| "website_step (Publish io c now) s = snd (publish_contribution io c now s)"
| "website_step (Saved_Post ids) s = publication_saved ids s"
| "website_step (Unsaved_Post ids) s = publication_unsaved ids s"
| "website_step (Refresh saved now) s = snd (refresh_coordination saved now s)"
| "website_step (Advance now parent) s = snd (advance_continuation now parent s)"
| "website_step (Review_Posted posted parent) s = review_posted posted parent s"

fun event_step :: "event \<Rightarrow> scheduler \<Rightarrow> scheduler" where
  "event_step (Scheduling e) s = scheduler_step e s"
| "event_step (Human e) s = human_step e s"
| "event_step (Website e) s = website_step e s"

definition run_events :: "event list \<Rightarrow> scheduler \<Rightarrow> scheduler" where
  "run_events es s = foldl (\<lambda>s e. event_step e s) s es"


section \<open>Well-formed jobs\<close>

definition attempts_ok :: "conversation_job \<Rightarrow> bool" where
  "attempts_ok j \<longleftrightarrow>
     (\<forall>a\<in>set (job_attempts j). att_window a \<le> attempt_window j) \<and>
     (\<forall>w. distinct (map att_provider (filter (\<lambda>a. att_window a = w) (job_attempts j))))"

definition in_time :: "conversation_job \<Rightarrow> bool" where
  "in_time j \<longleftrightarrow>
     (job_started_at j \<noteq> None \<longrightarrow> job_deadline j \<noteq> None) \<and>
     (\<forall>a\<in>set (window_attempts j). job_started_at j \<noteq> None \<and>
        (case job_deadline j of None \<Rightarrow> False | Some d \<Rightarrow> att_deadline a \<le> d))"

definition job_ok :: "conversation_job \<Rightarrow> bool" where
  "job_ok j \<longleftrightarrow> attempts_ok j \<and> in_time j"

text \<open>What one event may do to a job: keep its identifier and its form, and not open it unless it is in \<open>A\<close>.\<close>

definition job_step :: "string set \<Rightarrow> conversation_job \<Rightarrow> conversation_job \<Rightarrow> bool" where
  "job_step A j k \<longleftrightarrow>
     job_id k = job_id j \<and> (terminal j \<longrightarrow> terminal k \<or> job_id j \<in> A) \<and> (job_ok j \<longrightarrow> job_ok k)"

definition jobs_step :: "string set \<Rightarrow> conversation_job list \<Rightarrow> conversation_job list \<Rightarrow> bool" where
  "jobs_step A js ks \<longleftrightarrow>
     length js \<le> length ks \<and> (\<forall>i<length js. job_step A (js ! i) (ks ! i)) \<and>
     (\<forall>k\<in>set (drop (length js) ks). job_id k \<in> A \<and> job_ok k)"

definition evolves :: "string set \<Rightarrow> message list \<Rightarrow> scheduler \<Rightarrow> scheduler \<Rightarrow> bool" where
  "evolves A ms s t \<longleftrightarrow>
     sc_messages t = sc_messages s @ ms \<and> map sequence ms = [sc_next s..<sc_next t] \<and> sc_next s \<le> sc_next t \<and>
     jobs_step A (jobs s) (jobs t)"

definition silent :: "message list \<Rightarrow> bool" where
  "silent ms \<longleftrightarrow> (\<forall>m\<in>set ms. \<forall>c. c \<noteq> '''' \<longrightarrow> \<not> is_answer c m)"

definition calm :: "string set \<Rightarrow> scheduler \<Rightarrow> scheduler \<Rightarrow> bool" where
  "calm A s t \<longleftrightarrow> (\<exists>ms. silent ms \<and> evolves A ms s t)"

lemma job_step_refl [intro, simp]: "job_step A j j"
  by (simp add: job_step_def)

lemma job_step_trans: "job_step A j k \<Longrightarrow> job_step A k l \<Longrightarrow> job_step A j l"
  by (auto simp: job_step_def)

lemma job_step_mono: "job_step A j k \<Longrightarrow> A \<subseteq> B \<Longrightarrow> job_step B j k"
  by (auto simp: job_step_def)

lemma jobs_step_refl [intro, simp]: "jobs_step A js js"
  by (simp add: jobs_step_def)

lemma in_set_drop: "x \<in> set (drop n xs) \<longleftrightarrow> (\<exists>i<length xs. n \<le> i \<and> xs ! i = x)"
proof
  assume "x \<in> set (drop n xs)"
  then obtain i where "i < length xs - n" "x = xs ! (n + i)" by (auto simp: in_set_conv_nth)
  then show "\<exists>i<length xs. n \<le> i \<and> xs ! i = x" by (intro exI [of _ "n + i"]) auto
next
  assume "\<exists>i<length xs. n \<le> i \<and> xs ! i = x"
  then obtain i where "i < length xs" "n \<le> i" "xs ! i = x" by blast
  then show "x \<in> set (drop n xs)" by (auto simp: in_set_conv_nth intro!: exI [of _ "i - n"])
qed

lemma jobs_step_trans:
  assumes "jobs_step A js ks" "jobs_step A ks ls"
  shows "jobs_step A js ls"
proof -
  have len: "length js \<le> length ks" "length ks \<le> length ls" using assms by (simp_all add: jobs_step_def)
  have "job_step A (js ! i) (ls ! i)" if "i < length js" for i
    using assms that len job_step_trans [of A "js ! i" "ks ! i" "ls ! i"] by (auto simp: jobs_step_def)
  moreover have "job_id l \<in> A \<and> job_ok l" if new: "l \<in> set (drop (length js) ls)" for l
  proof -
    obtain i where i: "length js \<le> i" "i < length ls" "l = ls ! i"
      using new unfolding in_set_drop by blast
    show ?thesis
    proof (cases "i < length ks")
      case True
      have "ks ! i \<in> set (drop (length js) ks)"
        using True i by (auto simp: in_set_drop)
      then have "job_id (ks ! i) \<in> A \<and> job_ok (ks ! i)" using assms by (simp add: jobs_step_def)
      moreover have "job_step A (ks ! i) (ls ! i)" using assms True by (simp add: jobs_step_def)
      ultimately show ?thesis using i by (simp add: job_step_def)
    next
      case False
      then have "l \<in> set (drop (length ks) ls)"
        using i by (auto simp: in_set_drop)
      then show ?thesis using assms by (simp add: jobs_step_def)
    qed
  qed
  ultimately show ?thesis using len by (simp add: jobs_step_def)
qed

lemma jobs_step_mono:
  assumes "jobs_step A js ks" "A \<subseteq> B" shows "jobs_step B js ks"
  using assms by (auto simp: jobs_step_def intro: job_step_mono)

lemma jobs_step_map: "(\<And>j. job_step A j (f j)) \<Longrightarrow> jobs_step A js (map f js)"
  by (simp add: jobs_step_def)

lemma jobs_step_nth: "job_step A (js ! i) k \<Longrightarrow> jobs_step A js (js[i := k])"
  by (cases "i < length js") (auto simp: jobs_step_def nth_list_update)

lemma jobs_step_add: "job_id j \<in> A \<Longrightarrow> job_ok j \<Longrightarrow> jobs_step A js (js @ [j])"
  by (simp add: jobs_step_def nth_append)

lemma jobs_step_adds: "\<forall>j\<in>set ks. job_id j \<in> A \<and> job_ok j \<Longrightarrow> jobs_step A js (js @ ks)"
  by (simp add: jobs_step_def nth_append)

lemma silent_append [simp]: "silent (ms @ ns) \<longleftrightarrow> silent ms \<and> silent ns"
  by (auto simp: silent_def)

lemma silent_Nil [simp]: "silent []"
  by (simp add: silent_def)

lemma evolves_trans:
  assumes "evolves A ms s t" "evolves A ns t u"
  shows "evolves A (ms @ ns) s u"
proof -
  have e: "map sequence ms = [sc_next s..<sc_next t]" "map sequence ns = [sc_next t..<sc_next u]"
    using assms by (simp_all add: evolves_def)
  have "sc_next s \<le> sc_next t" "sc_next t \<le> sc_next u" using assms by (simp_all add: evolves_def)
  then have "[sc_next s..<sc_next t] @ [sc_next t..<sc_next u] = [sc_next s..<sc_next u]"
    by (metis le_add_diff_inverse upt_add_eq_append)
  then show ?thesis using assms e jobs_step_trans [of A "jobs s" "jobs t" "jobs u"] by (simp add: evolves_def)
qed

lemma calm_refl [intro, simp]: "calm A s s"
  by (auto simp: calm_def evolves_def intro!: exI [of _ "[]"])

lemma calm_trans: "calm A s t \<Longrightarrow> calm A t u \<Longrightarrow> calm A s u"
  unfolding calm_def using evolves_trans silent_append by blast

lemma calm_mono: "calm A s t \<Longrightarrow> A \<subseteq> B \<Longrightarrow> calm B s t"
  by (auto simp: calm_def evolves_def intro: jobs_step_mono)

lemma calm_weaken: "calm {} s t \<Longrightarrow> calm A s t"
  by (erule calm_mono) simp

text \<open>Steps that change neither the transcript nor the jobs, and those that change only the jobs.\<close>

lemma calm_same:
  "sc_messages t = sc_messages s \<Longrightarrow> sc_next t = sc_next s \<Longrightarrow> jobs t = jobs s \<Longrightarrow> calm A s t"
  by (auto simp: calm_def evolves_def intro!: exI [of _ "[]"])

lemma calm_jobs:
  "sc_messages t = sc_messages s \<Longrightarrow> sc_next t = sc_next s \<Longrightarrow> jobs_step A (jobs s) (jobs t) \<Longrightarrow> calm A s t"
  by (auto simp: calm_def evolves_def intro!: exI [of _ "[]"])

lemma set_jobs_fields [simp]:
  "jobs (set_jobs js s) = js" "sc_messages (set_jobs js s) = sc_messages s" "sc_next (set_jobs js s) = sc_next s"
  by (simp_all add: set_jobs_def)

lemma put_job_fields [simp]:
  "sc_messages (put_job j s) = sc_messages s" "sc_next (put_job j s) = sc_next s"
  "jobs (put_job j s) = update_first (\<lambda>k. job_id k = job_id j) (\<lambda>_. j) (jobs s)"
  by (simp_all add: put_job_def)

lemma drop_routes_fields [simp]:
  "sc_messages (drop_routes n s) = sc_messages s" "sc_next (drop_routes n s) = sc_next s"
  "jobs (drop_routes n s) = jobs s"
  by (simp_all add: drop_routes_def)

lemma update_first_steps:
  "find (\<lambda>k. job_id k = c) js = Some j \<Longrightarrow> job_step A j k \<Longrightarrow>
   jobs_step A js (update_first (\<lambda>l. job_id l = c) (\<lambda>_. k) js)"
proof (induction js)
  case (Cons x xs)
  show ?case
  proof (cases "job_id x = c")
    case True
    then show ?thesis using Cons by (auto simp: jobs_step_def nth_Cons split: nat.split)
  next
    case False
    then have "jobs_step A xs (update_first (\<lambda>l. job_id l = c) (\<lambda>_. k) xs)" using Cons by simp
    then show ?thesis using False by (auto simp: jobs_step_def nth_Cons split: nat.split)
  qed
qed simp

lemma conversation_id_of: "conversation c s = Some j \<Longrightarrow> job_id j = c"
  by (auto simp: conversation_def dest: find_SomeD)

lemma conversation_in: "conversation c s = Some j \<Longrightarrow> j \<in> set (jobs s)"
  by (auto simp: conversation_def dest: find_SomeD)

lemma calm_put:
  assumes "conversation c s = Some j" "job_step A j k"
  shows "calm A s (put_job k s)"
proof -
  have "job_id k = c" using assms conversation_id_of by (simp add: job_step_def)
  then show ?thesis
    using assms update_first_steps [of c "jobs s" j A k] by (intro calm_jobs) (simp_all add: conversation_def)
qed

lemma calm_foldl: "(\<And>s x. calm A s (f s x)) \<Longrightarrow> calm A s (foldl f s xs)"
  by (induction xs arbitrary: s) (auto intro: calm_trans)

section \<open>Posting\<close>

lemma post_calm:
  assumes "post io m s = (r, t)" "sequence m = sc_next s" "\<And>c mid. c \<noteq> '''' \<Longrightarrow> \<not> is_answer c (m\<lparr>msg_id := mid\<rparr>)"
  shows "calm A s t"
  using assms
  by (auto simp: post_def calm_def evolves_def silent_def Let_def split: sum.splits
      intro!: exI [of _ "[]"] exI [of _ "[m\<lparr>msg_id := _\<rparr>]"])

lemma post_fields:
  "post io m s = (r, t) \<Longrightarrow> jobs t = jobs s \<and> core_state t = core_state s \<and> sc_routes t = sc_routes s"
  by (auto simp: post_def Let_def split: sum.splits)


section \<open>What operations do to a job\<close>

lemma job_ok_cong:
  assumes "job_attempts k = job_attempts j" "attempt_window k = attempt_window j"
    "job_deadline k = job_deadline j" "job_started_at k = job_started_at j"
  shows "job_ok k = job_ok j"
  using assms by (simp add: job_ok_def attempts_ok_def in_time_def window_attempts_def)

lemma job_stepI:
  assumes "job_id k = job_id j" "job_attempts k = job_attempts j" "attempt_window k = attempt_window j"
    "job_deadline k = job_deadline j" "job_started_at k = job_started_at j"
    "terminal j \<Longrightarrow> terminal k \<or> job_id j \<in> A"
  shows "job_step A j k"
  using assms job_ok_cong [of k j] by (auto simp: job_step_def)

lemma job_ok_fresh: "job_attempts j = [] \<Longrightarrow> job_deadline j \<noteq> None \<Longrightarrow> job_ok j"
  by (simp add: job_ok_def attempts_ok_def in_time_def window_attempts_def)

lemma job_ok_opened:
  assumes "job_ok j" "job_attempts k = job_attempts j" "attempt_window k = attempt_window j + 1"
    "job_deadline k \<noteq> None"
  shows "job_ok k"
proof -
  have old: "att_window a \<le> attempt_window j" if "a \<in> set (job_attempts j)" for a
    using assms that by (simp add: job_ok_def attempts_ok_def)
  have "filter (\<lambda>a. att_window a = attempt_window j + 1) (job_attempts j) = []"
    using old by (force simp: filter_empty_conv)
  then show ?thesis
    using assms old by (force simp: job_ok_def attempts_ok_def in_time_def window_attempts_def)
qed

lemma map_filter_update:
  assumes "\<And>x. g (f x) = g x" "\<And>x. p (f x) = p x"
  shows "map g (filter p (xs[i := f (xs ! i)])) = map g (filter p xs)"
  using assms by (induction xs arbitrary: i) (auto split: nat.split)

text \<open>Turn, completion and error of an attempt may change; its provider, window and deadline stay.\<close>

definition same_attempt_marks :: "(conversation_attempt \<Rightarrow> conversation_attempt) \<Rightarrow> bool" where
  "same_attempt_marks f \<longleftrightarrow>
     (\<forall>a. att_provider (f a) = att_provider a \<and> att_window (f a) = att_window a \<and> att_deadline (f a) = att_deadline a)"

lemma change_attempt_fields [simp]:
  "job_id (change_attempt i f j) = job_id j" "attempt_window (change_attempt i f j) = attempt_window j"
  "job_deadline (change_attempt i f j) = job_deadline j" "job_started_at (change_attempt i f j) = job_started_at j"
  "job_state (change_attempt i f j) = job_state j" "temporary (change_attempt i f j) = temporary j"
  "job_source_sequence (change_attempt i f j) = job_source_sequence j"
  "job_attempts (change_attempt i f j) = (job_attempts j)[i := f (job_attempts j ! i)]"
  "terminal (change_attempt i f j) = terminal j"
  by (simp_all add: change_attempt_def terminal_def)

lemma job_ok_marks:
  "job_ok j \<longleftrightarrow>
     (\<forall>w\<in>set (map att_window (job_attempts j)). w \<le> attempt_window j) \<and>
     (\<forall>w. distinct (map att_provider (filter (\<lambda>a. att_window a = w) (job_attempts j)))) \<and>
     (job_started_at j \<noteq> None \<longrightarrow> job_deadline j \<noteq> None) \<and>
     (\<forall>t\<in>set (map att_deadline (window_attempts j)). job_started_at j \<noteq> None \<and>
        (case job_deadline j of None \<Rightarrow> False | Some d \<Rightarrow> t \<le> d))"
  by (simp add: job_ok_def attempts_ok_def in_time_def)

lemma job_ok_change:
  assumes "same_attempt_marks f" shows "job_ok (change_attempt i f j) = job_ok j"
proof -
  have m: "map g (filter p ((job_attempts j)[i := f (job_attempts j ! i)])) = map g (filter p (job_attempts j))"
    if "\<And>x. g (f x) = g x" "\<And>x. p (f x) = p x" for g :: "conversation_attempt \<Rightarrow> 'b" and p
    using that by (rule map_filter_update)
  have "map att_window ((job_attempts j)[i := f (job_attempts j ! i)]) = map att_window (job_attempts j)"
    using assms map_filter_update [of att_window f "\<lambda>_. True" "job_attempts j" i] by (simp add: same_attempt_marks_def)
  then show ?thesis
    using assms unfolding job_ok_marks window_attempts_def
    by (simp add: same_attempt_marks_def map_filter_update del: set_map)
qed

lemma change_attempt_step: "same_attempt_marks f \<Longrightarrow> job_step A j (change_attempt i f j)"
  by (simp add: job_step_def job_ok_change)

lemma same_marks_updates [simp]:
  "same_attempt_marks (\<lambda>a. a\<lparr>att_turn_id := t\<rparr>)" "same_attempt_marks (\<lambda>a. a\<lparr>att_error := e\<rparr>)"
  "same_attempt_marks (\<lambda>a. a\<lparr>att_completed_at := c\<rparr>)"
  by (simp_all add: same_attempt_marks_def)

lemma job_ok_take:
  assumes "job_ok j" shows "job_ok (j\<lparr>job_attempts := take i (job_attempts j)\<rparr>)"
proof -
  let ?t = "take i (job_attempts j)" and ?d = "drop i (job_attempts j)"
  have split: "filter p (job_attempts j) = filter p ?t @ filter p ?d" for p
    by (metis append_take_drop_id filter_append)
  have "set ?t \<subseteq> set (job_attempts j)" by (rule set_take_subset)
  moreover have "distinct (map att_provider (filter (\<lambda>a. att_window a = w) ?t))" for w
  proof -
    have "distinct (map att_provider (filter (\<lambda>a. att_window a = w) (job_attempts j)))"
      using assms by (simp add: job_ok_def attempts_ok_def)
    then show ?thesis by (simp add: split)
  qed
  ultimately show ?thesis using assms by (auto simp: job_ok_def attempts_ok_def in_time_def window_attempts_def)
qed


definition job_kept :: "conversation_job \<Rightarrow> conversation_job \<Rightarrow> bool" where
  "job_kept j k \<longleftrightarrow>
     job_id k = job_id j \<and> job_attempts k = job_attempts j \<and> attempt_window k = attempt_window j \<and>
     job_deadline k = job_deadline j \<and> job_started_at k = job_started_at j"

lemma job_kept_step: "job_kept j k \<Longrightarrow> (terminal j \<Longrightarrow> terminal k \<or> job_id j \<in> A) \<Longrightarrow> job_step A j k"
  by (rule job_stepI) (simp_all add: job_kept_def)

lemma fail_job_kept [simp]: "job_kept j (fail_job reason line now j)" "terminal (fail_job reason line now j)"
  by (simp_all add: job_kept_def fail_job_def retire_now_def finish_job_def terminal_def conversation_terminal_def)

lemma not_agent [simp]: "\<not> valid_agent System" "\<not> valid_agent User" "\<not> valid_agent ChatGPT"
  by (code_simp, code_simp, code_simp)

lemma fail_conversation_facts:
  assumes "fail_conversation io reason line now j s = (k, t)"
  shows "job_kept j k \<and> terminal k \<and> job_state k = ConversationFailed \<and> calm {} s t \<and> jobs t = jobs s"
proof -
  let ?s = "drop_routes (job_source_sequence j) s" and ?j = "fail_job reason line now j"
  have kept: "job_kept j (?j\<lparr>failure_sequence := n\<rparr>)" "job_kept j (?j\<lparr>terminal_reason := e\<rparr>)" for n e
    using fail_job_kept(1) [of j reason line now] by (simp_all add: job_kept_def)
  have st: "job_state ?j = ConversationFailed"
    by (simp add: fail_job_def retire_now_def finish_job_def)
  have c: "calm {} s ?s" by (rule calm_same) simp_all
  show ?thesis
  proof (cases "failure_sequence ?j \<noteq> 0 \<or> trim_space line = ''''")
    case True
    then show ?thesis using assms c st by (auto simp: fail_conversation_def Let_def terminal_def conversation_terminal_def)
  next
    case False
    let ?m = "conversation_message now System MessageText (job_id ?j) line ?s"
    obtain r u where p: "post io ?m ?s = (r, u)" by fastforce
    have "calm {} ?s u"
      by (rule post_calm [OF p]) (simp_all add: conversation_message_def is_answer_def)
    then have "calm {} s u" using c calm_trans by blast
    moreover have "jobs u = jobs s" using post_fields [OF p] by simp
    moreover have "t = u" "job_kept j k" "job_state k = ConversationFailed"
      using assms False p kept st
      by (auto simp: fail_conversation_def Let_def split: option.splits if_splits)
    ultimately show ?thesis by (simp add: terminal_def conversation_terminal_def)
  qed
qed

lemma fail_job_step: "fail_conversation io reason line now j s = (k, t) \<Longrightarrow> job_step A j k"
  using fail_conversation_facts [of io reason line now j s k t] by (auto intro: job_kept_step)

section \<open>The pass, event by event\<close>

lemma cancel_job_step [simp]: "job_step A j (cancel_job reason now j)"
  by (rule job_kept_step) (simp_all add: job_kept_def cancel_job_def finish_job_def terminal_def conversation_terminal_def)

lemma calm_cancel_chatgpt [simp]: "calm A s (cancel_chatgpt reason now s)"
  by (rule calm_jobs) (auto simp: cancel_chatgpt_def intro!: jobs_step_map)

lemma calm_expire_lease [simp]: "calm A s (expire_lease now s)"
  by (rule calm_same) (auto simp: expire_lease_def split: option.splits)

lemma calm_expire_grant [simp]: "calm A s (expire_grant now s)"
  by (auto simp: expire_grant_def split: option.splits)

lemma calm_set_job: "job_step A (jobs s ! i) k \<Longrightarrow> calm A s (set_jobs ((jobs s)[i := k]) s)"
  by (rule calm_jobs) (simp_all add: jobs_step_nth)

lemma calm_expire_job: "calm {} s (expire_job io now s i)"
proof (cases "overdue now (jobs s ! i)")
  case True
  obtain k t where f: "fail_conversation (io (job_id (jobs s ! i))) ''hard response deadline expired'' failureLineTimedOut now (jobs s ! i) s = (k, t)"
    by fastforce
  have "jobs t = jobs s" "calm {} s t" using fail_conversation_facts [OF f] by simp_all
  moreover have "calm {} t (set_jobs ((jobs t)[i := k]) t)"
    using fail_job_step [OF f] \<open>jobs t = jobs s\<close> by (intro calm_set_job) simp
  ultimately show ?thesis using True f by (simp add: expire_job_def Let_def calm_trans)
qed (simp add: expire_job_def)

lemma calm_expire_jobs: "calm {} s (expire_jobs io now s)"
  unfolding expire_jobs_def by (rule calm_foldl) (rule calm_expire_job)

lemma drop_agent_jobs [simp]: "room_conversations (room (drop_agent p h)) = room_conversations (room h)"
  by (simp add: drop_agent_def)

lemma add_temporary_jobs [simp]: "room_conversations (room (add_temporary p c h)) = room_conversations (room h)"
  by (simp add: add_temporary_def)

lemma calm_retire_temporary: "calm {} s (retire_temporary now s pc)"
proof -
  have step: "calm {} s (put_job (retired_job (fst pc) now j) (with_core (drop_agent (fst pc)) s))"
    if "conversation (snd pc) s = Some j" for j
  proof -
    let ?s = "with_core (drop_agent (fst pc)) s"
    have "calm {} s ?s" by (rule calm_same) simp_all
    moreover have "calm {} ?s (put_job (retired_job (fst pc) now j) ?s)"
      using that by (intro calm_put [of "snd pc" _ j])
        (auto simp: conversation_def retired_job_def terminal_def job_kept_def intro: job_kept_step)
    ultimately show ?thesis by (rule calm_trans)
  qed
  then show ?thesis by (auto simp: retire_temporary_def split: option.splits)
qed

lemma calm_retire_temporaries: "calm {} s (retire_temporaries now s)"
  unfolding retire_temporaries_def by (rule calm_foldl) (rule calm_retire_temporary)


section \<open>Punctuality\<close>

definition punctual :: "time \<Rightarrow> scheduler \<Rightarrow> bool" where
  "punctual now s \<longleftrightarrow> (\<forall>j\<in>set (jobs s). \<not> overdue now j)"

lemma overdue_kept: "terminal k = terminal j \<Longrightarrow> job_deadline k = job_deadline j \<Longrightarrow> overdue now k = overdue now j"
  by (simp add: overdue_def split: option.split)

lemma not_overdue_terminal [simp]: "terminal j \<Longrightarrow> \<not> overdue now j"
  by (simp add: overdue_def split: option.split)

lemma expire_job_jobs:
  "\<exists>k. jobs (expire_job io now s i) = (jobs s)[i := k] \<and> \<not> overdue now k"
proof (cases "overdue now (jobs s ! i)")
  case True
  obtain k t where f: "fail_conversation (io (job_id (jobs s ! i))) ''hard response deadline expired'' failureLineTimedOut now (jobs s ! i) s = (k, t)"
    by fastforce
  then show ?thesis
    using True fail_conversation_facts [OF f] by (intro exI [of _ k]) (simp add: expire_job_def Let_def)
next
  case False
  then show ?thesis by (intro exI [of _ "jobs s ! i"]) (simp add: expire_job_def)
qed

lemma expire_some_jobs:
  "length (jobs (foldl (expire_job io now) s [0..<n])) = length (jobs s) \<and>
   (\<forall>i<length (jobs s). i < n \<longrightarrow> \<not> overdue now (jobs (foldl (expire_job io now) s [0..<n]) ! i))"
proof (induction n)
  case (Suc n)
  let ?t = "foldl (expire_job io now) s [0..<n]"
  obtain k where "jobs (expire_job io now ?t n) = (jobs ?t)[n := k]" "\<not> overdue now k"
    using expire_job_jobs by blast
  then show ?case using Suc by (auto simp: less_Suc_eq nth_list_update)
qed simp

lemma punctual_expire: "punctual now (expire_jobs io now s)"
  using expire_some_jobs [of io now s "length (jobs s)"]
  by (auto simp: punctual_def expire_jobs_def in_set_conv_nth)

lemma punctual_foldl: "(\<And>s x. punctual now s \<Longrightarrow> punctual now (f s x)) \<Longrightarrow> punctual now s \<Longrightarrow> punctual now (foldl f s xs)"
  by (rule foldl_keeps)

lemma punctual_put:
  assumes "punctual now s" "\<not> overdue now k" shows "punctual now (put_job k s)"
  using assms set_update_first [of "\<lambda>l. job_id l = job_id k" "\<lambda>_. k" "jobs s"] by (auto simp: punctual_def)

lemma punctual_retire: "punctual now s \<Longrightarrow> punctual now (retire_temporaries now s)"
  unfolding retire_temporaries_def
proof (rule punctual_foldl)
  fix t pc assume p: "punctual now t"
  have "punctual now (put_job (retired_job (fst pc) now j) (with_core (drop_agent (fst pc)) t))"
    if "conversation (snd pc) t = Some j" for j
  proof (rule punctual_put)
    show "punctual now (with_core (drop_agent (fst pc)) t)" using p by (simp add: punctual_def)
    have "\<not> overdue now j" using p conversation_in [OF that] by (simp add: punctual_def)
    then show "\<not> overdue now (retired_job (fst pc) now j)"
      by (simp add: retired_job_def overdue_def terminal_def split: option.splits)
  qed
  then show "punctual now (retire_temporary now t pc)"
    using p by (auto simp: retire_temporary_def split: option.splits)
qed

section \<open>Choosing a responder\<close>

lemma pick_eligible_fresh: "pick_eligible h j now ps r = (Some p, x) \<Longrightarrow> provider p \<notin> set (used_providers j)"
  by (induction h j now ps r rule: pick_eligible.induct) (auto simp: Let_def split: if_splits)

lemma pick_temporary_from:
  "pick_temporary created h j now ps r = (Some p, x) \<Longrightarrow>
   \<exists>pr\<in>set ps. is_primary_agent pr \<and> pr \<notin> set (used_providers j) \<and> \<not> provider_has_temporary pr h \<and>
     next_temporary pr h = Some p"
  by (induction created h j now ps r rule: pick_temporary.induct)
    (auto simp: Let_def split: if_splits option.splits)

lemma next_temporary_name:
  assumes "next_temporary pr h = Some p"
  obtains i where "0 < i" "p = auxiliary_name pr i" "p \<notin> set (agents h)"
proof -
  obtain i where i: "find (\<lambda>i. auxiliary_name pr i \<notin> set (agents h)) [1..<length (agents h) + 2] = Some i"
    "p = auxiliary_name pr i" using assms by (auto simp: next_temporary_def simp del: upt_Suc)
  have "i \<in> set [1..<length (agents h) + 2]" "p \<notin> set (agents h)" using find_SomeD [OF i(1)] i(2) by blast+
  then show thesis using i(2) that by (metis atLeastLessThan_iff less_le_trans set_upt zero_less_one)
qed

lemma auxiliary_name_primary:
  assumes "is_primary_agent pr" "0 < i" shows "auxiliary_name pr i = pr @ ''-'' @ itoa (int i)"
  using assms by (simp add: auxiliary_name_def auxiliary_participant_def)

lemma temporary_provider:
  assumes "is_primary_agent pr" "valid_agent (pr @ ''-'' @ t)" shows "provider (pr @ ''-'' @ t) = pr"
proof -
  let ?p = "pr @ ''-'' @ t"
  have pr: "pr \<in> set agent_order" using assms is_primary_agent_iff by blast
  then have "?p \<notin> set agent_order" by (auto simp: agent_order_def)
  then obtain q where q: "find (auxiliary_of ?p) agent_order = Some q" "provider ?p = q"
    using assms by (auto simp: valid_agent_def provider_def split: option.splits)
  have "q \<in> set agent_order" "auxiliary_of ?p q" using find_SomeD [OF q(1)] by blast+
  then have "has_prefix ?p (q @ ''-'')" unfolding auxiliary_of_def by blast
  then show ?thesis using q(2) aux_prefix_unique [OF pr \<open>q \<in> set agent_order\<close>] by simp
qed

lemma select_responder_jobs:
  "select_responder created now j s = (c, t) \<Longrightarrow> jobs t = jobs s \<and> sc_messages t = sc_messages s \<and> sc_next t = sc_next s"
  by (auto simp: select_responder_def Let_def split: prod.splits option.splits if_splits)


lemma pick_temporary_provider:
  assumes "pick_temporary created h j now ps r = (Some p, x)" "valid_agent p"
  shows "provider p \<notin> set (used_providers j) \<and> \<not> provider_has_temporary (provider p) h \<and> p \<notin> set (agents h)"
proof -
  obtain pr where pr: "is_primary_agent pr" "pr \<notin> set (used_providers j)" "\<not> provider_has_temporary pr h"
    "next_temporary pr h = Some p" using pick_temporary_from [OF assms(1)] by blast
  obtain i where i: "0 < i" "p = auxiliary_name pr i" "p \<notin> set (agents h)" using next_temporary_name [OF pr(4)] .
  then have "provider p = pr"
    using temporary_provider [OF pr(1)] assms(2) auxiliary_name_primary [OF pr(1)] by auto
  then show ?thesis using pr i by simp
qed

lemma select_responder_fresh:
  assumes "select_responder created now j s = (c, t)" "chosen c = Some p"
  shows "provider p \<notin> set (used_providers j) \<and> valid_agent p"
proof -
  obtain f r where f: "pick_eligible (core_state s) j now (candidates s j now) ''no eligible provider is currently available'' = (f, r)"
    by fastforce
  have c: "responder c = Some p" "valid_agent p" using assms(2) by (auto simp: chosen_def split: option.splits if_splits)
  show ?thesis
  proof (cases f)
    case (Some q)
    then have "p = q" using assms f c by (auto simp: select_responder_def Let_def)
    then show ?thesis using f Some c pick_eligible_fresh by blast
  next
    case None
    obtain g x where g: "pick_temporary created (core_state s) j now (the (temporary_factory s)) r = (g, x)" by fastforce
    then have "g = Some p"
      using assms f None c by (auto simp: select_responder_def Let_def split: if_splits option.splits)
    then show ?thesis using g c pick_temporary_provider by blast
  qed
qed

section \<open>Assigning\<close>

lemma start_clock_fields [simp]:
  "job_id (start_clock now j) = job_id j" "job_state (start_clock now j) = job_state j"
  "job_attempts (start_clock now j) = job_attempts j" "attempt_window (start_clock now j) = attempt_window j"
  "job_class (start_clock now j) = job_class j"
  by (simp_all add: start_clock_def)

lemma assign_job_fields [simp]:
  "job_id (assign_job now p temp j) = job_id j" "attempt_window (assign_job now p temp j) = attempt_window j"
  "job_deadline (assign_job now p temp j) = job_deadline (start_clock now j)"
  "job_started_at (assign_job now p temp j) = job_started_at (start_clock now j)"
  "job_attempts (assign_job now p temp j) = job_attempts j @ [new_attempt now p (start_clock now j)]"
  "assigned (assign_job now p temp j) = p" "\<not> terminal (assign_job now p temp j)"
  by (simp_all add: assign_job_def Let_def terminal_def conversation_terminal_def)

lemma budget_range: "0 < total_budget c" "total_budget c \<le> max_int64"
  by (simp_all add: total_budget_def max_int64_def split: conversation_class.split)

lemma attempt_end_deadline:
  assumes "job_deadline j = Some d" "now < d" shows "attempt_end now j \<le> d"
proof -
  have "min (time_sub d now) (total_budget c) \<le> d - now" for c
    using assms budget_range [of c] by (auto simp: time_sub_def min_def max_int64_def min_int64_def)
  then have "min (time_sub d now) (attempt_budget (job_class j)) \<le> d - now" by (simp add: attempt_budget_def)
  then show ?thesis using assms by (simp add: attempt_end_def Let_def min_def split: if_splits)
qed

lemma start_clock_deadline:
  assumes "job_ok j" "\<not> terminal j" "\<not> overdue now j"
  obtains d where "job_deadline (start_clock now j) = Some d" "now < d"
proof -
  have "\<exists>d. job_deadline (start_clock now j) = Some d \<and> now < d"
    using assms budget_range(1) [of "job_class j"]
    by (auto simp: start_clock_def job_ok_def in_time_def overdue_def split: option.splits)
  then show thesis using that by blast
qed


lemma assign_job_ok:
  assumes ok: "job_ok j" "\<not> terminal j" "\<not> overdue now j" and p: "provider p \<notin> set (used_providers j)"
  shows "job_ok (assign_job now p temp j)"
proof -
  let ?j = "start_clock now j" and ?k = "assign_job now p temp j"
  obtain d where d: "job_deadline ?j = Some d" "now < d" using start_clock_deadline [OF ok] .
  have started: "job_started_at ?j \<noteq> None" by (simp add: start_clock_def)
  have old: "att_deadline a \<le> d" if "a \<in> set (window_attempts j)" for a
    using ok(1) that d by (auto simp: job_ok_def in_time_def start_clock_def split: option.splits if_splits)
  have w: "window_attempts ?k = window_attempts j @ [new_attempt now p ?j]"
    by (simp add: window_attempts_def new_attempt_def)
  have "in_time ?k"
    using d started old attempt_end_deadline [OF d] unfolding in_time_def w
    by (auto simp: new_attempt_def)
  moreover have "distinct (map att_provider (filter (\<lambda>a. att_window a = v) (job_attempts ?k)))" for v
    using ok(1) p by (auto simp: job_ok_def attempts_ok_def new_attempt_def used_providers_def window_attempts_def)
  moreover have "\<forall>a\<in>set (job_attempts ?k). att_window a \<le> attempt_window ?k"
    using ok(1) by (auto simp: job_ok_def attempts_ok_def new_attempt_def)
  ultimately show ?thesis by (simp add: job_ok_def attempts_ok_def)
qed

lemma waiting_job_kept: "job_kept j (waiting_job n r now j)" "terminal (waiting_job n r now j) \<Longrightarrow> terminal j"
  by (auto simp: waiting_job_def job_kept_def terminal_def conversation_terminal_def split: if_splits)

lemma waiting_not_overdue: "\<not> overdue now j \<Longrightarrow> \<not> terminal j \<Longrightarrow> \<not> overdue now (waiting_job n r t j)"
  by (auto simp: waiting_job_def overdue_def split: option.splits)

lemma schedule_job_calm:
  assumes "punctual now s" "schedule_job created now (n, ls, s) i = (n', ls', t)" "i < length (jobs s)"
  shows "calm {} s t \<and> punctual now t \<and> length (jobs t) = length (jobs s)"
proof (cases "schedulable s (jobs s ! i)")
  case False
  then show ?thesis using assms by (simp add: schedule_job_def Let_def)
next
  case True
  let ?j = "jobs s ! i"
  have j: "\<not> terminal ?j" "\<not> overdue now ?j"
    using True assms by (simp_all add: schedulable_def punctual_def)
  obtain c u where c: "select_responder created now ?j s = (c, u)" by fastforce
  have u: "jobs u = jobs s" "calm {} s u" using select_responder_jobs [OF c] calm_same by simp_all
  obtain k where t: "t = set_jobs ((jobs u)[i := k]) u" "\<not> overdue now k" "job_step {} ?j k"
  proof (cases "chosen c")
    case None
    have "\<not> overdue now (waiting_job m r now ?j)" "job_step {} ?j (waiting_job m r now ?j)" for m r
      using j waiting_not_overdue waiting_job_kept by (auto intro: job_kept_step)
    moreover have "t = set_jobs ((jobs u)[i := waiting_job (n + 1) (wait_text c) now ?j]) u"
      using assms True c None by (auto simp: schedule_job_def Let_def)
    ultimately show thesis using that by blast
  next
    case (Some p)
    have "\<not> overdue now (assign_job now p (is_temporary c) ?j)"
      using j budget_range(1) [of "job_class ?j"]
      by (auto simp: overdue_def start_clock_def split: option.splits)
    moreover have "job_step {} ?j (assign_job now p (is_temporary c) ?j)"
      using j select_responder_fresh [OF c Some] assign_job_ok [of ?j now p "is_temporary c"] by (auto simp: job_step_def)
    moreover have "t = set_jobs ((jobs u)[i := assign_job now p (is_temporary c) ?j]) u"
      using assms True c Some by (auto simp: schedule_job_def Let_def)
    ultimately show thesis using that by blast
  qed
  have "calm {} u t" unfolding t(1) by (rule calm_set_job) (simp add: t u)
  moreover have "punctual now t"
    using assms(1) t u by (auto simp: punctual_def dest!: set_update_subset_insert [THEN subsetD])
  ultimately show ?thesis using u t calm_trans by auto
qed

lemma assign_jobs_calm:
  assumes "punctual now s"
  shows "calm {} s (snd (assign_jobs created now s)) \<and> punctual now (snd (assign_jobs created now s))"
proof -
  have "calm {} s (snd (snd (foldl (schedule_job created now) (0, [], s) [0..<n]))) \<and>
        punctual now (snd (snd (foldl (schedule_job created now) (0, [], s) [0..<n]))) \<and>
        length (jobs (snd (snd (foldl (schedule_job created now) (0, [], s) [0..<n])))) = length (jobs s)"
    if "n \<le> length (jobs s)" for n
    using that
  proof (induction n)
    case (Suc n)
    obtain m ls t where t: "foldl (schedule_job created now) (0, [], s) [0..<n] = (m, ls, t)" by (metis prod_cases3)
    obtain m' ls' t' where t': "schedule_job created now (m, ls, t) n = (m', ls', t')" by (metis prod_cases3)
    have "calm {} s t \<and> punctual now t \<and> length (jobs t) = length (jobs s)" using Suc t by simp
    moreover have "n < length (jobs t)" using calculation Suc by simp
    ultimately show ?case using schedule_job_calm [OF _ t'] t t' calm_trans by auto
  qed (use assms in simp)
  then show ?thesis by (simp add: assign_jobs_def)
qed

lemma pass_calm:
  "calm {} s (snd (schedule_conversations io s))"
  "\<not> sc_closed s \<Longrightarrow> sc_routing s \<Longrightarrow> punctual (pass_now io) (snd (schedule_conversations io s))"
proof -
  let ?now = "pass_now io"
  let ?a = "expire_grant ?now (expire_lease ?now s)"
  let ?b = "expire_jobs (pass_append io) ?now ?a"
  let ?c = "retire_temporaries ?now ?b"
  have "calm {} s ?a" using calm_expire_lease calm_expire_grant calm_trans by blast
  moreover have "calm {} ?a ?c" using calm_expire_jobs calm_retire_temporaries calm_trans by blast
  moreover have "punctual ?now ?c" by (rule punctual_retire) (rule punctual_expire)
  ultimately have "calm {} s (snd (assign_jobs (pass_created io) ?now ?c)) \<and>
      punctual ?now (snd (assign_jobs (pass_created io) ?now ?c))"
    using assign_jobs_calm calm_trans by blast
  then show "calm {} s (snd (schedule_conversations io s))"
    "\<not> sc_closed s \<Longrightarrow> sc_routing s \<Longrightarrow> punctual ?now (snd (schedule_conversations io s))"
    by (auto simp: schedule_conversations_def Let_def)
qed


section \<open>Attempts\<close>

lemma drop_open_attempt_ok: "job_ok j \<Longrightarrow> job_ok (drop_open_attempt i j)"
  by (simp add: drop_open_attempt_def Let_def job_ok_take)

lemma withdraw_job_kept: "job_kept (drop_open_attempt i j) (withdraw_job i temp r now j)"
  by (simp add: withdraw_job_def job_kept_def Let_def)

lemma withdraw_job_step: "\<not> terminal j \<Longrightarrow> job_step {} j (withdraw_job i temp r now j)"
  using withdraw_job_kept [of i j temp r now] drop_open_attempt_ok [of j i]
    job_ok_cong [of "withdraw_job i temp r now j" "drop_open_attempt i j"]
  by (auto simp: job_step_def job_kept_def drop_open_attempt_def Let_def)

lemma start_turn_fields [simp]:
  "jobs (start_turn l t s) = jobs s" "sc_messages (start_turn l t s) = sc_messages s" "sc_next (start_turn l t s) = sc_next s"
  by (simp_all add: start_turn_def)

lemma calm_begin: "calm {} s (snd (begin_attempt turn now l s))"
proof (cases "conversation (launch_id l) s")
  case (Some j)
  let ?i = "launch_attempt l"
  have "calm {} s (put_job (withdraw_job ?i temp r now j) s)" if "\<not> terminal j" for temp r
    using calm_put [OF Some] withdraw_job_step [OF that] by blast
  moreover have "calm {} s (start_turn l t (put_job (change_attempt ?i (\<lambda>a. a\<lparr>att_turn_id := t\<rparr>) j) s))" for t
  proof (rule calm_trans)
    show "calm {} s (put_job (change_attempt ?i (\<lambda>a. a\<lparr>att_turn_id := t\<rparr>) j) s)"
      by (rule calm_put [OF Some]) (simp add: change_attempt_step)
  qed (rule calm_same, simp_all)
  ultimately show ?thesis
    using Some by (auto simp: begin_attempt_def Let_def split: option.splits prod.splits)
qed (simp add: begin_attempt_def)


definition ended :: "string \<Rightarrow> conversation_job \<Rightarrow> scheduler \<Rightarrow> conversation_job \<Rightarrow> scheduler \<Rightarrow> bool" where
  "ended c j s k t \<longleftrightarrow>
     jobs t = jobs s \<and> job_step {} j k \<and>
     (calm {} s t \<or> terminal k \<and> (\<exists>m. conversation_id m = c \<and> evolves {} [m] s t))"

lemma job_kept_trans: "job_kept i j \<Longrightarrow> job_kept j k \<Longrightarrow> job_kept i k"
  by (simp add: job_kept_def)

lemma ended_failed:
  assumes "fail_conversation fio e line now i s = (k, t)" "job_step {} j i" "job_kept k l" "terminal l"
  shows "ended c j s l t"
proof -
  have f: "job_kept i k" "terminal k" "calm {} s t" "jobs t = jobs s" using fail_conversation_facts [OF assms(1)] by simp_all
  have "job_step {} i l" using job_kept_step [OF job_kept_trans [OF f(1) assms(3)]] assms(4) by blast
  then have "job_step {} j l" by (rule job_step_trans [OF assms(2)])
  then show ?thesis using f by (simp add: ended_def)
qed

lemma set_attempt_error_step [simp]: "job_step A j (set_attempt_error i e j)" "terminal (set_attempt_error i e j) = terminal j"
  by (simp_all add: set_attempt_error_def change_attempt_step)

lemma answered_job_kept: "job_kept j (answered_job now l n j)" "terminal (answered_job now l n j)"
  by (simp_all add: answered_job_def Let_def finish_job_def job_kept_def terminal_def conversation_terminal_def)

lemma job_kept_refl [simp]: "job_kept j j"
  by (simp add: job_kept_def)

lemma fail_terminal: "fail_conversation fio e line now i s = (k, t) \<Longrightarrow> terminal k"
  using fail_conversation_facts by blast

lemma end_answered_facts:
  assumes "end_answered io fio now l t res j s = (k, u)"
  shows "ended (launch_id l) j s k u"
proof -
  let ?m = "answer_message now l t res j s"
  obtain r v where p: "post io ?m s = (r, v)" by fastforce
  have fields: "sequence ?m = sc_next s" "conversation_id ?m = launch_id l"
    by (simp_all add: answer_message_def Let_def)
  show ?thesis
  proof (cases r)
    case None
    then have "v = s" using p by (auto simp: post_def Let_def split: sum.splits)
    then show ?thesis
      using assms p None fail_terminal by (auto simp: end_answered_def Let_def intro!: ended_failed)
  next
    case (Some m)
    then obtain mid where m: "m = ?m\<lparr>msg_id := mid\<rparr>" "v = s\<lparr>sc_next := sc_next s + 1, sc_messages := sc_messages s @ [m]\<rparr>"
      using p by (auto simp: post_def Let_def split: sum.splits)
    then have "evolves {} [m] s v" "conversation_id m = launch_id l" "jobs v = jobs s"
      using fields by (simp_all add: evolves_def)
    moreover have "k = answered_job now l (sequence m) j" "u = v" using assms p Some by (simp_all add: end_answered_def)
    ultimately show ?thesis using answered_job_kept unfolding ended_def by (auto intro: job_kept_step)
  qed
qed

lemma end_requires_work_facts:
  assumes "end_requires_work fio now j s = (k, u)" shows "ended c j s k u"
proof (cases "chatgpt_conversation s j")
  case True
  then show ?thesis using assms fail_terminal by (auto simp: end_requires_work_def intro!: ended_failed)
next
  case False
  have "job_step {} j (dismissed_to_work now j)"
    by (rule job_kept_step) (simp_all add: dismissed_to_work_def retire_now_def job_kept_def terminal_def conversation_terminal_def)
  moreover have "calm {} s (route_source now n s)" "jobs (route_source now n s) = jobs s" for n
    by (rule calm_same) (simp_all add: route_source_def)
  ultimately show ?thesis using assms False by (auto simp: end_requires_work_def ended_def)
qed

lemma end_needs_access_facts:
  assumes "end_needs_access fio now l res j s = (k, u)" shows "ended c j s k u"
proof -
  let ?e = "''conversation responder requested additional access''"
  obtain i t where f: "fail_conversation fio ?e failureLineNeedsAccess now (set_attempt_error (launch_attempt l) ?e j) s = (i, t)"
    by fastforce
  have "u = t" "job_kept i k" "terminal k"
    using assms f fail_terminal [OF f] by (auto simp: end_needs_access_def Let_def job_kept_def terminal_def split: if_splits)
  then show ?thesis using ended_failed [OF f] by simp
qed

lemma end_failed_facts:
  assumes "end_failed fio now l res j s = (k, u)" "\<not> terminal j" shows "ended c j s k u"
proof -
  let ?e = "attempt_error_text res" and ?j = "set_attempt_error (launch_attempt l) (attempt_error_text res) j"
  show ?thesis
  proof (cases "worth_alternate now res ?j s")
    case True
    then have k: "job_kept ?j k" "u = s"
      using assms by (auto simp: end_failed_def Let_def job_kept_def)
    have "job_step {} ?j k" using k(1) assms(2) by (intro job_kept_step) simp_all
    then have "job_step {} j k" by (rule job_step_trans [OF set_attempt_error_step(1)])
    then show ?thesis using k by (simp add: ended_def)
  next
    case False
    obtain i t where f: "fail_conversation fio ?e (failed_line res) now ?j s = (i, t)" by fastforce
    have "u = t" "job_kept i k" "terminal k"
      using assms f False fail_terminal [OF f]
      by (auto simp: end_failed_def Let_def refine_code_def job_kept_def terminal_def split: option.splits)
    then show ?thesis using ended_failed [OF f] by simp
  qed
qed

lemma end_attempt_facts:
  assumes "end_attempt io fio now l t res j s = (k, u)"
  shows "ended (launch_id l) j s k u \<and> (terminal j \<longrightarrow> calm {} s u)"
proof (cases "terminal j")
  case True
  have "job_step {} j (retire_now now (j\<lparr>job_updated_at := now\<rparr>))"
    by (rule job_kept_step) (simp_all add: retire_now_def job_kept_def terminal_def)
  then show ?thesis using True assms by (auto simp: end_attempt_def ended_def)
next
  case False
  then show ?thesis
    using assms end_answered_facts end_requires_work_facts end_needs_access_facts end_failed_facts
    by (auto simp: end_attempt_def split: if_splits)
qed


definition open_job :: "string \<Rightarrow> scheduler \<Rightarrow> bool" where
  "open_job c s \<longleftrightarrow> (case conversation c s of None \<Rightarrow> False | Some j \<Rightarrow> \<not> terminal j)"

text \<open>The one way a conversation is answered: its job was open and is not any more.\<close>

definition answer_step :: "string \<Rightarrow> scheduler \<Rightarrow> scheduler \<Rightarrow> bool" where
  "answer_step c s t \<longleftrightarrow>
     open_job c s \<and> \<not> open_job c t \<and> (\<exists>m. conversation_id m = c \<and> evolves {} [m] s t)"

lemma find_update_first_same:
  "find p xs = Some x \<Longrightarrow> p y \<Longrightarrow> find p (update_first p (\<lambda>_. y) xs) = Some y"
  by (induction xs) auto

lemma conversation_put: "conversation c s = Some j \<Longrightarrow> job_id k = c \<Longrightarrow> conversation c (put_job k s) = Some k"
  by (auto simp: conversation_def intro: find_update_first_same)

lemma evolves_put:
  assumes "evolves A ms s t" "jobs t = jobs s" "conversation c s = Some j" "job_step A j k"
  shows "evolves A ms s (put_job k t)"
proof -
  have "jobs_step A (jobs s) (jobs (put_job k t))"
    using assms update_first_steps [of c "jobs s" j A k] conversation_id_of [OF assms(3)]
    by (simp add: conversation_def job_step_def)
  then show ?thesis using assms(1) by (simp add: evolves_def)
qed

lemma drop_turn_jobs [simp]: "jobs (drop_turn l s) = jobs s" "sc_messages (drop_turn l s) = sc_messages s"
  "sc_next (drop_turn l s) = sc_next s"
  by (simp_all add: drop_turn_def split: option.split)

lemma settle_result_kept: "job_kept k (settle_result now res k)" "terminal (settle_result now res k) = terminal k"
  by (simp_all add: settle_result_def Let_def job_kept_def terminal_def)

lemma finish_facts: "calm {} s (finish_attempt io fio now l t res s) \<or> answer_step (launch_id l) s (finish_attempt io fio now l t res s)"
proof -
  let ?c = "launch_id l" and ?s = "drop_turn l s" and ?f = "\<lambda>a. a\<lparr>att_completed_at := Some now\<rparr>"
  have d: "calm {} s ?s" by (rule calm_same) simp_all
  show ?thesis
  proof (cases "conversation ?c ?s")
    case None
    then show ?thesis using d by (simp add: finish_attempt_def Let_def)
  next
    case (Some j)
    let ?j = "change_attempt (launch_attempt l) ?f j"
    obtain k u where e: "end_attempt io fio now l t res ?j ?s = (k, u)" by fastforce
    have c: "conversation ?c s = Some j" using Some by (simp add: conversation_def)
    show ?thesis
    proof (cases "launch_attempt l \<ge> length (job_attempts j)")
      case True
      then show ?thesis using d Some by (simp add: finish_attempt_def Let_def)
    next
      case False
      let ?k = "settle_result now res k"
      have t: "finish_attempt io fio now l t res s = put_job ?k u"
        using Some e False by (simp add: finish_attempt_def Let_def)
      have en: "ended ?c ?j ?s k u" "terminal j \<Longrightarrow> calm {} ?s u" using end_attempt_facts [OF e] by simp_all
      have "job_step {} k ?k" by (rule job_kept_step) (simp_all add: settle_result_kept)
      moreover have "job_step {} j ?j" by (simp add: change_attempt_step)
      ultimately have jk: "job_step {} j ?k" using en(1) job_step_trans unfolding ended_def by blast
      have u: "jobs u = jobs s" using en(1) by (simp add: ended_def)
      have cu: "conversation ?c u = Some j" using c u by (simp add: conversation_def)
      show ?thesis
      proof (cases "calm {} ?s u")
        case True
        then show ?thesis using d calm_put [OF cu jk] calm_trans t by metis
      next
        case answered: False
        then obtain m where m: "\<not> terminal j" "terminal k" "conversation_id m = ?c" "evolves {} [m] ?s u"
          using en by (auto simp: ended_def)
        have "evolves {} [m] s u" using m(4) by (simp add: evolves_def)
        then have "evolves {} [m] s (put_job ?k u)" using evolves_put [OF _ u c jk] by blast
        moreover have "conversation ?c (put_job ?k u) = Some ?k"
          using conversation_put [OF cu] jk conversation_id_of [OF c] by (simp add: job_step_def)
        ultimately have "answer_step ?c s (put_job ?k u)"
          using m c settle_result_kept(2) unfolding answer_step_def open_job_def by auto
        then show ?thesis using t by simp
      qed
    qed
  qed
qed

lemma calm_fail_put:
  assumes "conversation c s = Some j" "fail_conversation fio e line now j s = (k, t)"
  shows "calm {} s (put_job k t)"
proof -
  have f: "calm {} s t" "jobs t = jobs s" using fail_conversation_facts [OF assms(2)] by simp_all
  have "conversation c t = Some j" using assms(1) f by (simp add: conversation_def)
  then have "calm {} t (put_job k t)" using calm_put fail_job_step [OF assms(2)] by blast
  then show ?thesis using f calm_trans by blast
qed

lemma calm_result_unsaved: "calm {} s (result_unsaved fio e now c s)"
  by (auto simp: result_unsaved_def Let_def intro: calm_fail_put split: option.splits prod.splits)

lemma calm_outside: "calm {} s (outside h ws as closed routing s)"
  by (rule calm_same) (simp_all add: outside_def)

lemma calm_say: "calm {} s (say io m s)"
proof (cases "conversation_id m = '''' \<or> kind m \<noteq> MessageText")
  case True
  obtain r t where p: "post io (m\<lparr>sequence := sc_next s\<rparr>) s = (r, t)" by fastforce
  have "calm {} s t" by (rule post_calm [OF p]) (use True in \<open>auto simp: is_answer_def\<close>)
  then show ?thesis using p True by (simp add: say_def)
qed (simp add: say_def)

lemma scheduler_event_facts:
  "calm {} s (scheduler_step e s) \<or> (\<exists>c. answer_step c s (scheduler_step e s))"
proof (cases e)
  case (Finish io fio now l t res)
  then show ?thesis using finish_facts [of s io fio now l t res] by auto
qed (simp_all add: pass_calm calm_begin calm_result_unsaved calm_outside calm_say)


section \<open>The human's operations\<close>

text \<open>The conversations an event may open.\<close>

fun human_opens :: "human_event \<Rightarrow> scheduler \<Rightarrow> string set" where
  "human_opens (Start text att via who cl mode new_id io now) s = (case new_id of Inl e \<Rightarrow> {} | Inr c \<Rightarrow> {c})"
| "human_opens (Retry now c) s = {c}"
| "human_opens (Keep_Waiting now c) s = {c}"
| "human_opens (Resolve now n cl mode) s = (case routed_source n s of None \<Rightarrow> {} | Some m \<Rightarrow> {conversation_id m})"
| "human_opens (Follow_Up io now c text) s = {c}"
| "human_opens e s = {}"

lemma terminal_states [simp]:
  "terminal (j\<lparr>job_state := ConversationCancelled\<rparr>)" "terminal (j\<lparr>job_state := ConversationDismissed\<rparr>)"
  "terminal (j\<lparr>job_state := ConversationFailed\<rparr>)"
  by (simp_all add: terminal_def conversation_terminal_def)

lemma calm_on_job:
  assumes "\<And>j k. job_id j = c \<Longrightarrow> f j = Inr k \<Longrightarrow> job_step A j k"
  shows "calm A s (snd (on_job c f s))" "calm A s (snd (on_routed_job c f s))"
proof -
  have "calm A s (put_job k s)" if "conversation c s = Some j" "f j = Inr k" for j k
    using calm_put [OF that(1)] assms that conversation_id_of by blast
  moreover from this have "calm A s (drop_routes n (put_job k s))" if "conversation c s = Some j" "f j = Inr k" for j k n
    using that calm_trans calm_same [of "drop_routes n (put_job k s)" "put_job k s" A] drop_routes_fields by blast
  ultimately show "calm A s (snd (on_job c f s))" "calm A s (snd (on_routed_job c f s))"
    by (auto simp: on_job_def on_routed_job_def split: option.splits sum.splits)
qed

lemma cancelled_job_step: "job_step A j (cancelled_job now j)"
  by (rule job_kept_step)
    (simp_all add: cancelled_job_def retire_now_def finish_job_def job_kept_def terminal_def conversation_terminal_def)

lemma reopened_step:
  assumes "job_id k = job_id j" "job_attempts k = job_attempts j" "attempt_window k = attempt_window j + 1"
    "job_deadline k \<noteq> None" "job_id j \<in> A"
  shows "job_step A j k"
  using assms job_ok_opened [of j k] by (simp add: job_step_def)

lemma decided_step: "job_kept (decided j) k \<Longrightarrow> job_state k = ConversationDismissed \<Longrightarrow> job_step A j k"
  by (rule job_kept_step) (simp_all add: decided_def job_kept_def terminal_def conversation_terminal_def)

lemma dismissed_job_step: "job_step A j (dismissed_job now j)"
  unfolding dismissed_job_def
  by (cases "derived_inbox_category j")
    (auto intro!: job_kept_step simp: job_kept_def decided_def terminal_def conversation_terminal_def)

lemma calm_dismiss: "calm {} s (snd (dismiss_conversation now c s))"
proof (cases "conversation c s")
  case (Some j)
  have put: "calm {} s (put_job (dismissed_job now j) s)" by (rule calm_put [OF Some dismissed_job_step])
  then have "calm {} s (drop_routes n (put_job (dismissed_job now j) s))" for n
    by (rule calm_trans) (rule calm_same, simp_all)
  then show ?thesis
    using put Some by (cases "derived_inbox_category j") (simp_all add: dismiss_conversation_def dismissed_job_def)
qed (simp add: dismiss_conversation_def)

lemma calm_dismiss_all: "calm {} s (dismiss_all now s)"
  by (rule calm_jobs) (auto simp: dismiss_all_def intro!: jobs_step_map dismissed_job_step)

lemma calm_start: "calm (human_opens (Start text att via who cl mode new_id io now) s) s
    (snd (start_conversation text att via who cl mode new_id io now s))"
proof (cases new_id)
  case (Inr c)
  let ?m = "routed_message now '''' text via InputConversation c '''' s"
  obtain r t where p: "post io ?m s = (r, t)" by fastforce
  have t: "calm {c} s t"
    by (rule post_calm [OF p]) (simp_all add: routed_message_def is_answer_def)
  have "calm {c} t (add_job (started_job c n cl mo who rem now) t)" for n mo rem
    by (rule calm_jobs) (auto simp: add_job_def started_job_def empty_job_def intro!: jobs_step_add job_ok_fresh)
  then have "calm {c} s (add_job (started_job c n cl mo who rem now) t)" for n mo rem
    using t calm_trans by blast
  then show ?thesis using t p Inr by (simp add: start_conversation_def split: option.splits)
qed (simp add: start_conversation_def)

lemma calm_pend: "calm {} s (snd (persist_pending_route text via to intent new_id io now s))"
proof (cases new_id)
  case (Inr c)
  let ?m = "routed_message now to text via intent c '''' s"
  obtain r t where p: "post io ?m s = (r, t)" by fastforce
  have t: "calm {} s t" by (rule post_calm [OF p]) (simp_all add: routed_message_def is_answer_def)
  then have "calm {} s (t\<lparr>sc_routes := rs\<rparr>)" for rs by (rule calm_trans) (rule calm_same, simp_all)
  then show ?thesis using t p Inr by (simp add: persist_pending_route_def split: option.splits)
qed (simp add: persist_pending_route_def)

lemma calm_start_unsaved: "calm {} s (start_unsaved fio e now c s)"
  by (auto simp: start_unsaved_def Let_def intro: calm_fail_put split: option.splits prod.splits)

lemma resolved_job_fields [simp]:
  "job_id (resolved_job now cl mode m j) = job_id j" "job_attempts (resolved_job now cl mode m j) = job_attempts j"
  "attempt_window (resolved_job now cl mode m j) = attempt_window j" "job_deadline (resolved_job now cl mode m j) = Some (now + total_budget cl)"
  by (simp_all add: resolved_job_def)

lemma calm_resolve_conversation: "calm {conversation_id m} s (resolve_conversation now cl mode m s)"
proof (cases "conversation (conversation_id m) s")
  case None
  then show ?thesis
    by (auto simp: resolve_conversation_def add_job_def empty_job_def intro!: calm_jobs jobs_step_add job_ok_fresh)
next
  case (Some j)
  have "job_step {conversation_id m} j (resolved_job now cl mode m (j\<lparr>attempt_window := attempt_window j + 1\<rparr>))"
    using conversation_id_of [OF Some] by (intro reopened_step) simp_all
  then show ?thesis using Some calm_put by (simp add: resolve_conversation_def)
qed

lemma calm_resolve: "calm (human_opens (Resolve now n cl mode) s) s (snd (resolve_input now n cl mode s))"
proof (cases "routed_source n s")
  case (Some m)
  let ?t = "resolve_conversation now cl (mode_or_default mode) m (drop_routes n s)"
  have "calm {conversation_id m} s (drop_routes n s)" by (rule calm_same) simp_all
  then have t: "calm {conversation_id m} s ?t" using calm_resolve_conversation calm_trans by blast
  then have "calm {conversation_id m} s (?t\<lparr>sc_resolutions := rs\<rparr>)" for rs
    by (rule calm_trans) (rule calm_same, simp_all)
  then show ?thesis using Some by (simp add: resolve_input_def Let_def)
qed (simp add: resolve_input_def)

lemma calm_cancel_route: "calm {} s (snd (cancel_pending_route n s))"
  by (simp add: cancel_pending_route_def calm_same)

lemma calm_promoted: "calm {} s (promoted_to_work n now c s)"
proof (cases "conversation c s")
  case (Some j)
  have "calm {} s (put_job ((decided j)\<lparr>promoted_sequence := n, job_updated_at := now\<rparr>) s)"
    by (rule calm_put [OF Some]) (rule decided_step, simp_all add: decided_def job_kept_def)
  then have "calm {} s (drop_routes q (put_job ((decided j)\<lparr>promoted_sequence := n, job_updated_at := now\<rparr>) s))" for q
    by (rule calm_trans) (rule calm_same, simp_all)
  then show ?thesis using Some by (simp add: promoted_to_work_def)
qed (simp add: promoted_to_work_def)

lemma calm_follow_up: "calm {c} s (snd (follow_up_conversation io now c text s))"
proof (cases "conversation c s")
  case (Some j)
  let ?m = "conversation_message now User MessageText c text s"
  obtain r t where p: "post io ?m s = (r, t)" by fastforce
  have t: "calm {c} s t" by (rule post_calm [OF p]) (simp_all add: conversation_message_def is_answer_def)
  let ?t = "drop_routes (job_source_sequence j) t"
  have "conversation c ?t = Some j" using post_fields [OF p] Some by (simp add: conversation_def)
  moreover have "job_step {c} j (followed_up now n j)" for n
    using conversation_id_of [OF Some] by (intro reopened_step) (simp_all add: followed_up_def reopened_def)
  ultimately have "calm {c} ?t (put_job (followed_up now n j) ?t)" for n using calm_put by blast
  moreover have "calm {c} t ?t" by (rule calm_same) simp_all
  ultimately have "calm {c} s (put_job (followed_up now n j) ?t)" for n using t calm_trans by metis
  then show ?thesis using t p Some by (simp add: follow_up_conversation_def split: option.splits)
qed (simp add: follow_up_conversation_def)

lemma reopened_fields [simp]:
  "job_id (forget_failure (reopened now j)) = job_id j" "job_attempts (forget_failure (reopened now j)) = job_attempts j"
  "attempt_window (forget_failure (reopened now j)) = attempt_window j + 1"
  "job_deadline (forget_failure (reopened now j)) = Some (now + total_budget (job_class j))"
  by (simp_all add: forget_failure_def reopened_def)

lemma calm_cancel: "calm {} s (snd (cancel_conversation now c s))"
  unfolding cancel_conversation_def by (rule calm_on_job) (auto split: if_splits intro: cancelled_job_step)

lemma calm_retry: "calm {c} s (snd (retry_conversation now c s))"
  unfolding retry_conversation_def by (rule calm_on_job) (auto split: if_splits intro!: reopened_step)

lemma calm_keep: "calm {c} s (snd (keep_waiting now c s))"
  unfolding keep_waiting_def by (rule calm_on_job) (auto split: if_splits intro!: reopened_step)

lemma human_event_calm: "calm (human_opens e s) s (human_step e s)"
proof (cases e)
  case Start
  then show ?thesis using calm_start by simp
next
  case Resolve
  then show ?thesis using calm_resolve by simp
qed (simp_all add: calm_cancel calm_retry calm_keep calm_dismiss calm_dismiss_all calm_pend calm_start_unsaved
    calm_cancel_route calm_promoted calm_follow_up)


section \<open>The website's operations\<close>

fun website_opens :: "website_event \<Rightarrow> string set" where
  "website_opens (Publish io c now) = (case io_job_ids io of None \<Rightarrow> {} | Some ids \<Rightarrow> set ids)"
| "website_opens e = {}"

lemma reply_job_ids: "job_id ` set (reply_jobs m now ids) \<subseteq> set ids"
  by (auto simp: reply_jobs_def reply_job_def started_job_def dest: set_zip_leftD)

lemma reply_jobs_ok: "j \<in> set (reply_jobs m now ids) \<Longrightarrow> job_ok j"
  by (auto simp: reply_jobs_def reply_job_def started_job_def empty_job_def intro!: job_ok_fresh)

lemma calm_add_publication: "calm (set ids) s (add_publication (published_message mid c now s) now ids s)"
proof -
  let ?m = "published_message mid c now s"
  let ?t = "add_publication ?m now ids s"
  have "jobs_step (set ids) (jobs s) (jobs ?t)"
    using reply_job_ids [of ?m now ids] reply_jobs_ok
    by (auto simp: add_publication_def Let_def intro!: jobs_step_adds)
  then have "evolves (set ids) [?m] s ?t" by (simp add: evolves_def add_publication_def Let_def published_message_def)
  moreover have "silent [?m]" by (simp add: silent_def is_answer_def published_message_def)
  ultimately show ?thesis unfolding calm_def by blast
qed

lemma calm_publish: "calm (website_opens (Publish io c now)) s (snd (publish_contribution io c now s))"
  using calm_add_publication
  by (auto simp: publish_contribution_def publish_normalized_def Let_def split: option.splits sum.splits)

lemma calm_fail_unsaved: "calm {} s (fail_unsaved s c)"
  by (auto simp: fail_unsaved_def unsaved_job_def job_kept_def terminal_def conversation_terminal_def
      intro!: calm_put job_kept_step split: option.split)

lemma calm_publication_saved: "calm A s (publication_saved ids s)"
  by (rule calm_same) (simp_all add: publication_saved_def)

lemma calm_publication_unsaved: "calm {} s (publication_unsaved ids s)"
  unfolding publication_unsaved_def
  using calm_publication_saved calm_foldl [of "{}" fail_unsaved] calm_fail_unsaved calm_trans by blast

lemma calm_cancel_reviews [simp]: "calm A s (cancel_reviews reason s)"
  by (rule calm_same) (simp_all add: cancel_reviews_def)

lemma calm_update_state: "calm {} s (update_chatgpt_state st now s)"
proof -
  have a: "calm {} s (s\<lparr>sc_chatgpt := x\<rparr>)" for x by (rule calm_same) simp_all
  have "calm {} s (cancel_chatgpt r now (cancel_reviews why (s\<lparr>sc_chatgpt := x\<rparr>)))" for r why x
    by (rule calm_trans [OF calm_trans [OF a calm_cancel_reviews] calm_cancel_chatgpt])
  with a show ?thesis by (simp add: update_chatgpt_state_def Let_def)
qed

lemma calm_leave: "calm {} s (end_chatgpt_participation reason now s)"
proof -
  have "calm {} s (s\<lparr>sc_chatgpt := x\<rparr>)" for x by (rule calm_same) simp_all
  then show ?thesis
    unfolding end_chatgpt_participation_def
    by (rule calm_trans [OF calm_trans [OF _ calm_cancel_chatgpt] calm_cancel_reviews])
qed

lemma calm_set_run: "calm A s (set_run run s)"
  by (rule calm_same) (simp_all add: set_run_def)

lemma website_event_calm: "calm (website_opens e) s (website_step e s)"
proof (cases e)
  case Publish
  then show ?thesis using calm_publish by simp
next
  case (Refresh saved now)
  then show ?thesis
    by (auto simp: refresh_coordination_def with_coord_def Let_def intro: calm_same split: prod.split option.split)
next
  case (Advance now parent)
  then show ?thesis
    using calm_set_run by (auto simp: advance_continuation_def split: option.split review_step.split)
next
  case (Review_Posted posted parent)
  then show ?thesis using calm_set_run by (auto simp: review_posted_def split: option.split)
next
  case Resume_Website
  then show ?thesis by (simp add: resume_chatgpt_def calm_same)
qed (simp_all add: calm_update_state calm_leave calm_publication_saved calm_publication_unsaved)

section \<open>Runs\<close>

fun opens :: "event \<Rightarrow> scheduler \<Rightarrow> string set" where
  "opens (Scheduling e) s = {}"
| "opens (Human e) s = human_opens e s"
| "opens (Website e) s = website_opens e"

lemma event_facts:
  "calm (opens e s) s (event_step e s) \<or> (opens e s = {} \<and> (\<exists>c. answer_step c s (event_step e s)))"
  using scheduler_event_facts human_event_calm website_event_calm by (cases e) auto

definition answers :: "string \<Rightarrow> scheduler \<Rightarrow> nat" where
  "answers c s = length (filter (is_answer c) (sc_messages s))"

text \<open>How often a run may open a conversation.\<close>

fun openings :: "string \<Rightarrow> event list \<Rightarrow> scheduler \<Rightarrow> nat" where
  "openings c [] s = 0"
| "openings c (e # es) s = of_bool (c \<in> opens e s) + openings c es (event_step e s)"

lemma find_nth_less:
  "find p xs = Some x \<Longrightarrow> \<exists>i<length xs. xs ! i = x \<and> p x \<and> (\<forall>k<i. \<not> p (xs ! k))"
  by (auto simp: find_Some_iff)

lemma jobs_step_open:
  assumes "jobs_step A (jobs s) (jobs t)" "open_job c t"
  shows "open_job c s \<or> c \<in> A"
proof -
  obtain k where k: "conversation c t = Some k" "\<not> terminal k"
    using assms(2) by (auto simp: open_job_def split: option.splits)
  then obtain i where i: "i < length (jobs t)" "jobs t ! i = k" "job_id k = c" "\<forall>l<i. job_id (jobs t ! l) \<noteq> c"
    unfolding conversation_def by (auto dest!: find_nth_less)
  show ?thesis
  proof (cases "i < length (jobs s)")
    case True
    have ids: "job_id (jobs s ! l) = job_id (jobs t ! l)" if "l < length (jobs s)" for l
      using assms(1) that by (simp add: jobs_step_def job_step_def)
    have "conversation c s = Some (jobs s ! i)"
      using i True ids unfolding conversation_def by (auto simp: find_Some_iff intro!: exI [of _ i])
    moreover have "job_step A (jobs s ! i) k" using assms(1) True i by (auto simp: jobs_step_def)
    ultimately show ?thesis using k i ids True by (auto simp: open_job_def job_step_def)
  next
    case False
    then have "k \<in> set (drop (length (jobs s)) (jobs t))" using i by (auto simp: in_set_drop)
    then show ?thesis using assms(1) i by (auto simp: jobs_step_def)
  qed
qed

lemma calm_answers: "calm A s t \<Longrightarrow> c \<noteq> '''' \<Longrightarrow> answers c t = answers c s"
  by (auto simp: calm_def evolves_def answers_def silent_def filter_empty_conv)

lemma calm_open: "calm A s t \<Longrightarrow> open_job c t \<Longrightarrow> open_job c s \<or> c \<in> A"
  unfolding calm_def evolves_def using jobs_step_open by blast

lemma event_answers:
  assumes "c \<noteq> ''''"
  shows "answers c (event_step e s) + of_bool (open_job c (event_step e s))
         \<le> answers c s + of_bool (open_job c s) + of_bool (c \<in> opens e s)"
proof -
  consider "calm (opens e s) s (event_step e s)" | d where "answer_step d s (event_step e s)"
    using event_facts by blast
  then show ?thesis
  proof cases
    case 1
    then show ?thesis using calm_answers [OF 1 assms] calm_open [OF 1, of c] by auto
  next
    case 2
    let ?t = "event_step e s"
    obtain m where m: "open_job d s" "\<not> open_job d ?t" "conversation_id m = d" "evolves {} [m] s ?t"
      using 2 by (auto simp: answer_step_def)
    have keep: "open_job c ?t \<Longrightarrow> open_job c s" using m(4) jobs_step_open [of "{}"] by (auto simp: evolves_def)
    have "answers c ?t = answers c s + of_bool (is_answer c m)" using m(4) by (simp add: evolves_def answers_def)
    then show ?thesis using m keep by (auto simp: is_answer_def)
  qed
qed

end
