(* ===== verification/Conversation_Safety.thy ===== *)
theory Conversation_Safety
  imports Conversation_Runs
begin

text \<open>
  The properties of the conversations of a room, over the runs of \<open>Conversation_Runs\<close> and for one
  pass of the scheduler: answers, form, deadlines, capacity, temporary responders, and the
  publications of the website.
\<close>

section \<open>Answers and form over runs\<close>

lemma run_events_simps [simp]:
  "run_events [] s = s" "run_events (e # es) s = run_events es (event_step e s)"
  by (simp_all add: run_events_def)

lemma run_answers:
  "c \<noteq> '''' \<Longrightarrow> answers c (run_events es s) + of_bool (open_job c (run_events es s))
     \<le> answers c s + of_bool (open_job c s) + openings c es s"
proof (induction es arbitrary: s)
  case (Cons e es)
  have "answers c (run_events es (event_step e s)) + of_bool (open_job c (run_events es (event_step e s)))
      \<le> answers c (event_step e s) + of_bool (open_job c (event_step e s)) + openings c es (event_step e s)"
    using Cons by simp
  then show ?case using event_answers [OF Cons.prems, of e s] unfolding run_events_simps openings.simps by linarith
qed simp

definition transcript_ok :: "scheduler \<Rightarrow> bool" where
  "transcript_ok s \<longleftrightarrow>
     sorted_wrt (<) (map sequence (sc_messages s)) \<and> (\<forall>m\<in>set (sc_messages s). sequence m < sc_next s)"

definition formed :: "scheduler \<Rightarrow> bool" where
  "formed s \<longleftrightarrow> list_all job_ok (jobs s) \<and> transcript_ok s"

lemma jobs_step_formed:
  assumes "jobs_step A js ks" "list_all job_ok js" shows "list_all job_ok ks"
  unfolding list_all_length
proof (intro allI impI)
  fix i assume i: "i < length ks"
  show "job_ok (ks ! i)"
  proof (cases "i < length js")
    case True
    then show ?thesis using assms by (auto simp: jobs_step_def job_step_def list_all_length)
  next
    case False
    then have "ks ! i \<in> set (drop (length js) ks)" using i by (auto simp: in_set_drop)
    then show ?thesis using assms by (auto simp: jobs_step_def)
  qed
qed

lemma evolves_transcript:
  assumes "evolves A ms s t" "transcript_ok s" shows "transcript_ok t"
proof -
  have m: "map sequence (sc_messages t) = map sequence (sc_messages s) @ [sc_next s..<sc_next t]" "sc_next s \<le> sc_next t"
    using assms(1) by (simp_all add: evolves_def)
  have "sequence m < sc_next t" if "m \<in> set (sc_messages t)" for m
  proof -
    have "sequence m \<in> set (map sequence (sc_messages t))" using that by simp
    then have "sequence m \<in> set (map sequence (sc_messages s)) \<or> sequence m < sc_next t" unfolding m(1) by auto
    then show ?thesis using assms(2) m(2) by (auto simp: transcript_ok_def)
  qed
  moreover have "sorted_wrt (<) (map sequence (sc_messages t))"
    unfolding m(1) using assms(2) by (auto simp: transcript_ok_def sorted_wrt_append)
  ultimately show ?thesis by (simp add: transcript_ok_def)
qed

lemma event_evolves: "\<exists>A ms. evolves A ms s (event_step e s)"
  using event_facts [of e s] by (auto simp: calm_def answer_step_def)

lemma event_formed: "formed s \<Longrightarrow> formed (event_step e s)"
proof -
  assume f: "formed s"
  obtain A ms where ev: "evolves A ms s (event_step e s)" using event_evolves by blast
  then have "jobs_step A (jobs s) (jobs (event_step e s))" by (simp add: evolves_def)
  then show ?thesis using f evolves_transcript [OF ev] jobs_step_formed by (auto simp: formed_def)
qed

lemma run_formed: "formed s \<Longrightarrow> formed (run_events es s)"
  unfolding run_events_def by (erule foldl_keeps) (rule event_formed)

lemma run_extends: "\<exists>ms. sc_messages (run_events es s) = sc_messages s @ ms"
proof (induction es arbitrary: s)
  case (Cons e es)
  obtain A ms where "evolves A ms s (event_step e s)" using event_evolves by blast
  then show ?case using Cons [of "event_step e s"] by (auto simp: evolves_def)
qed simp


section \<open>Naming a temporary responder\<close>

lemma itoa_inj: "0 \<le> a \<Longrightarrow> 0 \<le> b \<Longrightarrow> itoa a = itoa b \<Longrightarrow> a = b"
  by (metis (no_types) digits_val_show itoa_def nat_eq_iff2 not_less)

lemma itoa_int_inj: "itoa (int a) = itoa (int b) \<Longrightarrow> a = b"
  using itoa_inj [of "int a" "int b"] by simp

lemma some_name_free:
  assumes "is_primary_agent pr"
  shows "\<exists>i\<in>set [1..<length (agents h) + 2]. auxiliary_name pr i \<notin> set (agents h)"
proof (rule ccontr)
  let ?n = "length (agents h)"
  assume "\<not> ?thesis"
  then have "auxiliary_name pr ` {1..<?n + 2} \<subseteq> set (agents h)" unfolding set_upt by blast
  moreover have "inj_on (auxiliary_name pr) {1..<?n + 2}"
    by (auto simp: inj_on_def auxiliary_name_primary [OF assms] dest: itoa_int_inj)
  then have "card (auxiliary_name pr ` {1..<?n + 2}) = ?n + 1" by (simp add: card_image)
  ultimately have "?n + 1 \<le> card (set (agents h))" by (metis List.finite_set card_mono)
  then show False using card_length [of "agents h"] by simp
qed

lemma find_upt_least:
  assumes "find P [a..<b] = Some i" shows "a \<le> i \<and> i < b \<and> P i \<and> (\<forall>k. a \<le> k \<and> k < i \<longrightarrow> \<not> P k)"
proof -
  obtain n where n: "n < b - a" "i = a + n" "P i" "\<forall>m<n. \<not> P (a + m)"
    using assms by (auto simp: find_Some_iff)
  have "\<not> P k" if "a \<le> k" "k < i" for k using n that by (metis add_diff_inverse_nat add_less_cancel_left not_less)
  then show ?thesis using n by auto
qed

section \<open>Capacity\<close>

definition answering :: "conversation_job \<Rightarrow> bool" where
  "answering j \<longleftrightarrow> job_state j = ConversationAnswering \<or> job_state j = ConversationRetrying"

text \<open>The calls of a provider: the running ones, and the assigned conversations whose call has not begun.\<close>

definition provider_load :: "participant \<Rightarrow> core_host \<Rightarrow> nat" where
  "provider_load pr h =
     length (filter (\<lambda>q. provider q = pr) (active_calls h)) +
     length (filter (\<lambda>j. provider (assigned j) = pr \<and> answering j \<and> assigned j \<notin> set (active_calls h))
               (room_conversations (room h)))"

definition within_capacity :: "participant \<Rightarrow> core_host \<Rightarrow> bool" where
  "within_capacity pr h \<longleftrightarrow> int (provider_load pr h) \<le> provider_capacity h pr"

lemma eligible_room:
  assumes "eligible (provider_eligibility_of h p now opts)" "\<not> ignore_saturation opts"
  shows "int (provider_calls h (provider p) (option_conversation opts)) < provider_capacity h (provider p) \<and>
         p \<notin> set (active_calls h)"
  using assms by (auto simp: provider_eligibility_of_def ineligible_def Let_def split: option.splits if_splits)

lemma provider_calls_load:
  assumes "\<forall>j\<in>set (room_conversations (room h)). job_id j = c \<longrightarrow> \<not> answering j"
  shows "provider_calls h pr c = provider_load pr h"
proof -
  have "filter (\<lambda>j. job_id j \<noteq> c \<and> provider (assigned j) = pr \<and> answering j \<and> assigned j \<notin> set (active_calls h))
          (room_conversations (room h)) =
        filter (\<lambda>j. provider (assigned j) = pr \<and> answering j \<and> assigned j \<notin> set (active_calls h))
          (room_conversations (room h))"
    using assms by (intro filter_cong) auto
  then show ?thesis by (simp add: provider_calls_def provider_load_def answering_def)
qed

lemma length_filter_update:
  "i < length xs \<Longrightarrow> \<not> P (xs ! i) \<Longrightarrow> length (filter P (xs[i := x])) = length (filter P xs) + of_bool (P x)"
proof (induction xs arbitrary: i)
  case (Cons y ys)
  then show ?case by (cases i) auto
qed simp

lemma add_temporary_fields [simp]:
  "active_calls (add_temporary p c h) = active_calls h" "concurrency (add_temporary p c h) = concurrency h"
  "agents (add_temporary p c h) = p # agents h" "temporary_for (add_temporary p c h) = put p c (temporary_for h)"
  by (simp_all add: add_temporary_def)

lemma capacity_add: "provider_capacity h pr \<le> provider_capacity (add_temporary p c h) pr"
  by (auto simp: provider_capacity_def Let_def split: option.splits)

lemma load_add [simp]: "provider_load pr (add_temporary p c h) = provider_load pr h"
  by (simp add: provider_load_def)


lemma pick_eligible_eligible:
  "pick_eligible h j now ps r = (Some p, x) \<Longrightarrow> eligible (provider_eligibility_of h p now (for_conversation (job_id j)))"
  by (induction h j now ps r rule: pick_eligible.induct) (auto simp: Let_def split: if_splits)

lemma pick_temporary_eligible:
  "pick_temporary created h j now ps r = (Some p, x) \<Longrightarrow>
   \<exists>pr. is_primary_agent pr \<and> next_temporary pr h = Some p \<and> \<not> provider_has_temporary pr h \<and>
     eligible (provider_eligibility_of h pr now ((for_conversation (job_id j))\<lparr>temporary_runtime := True\<rparr>))"
  by (induction created h j now ps r rule: pick_temporary.induct)
    (auto simp: Let_def split: if_splits option.splits)

lemma conversation_options [simp]:
  "\<not> ignore_saturation (for_conversation c)" "option_conversation (for_conversation c) = c"
  "\<not> ignore_saturation ((for_conversation c)\<lparr>temporary_runtime := b\<rparr>)"
  "option_conversation ((for_conversation c)\<lparr>temporary_runtime := b\<rparr>) = c"
  by (simp_all add: for_conversation_def plain_options_def)

lemma select_responder_core:
  assumes "select_responder created now j s = (c, t)"
  shows "core_state t = core_state s \<or>
    (\<exists>p. core_state t = add_temporary p (job_id j) (core_state s) \<and> responder c = Some p \<and>
       int (length (temporary_for (core_state s))) < temporary_limit s \<and>
       (\<exists>pr. is_primary_agent pr \<and> next_temporary pr (core_state s) = Some p \<and>
          \<not> provider_has_temporary pr (core_state s)))"
proof -
  let ?h = "core_state s"
  obtain f r where f: "pick_eligible ?h j now (candidates s j now) ''no eligible provider is currently available'' = (f, r)"
    by fastforce
  obtain g x where g: "pick_temporary created ?h j now (the (temporary_factory s)) r = (g, x)" by fastforce
  show ?thesis
  proof (cases "f = None \<and> g \<noteq> None \<and> \<not> (chatgpt_conversation s j \<or> temporary_factory s = None \<or>
      temporary_limit s \<le> 0 \<or> int (length (temporary_for ?h)) \<ge> temporary_limit s)")
    case True
    then obtain p where p: "g = Some p" by blast
    then have "core_state t = add_temporary p (job_id j) ?h" "responder c = Some p"
      using assms f g True by (auto simp: select_responder_def Let_def)
    then show ?thesis using pick_temporary_eligible g p True by force
  next
    case False
    then show ?thesis using assms f g
      by (auto simp: select_responder_def Let_def split: option.splits if_splits)
  qed
qed

lemma select_responder_room:
  assumes "select_responder created now j s = (c, t)" "chosen c = Some p"
  shows "int (provider_calls (core_state s) (provider p) (job_id j)) < provider_capacity (core_state s) (provider p)"
proof -
  let ?h = "core_state s"
  obtain f r where f: "pick_eligible ?h j now (candidates s j now) ''no eligible provider is currently available'' = (f, r)"
    by fastforce
  have c: "responder c = Some p" "valid_agent p" using assms(2) by (auto simp: chosen_def split: option.splits if_splits)
  show ?thesis
  proof (cases f)
    case (Some q)
    then have "p = q" using assms f c by (auto simp: select_responder_def Let_def)
    then show ?thesis using eligible_room [OF pick_eligible_eligible] f Some by fastforce
  next
    case None
    obtain g x where g: "pick_temporary created ?h j now (the (temporary_factory s)) r = (g, x)" by fastforce
    then have "g = Some p"
      using assms f None c by (auto simp: select_responder_def Let_def split: if_splits option.splits)
    then obtain pr where pr: "is_primary_agent pr" "next_temporary pr ?h = Some p"
      "eligible (provider_eligibility_of ?h pr now ((for_conversation (job_id j))\<lparr>temporary_runtime := True\<rparr>))"
      using pick_temporary_eligible g by blast
    obtain i where "0 < i" "p = auxiliary_name pr i" using next_temporary_name [OF pr(2)] .
    then have "provider p = pr" using temporary_provider [OF pr(1)] c(2) auxiliary_name_primary [OF pr(1)] by auto
    moreover have "provider pr = pr" using pr(1) by (simp add: is_primary_agent_def)
    ultimately show ?thesis using eligible_room [OF pr(3)] by simp
  qed
qed

lemma load_update:
  assumes "i < length js" "\<not> answering (js ! i)" "room_conversations (room h') = js[i := k]"
    "room_conversations (room h) = js" "active_calls h' = active_calls h"
  shows "provider_load pr h' = provider_load pr h +
           of_bool (provider (assigned k) = pr \<and> answering k \<and> assigned k \<notin> set (active_calls h))"
  using assms by (simp add: provider_load_def length_filter_update)

lemma answering_assign [simp]: "answering (assign_job now p temp j)"
  by (simp add: answering_def assign_job_def Let_def)

lemma not_answering_waiting: "\<not> answering j \<Longrightarrow> \<not> answering (waiting_job n r now j)"
  by (auto simp: answering_def waiting_job_def)

definition launches_fit :: "launch list \<Rightarrow> scheduler \<Rightarrow> bool" where
  "launches_fit ls s \<longleftrightarrow> (\<forall>l\<in>set ls. within_capacity (provider (launch_participant l)) (core_state s))"

lemma core_set_jobs [simp]:
  "active_calls (core_state (set_jobs js s)) = active_calls (core_state s)"
  "provider_capacity (core_state (set_jobs js s)) = provider_capacity (core_state s)"
  "temporary_for (core_state (set_jobs js s)) = temporary_for (core_state s)"
  "agents (core_state (set_jobs js s)) = agents (core_state s)"
  by (simp_all add: set_jobs_def provider_capacity_def fun_eq_iff split: option.split)

lemma schedule_job_fits:
  assumes "schedule_job created now (n, ls, s) i = (n', ls', t)" "i < length (jobs s)"
    "distinct (map job_id (jobs s))" "launches_fit ls s"
  shows "launches_fit ls' t"
proof (cases "schedulable s (jobs s ! i)")
  case False
  then show ?thesis using assms by (simp add: schedule_job_def Let_def)
next
  case True
  let ?j = "jobs s ! i"
  have na: "\<not> answering ?j" using True by (simp add: schedulable_def answering_def)
  obtain c u where c: "select_responder created now ?j s = (c, u)" by fastforce
  have u: "jobs u = jobs s" using select_responder_jobs [OF c] by simp
  have cap: "active_calls (core_state u) = active_calls (core_state s)"
    "\<And>pr. provider_capacity (core_state s) pr \<le> provider_capacity (core_state u) pr"
    "\<And>pr. provider_load pr (core_state u) = provider_load pr (core_state s)"
    using select_responder_core [OF c] capacity_add by auto
  have keep: "within_capacity pr (core_state (set_jobs ((jobs u)[i := k]) u))"
    if "within_capacity pr (core_state s)" "\<not> (provider (assigned k) = pr \<and> answering k)" for pr k
  proof -
    have "provider_load pr (core_state (set_jobs ((jobs u)[i := k]) u)) = provider_load pr (core_state u)"
      using load_update [of i "jobs u" "core_state (set_jobs ((jobs u)[i := k]) u)" k "core_state u" pr] assms(2) na u that(2)
      by auto
    then show ?thesis using that(1) cap(2) [of pr] cap(3) by (simp add: within_capacity_def)
  qed
  show ?thesis
  proof (cases "chosen c")
    case None
    have "t = set_jobs ((jobs u)[i := waiting_job (n + 1) (wait_text c) now ?j]) u" "ls' = ls"
      using assms(1) True c None by (auto simp: schedule_job_def Let_def)
    then show ?thesis using assms(4) keep not_answering_waiting [OF na] by (simp add: launches_fit_def)
  next
    case (Some p)
    let ?k = "assign_job now p (is_temporary c) ?j"
    have t: "t = set_jobs ((jobs u)[i := ?k]) u" and ls: "\<exists>l. ls' = ls @ [l] \<and> launch_participant l = p"
      using assms(1) True c Some by (auto simp: schedule_job_def Let_def)
    have new: "within_capacity (provider p) (core_state t)"
    proof -
      have "\<forall>j\<in>set (jobs s). job_id j = job_id ?j \<longrightarrow> \<not> answering j"
        using assms(2,3) na by (metis distinct_map inj_onD nth_mem)
      then have "provider_calls (core_state s) (provider p) (job_id ?j) = provider_load (provider p) (core_state s)"
        by (rule provider_calls_load)
      then have "int (provider_load (provider p) (core_state u)) < provider_capacity (core_state u) (provider p)"
        using select_responder_room [OF c Some] cap(2) [of "provider p"] cap(3) by simp
      moreover have "provider_load (provider p) (core_state t) \<le> provider_load (provider p) (core_state u) + 1"
        using load_update [of i "jobs u" "core_state t" ?k "core_state u" "provider p"] assms(2) na u t by simp
      ultimately show ?thesis by (simp add: within_capacity_def t)
    qed
    have "within_capacity pr (core_state t)" if "within_capacity pr (core_state s)" for pr
      using new keep [OF that, of ?k] t by (cases "pr = provider p") auto
    then show ?thesis using assms(4) ls new by (auto simp: launches_fit_def)
  qed
qed


lemma jobs_step_ids: "jobs_step {} js ks \<Longrightarrow> map job_id ks = map job_id js"
  by (auto simp: jobs_step_def job_step_def list_eq_iff_nth_eq)

lemma calm_ids: "calm {} s t \<Longrightarrow> map job_id (jobs t) = map job_id (jobs s)"
  by (auto simp: calm_def evolves_def dest: jobs_step_ids)

lemma assign_loop:
  assumes "punctual now s" "P 0 [] s"
    and step: "\<And>m ls t i m' ls' t'. P i ls t \<Longrightarrow> calm {} s t \<Longrightarrow> punctual now t \<Longrightarrow> length (jobs t) = length (jobs s) \<Longrightarrow>
        i < length (jobs s) \<Longrightarrow> schedule_job created now (m, ls, t) i = (m', ls', t') \<Longrightarrow> P (Suc i) ls' t'"
  shows "P (length (jobs s)) (fst (assign_jobs created now s)) (snd (assign_jobs created now s))"
proof -
  have all: "\<exists>m ls t. foldl (schedule_job created now) (0, [], s) [0..<n] = (m, ls, t) \<and> P n ls t \<and> calm {} s t \<and>
      punctual now t \<and> length (jobs t) = length (jobs s)" if "n \<le> length (jobs s)" for n
    using that
  proof (induction n)
    case (Suc n)
    then obtain m ls t where t: "foldl (schedule_job created now) (0, [], s) [0..<n] = (m, ls, t)" "P n ls t" "calm {} s t"
      "punctual now t" "length (jobs t) = length (jobs s)" by (meson Suc_leD)
    obtain m' ls' t' where t': "schedule_job created now (m, ls, t) n = (m', ls', t')" by (metis prod_cases3)
    have "P (Suc n) ls' t'" using step [OF t(2-5) _ t'] Suc.prems by simp
    moreover have "calm {} t t' \<and> punctual now t' \<and> length (jobs t') = length (jobs t)"
      using schedule_job_calm [OF t(4) t'] t(5) Suc by simp
    ultimately show ?case using t t' calm_trans by fastforce
  qed (use assms in simp)
  show ?thesis using all [of "length (jobs s)"] by (auto simp: assign_jobs_def)
qed

text \<open>The state in which a pass begins to assign.\<close>

definition before_assigning :: "pass_io \<Rightarrow> scheduler \<Rightarrow> scheduler" where
  "before_assigning io s =
     retire_temporaries (pass_now io) (expire_jobs (pass_append io) (pass_now io)
       (expire_grant (pass_now io) (expire_lease (pass_now io) s)))"

lemma pass_assigns:
  "schedule_conversations io s =
     (if sc_closed s \<or> \<not> sc_routing s then ([], s) else assign_jobs (pass_created io) (pass_now io) (before_assigning io s))"
  by (simp add: schedule_conversations_def before_assigning_def Let_def)

lemma before_assigning_calm: "calm {} s (before_assigning io s)" "punctual (pass_now io) (before_assigning io s)"
proof -
  have "calm {} s (expire_grant (pass_now io) (expire_lease (pass_now io) s))"
    by (rule calm_trans [OF calm_expire_lease calm_expire_grant])
  then show "calm {} s (before_assigning io s)" unfolding before_assigning_def
    by (rule calm_trans [OF calm_trans [OF _ calm_expire_jobs] calm_retire_temporaries])
  show "punctual (pass_now io) (before_assigning io s)"
    unfolding before_assigning_def by (intro punctual_retire punctual_expire)
qed

lemma pass_fits:
  assumes "schedule_conversations io s = (ls, t)" "distinct (map job_id (jobs s))"
  shows "launches_fit ls t"
proof (cases "sc_closed s \<or> \<not> sc_routing s")
  case False
  let ?b = "before_assigning io s"
  have ids: "map job_id (jobs ?b) = map job_id (jobs s)" using before_assigning_calm(1) by (rule calm_ids)
  let ?P = "\<lambda>i ls t. launches_fit ls t"
  have "?P (length (jobs ?b)) (fst (assign_jobs (pass_created io) (pass_now io) ?b)) (snd (assign_jobs (pass_created io) (pass_now io) ?b))"
  proof (rule assign_loop [OF before_assigning_calm(2), where P = ?P])
    fix m ls t i m' ls' t'
    assume t: "launches_fit ls t" "calm {} ?b t" "i < length (jobs ?b)" "length (jobs t) = length (jobs ?b)"
      "schedule_job (pass_created io) (pass_now io) (m, ls, t) i = (m', ls', t')"
    have "distinct (map job_id (jobs t))" using calm_ids [OF t(2)] ids assms(2) by simp
    then show "launches_fit ls' t'" using schedule_job_fits [OF t(5)] t by simp
  qed (simp add: launches_fit_def)
  then show ?thesis using assms(1) False by (simp add: pass_assigns)
qed (use assms in \<open>auto simp: pass_assigns launches_fit_def\<close>)


section \<open>Temporary responders\<close>

definition one_per_provider :: "(participant \<times> string) list \<Rightarrow> bool" where
  "one_per_provider ts \<longleftrightarrow> distinct (map (\<lambda>x. provider (fst x)) ts)"

definition temporaries :: "scheduler \<Rightarrow> (participant \<times> string) list" where
  "temporaries s = temporary_for (core_state s)"

lemma one_per_filter: "one_per_provider ts \<Longrightarrow> one_per_provider (filter p ts)"
  by (induction ts) (auto simp: one_per_provider_def)

lemma retire_temporaries_fewer:
  "one_per_provider (temporaries s) \<Longrightarrow>
     one_per_provider (temporaries (retire_temporaries now s)) \<and>
     length (temporaries (retire_temporaries now s)) \<le> length (temporaries s) \<and>
     length (agents (core_state (retire_temporaries now s))) \<le> length (agents (core_state s)) \<and>
     temporary_limit (retire_temporaries now s) = temporary_limit s"
proof -
  have step: "(one_per_provider (temporaries t) \<longrightarrow> one_per_provider (temporaries (retire_temporary now t pc))) \<and>
      length (temporaries (retire_temporary now t pc)) \<le> length (temporaries t) \<and>
      length (agents (core_state (retire_temporary now t pc))) \<le> length (agents (core_state t)) \<and>
      temporary_limit (retire_temporary now t pc) = temporary_limit t" for t pc
    by (auto simp: retire_temporary_def temporaries_def put_job_def drop_agent_def remove_key_def one_per_filter
        set_jobs_def split: option.split)
  have "one_per_provider (temporaries s) \<Longrightarrow>
     one_per_provider (temporaries (foldl (retire_temporary now) s xs)) \<and>
     length (temporaries (foldl (retire_temporary now) s xs)) \<le> length (temporaries s) \<and>
     length (agents (core_state (foldl (retire_temporary now) s xs))) \<le> length (agents (core_state s)) \<and>
     temporary_limit (foldl (retire_temporary now) s xs) = temporary_limit s" for xs
    by (rule foldl_keeps) (use step le_trans in \<open>auto, blast+\<close>)
  then show "one_per_provider (temporaries s) \<Longrightarrow> ?thesis" by (simp add: retire_temporaries_def)
qed

lemma fail_conversation_core:
  "core_state (snd (fail_conversation io reason line now j s)) = core_state s"
  "temporary_limit (snd (fail_conversation io reason line now j s)) = temporary_limit s"
  by (auto simp: fail_conversation_def Let_def drop_routes_def post_def split: option.split sum.split)

lemma expire_core:
  "temporaries (expire_jobs io now (expire_grant now (expire_lease now s))) = temporaries s"
  "agents (core_state (expire_jobs io now (expire_grant now (expire_lease now s)))) = agents (core_state s)"
  "temporary_limit (expire_jobs io now (expire_grant now (expire_lease now s))) = temporary_limit s"
proof -
  let ?same = "\<lambda>t. temporaries t = temporaries s \<and> agents (core_state t) = agents (core_state s) \<and> temporary_limit t = temporary_limit s"
  have job: "?same t \<Longrightarrow> ?same (expire_job io now t i)" for t i
    using fail_conversation_core [of "io (job_id (jobs t ! i))" "''hard response deadline expired''" failureLineTimedOut now "jobs t ! i" t]
    by (auto simp: expire_job_def Let_def temporaries_def set_jobs_def split: prod.split)
  have "?same (expire_grant now (expire_lease now s))"
    by (auto simp: expire_grant_def expire_lease_def cancel_chatgpt_def set_jobs_def temporaries_def split: option.split)
  then have "?same (foldl (expire_job io now) (expire_grant now (expire_lease now s)) is)" for "is"
    by (rule foldl_keeps) (rule job)
  then show "temporaries (expire_jobs io now (expire_grant now (expire_lease now s))) = temporaries s"
    "agents (core_state (expire_jobs io now (expire_grant now (expire_lease now s)))) = agents (core_state s)"
    "temporary_limit (expire_jobs io now (expire_grant now (expire_lease now s))) = temporary_limit s"
    by (auto simp: expire_jobs_def)
qed


lemma next_temporary_index:
  assumes "is_primary_agent pr" "next_temporary pr h = Some p"
  shows "\<exists>i. 1 \<le> i \<and> i \<le> length (agents h) + 1 \<and> p = pr @ ''-'' @ itoa (int i) \<and> p \<notin> set (agents h) \<and>
    (\<forall>k. 1 \<le> k \<and> k < i \<longrightarrow> pr @ ''-'' @ itoa (int k) \<in> set (agents h))"
proof -
  obtain i where i: "find (\<lambda>i. auxiliary_name pr i \<notin> set (agents h)) [1..<length (agents h) + 2] = Some i" "p = auxiliary_name pr i"
    using assms(2) by (auto simp: next_temporary_def simp del: upt_Suc)
  have "1 \<le> i \<and> i < length (agents h) + 2 \<and> p \<notin> set (agents h) \<and> (\<forall>k. 1 \<le> k \<and> k < i \<longrightarrow> auxiliary_name pr k \<in> set (agents h))"
    using find_upt_least [OF i(1)] i(2) by simp
  then show ?thesis
    using i(2) auxiliary_name_primary [OF assms(1)] by (intro exI [of _ i]) (auto simp: less_Suc_eq_le)
qed

lemma next_temporary_provider:
  assumes "is_primary_agent pr" "next_temporary pr h = Some p" "int (length (agents h)) < max_int64"
  shows "provider p = pr"
proof -
  obtain i where "1 \<le> i" "i \<le> length (agents h) + 1" "p = pr @ ''-'' @ itoa (int i)"
    using next_temporary_index [OF assms(1,2)] by blast
  then show ?thesis using provider_aux [of pr "int i"] assms(1,3) is_primary_agent_iff by force
qed

lemma schedule_job_core:
  assumes "schedule_job created now (n, ls, s) i = (n', ls', t)"
  shows "temporary_limit t = temporary_limit s \<and>
    (temporaries t = temporaries s \<and> agents (core_state t) = agents (core_state s) \<or>
     (\<exists>p c pr. temporaries t = put p c (temporaries s) \<and> agents (core_state t) = p # agents (core_state s) \<and>
        int (length (temporaries s)) < temporary_limit s \<and> is_primary_agent pr \<and>
        next_temporary pr (core_state s) = Some p \<and> \<not> provider_has_temporary pr (core_state s)))"
proof -
  obtain c u where c: "select_responder created now (jobs s ! i) s = (c, u)" by fastforce
  have lim: "temporary_limit u = temporary_limit s"
    using c by (auto simp: select_responder_def Let_def split: prod.splits option.splits if_splits)
  have t: "t = s \<or> (\<exists>js. t = set_jobs js u)"
    using assms c by (auto simp: schedule_job_def Let_def split: if_splits option.splits)
  show ?thesis
  proof (cases "t = s")
    case False
    then obtain js where "t = set_jobs js u" using t by blast
    then show ?thesis
      using select_responder_core [OF c] lim by (auto simp: temporaries_def set_jobs_def)
  qed simp
qed

definition few_temporaries :: "nat \<Rightarrow> int \<Rightarrow> nat \<Rightarrow> scheduler \<Rightarrow> bool" where
  "few_temporaries before limit bound s \<longleftrightarrow>
     one_per_provider (temporaries s) \<and> int (length (temporaries s)) \<le> max (int before) limit \<and>
     length (agents (core_state s)) \<le> bound \<and> temporary_limit s = limit"

lemma put_one_per_provider:
  assumes "one_per_provider ts" "\<not> list_ex (\<lambda>x. provider (fst x) = provider p) ts"
  shows "one_per_provider (put p c ts)"
proof -
  have "filter (\<lambda>x. fst x \<noteq> p) ts = ts" using assms(2) by (auto simp: filter_id_conv list_ex_iff)
  then show ?thesis using assms by (auto simp: put_def one_per_provider_def list_ex_iff)
qed

lemma schedule_job_few:
  assumes "schedule_job created now (n, ls, s) i = (n', ls', t)" "few_temporaries b limit k s" "int k < max_int64"
  shows "few_temporaries b limit (Suc k) t"
proof -
  consider "temporaries t = temporaries s" "agents (core_state t) = agents (core_state s)"
    | p c pr where "temporaries t = put p c (temporaries s)" "agents (core_state t) = p # agents (core_state s)"
        "int (length (temporaries s)) < temporary_limit s" "is_primary_agent pr"
        "next_temporary pr (core_state s) = Some p" "\<not> provider_has_temporary pr (core_state s)"
    using schedule_job_core [OF assms(1)] by blast
  then show ?thesis
  proof cases
    case 1
    then show ?thesis using schedule_job_core [OF assms(1)] assms(2) by (simp add: few_temporaries_def)
  next
    case 2
    have "provider p = pr"
      using next_temporary_provider [OF 2(4,5)] assms(2,3) by (simp add: few_temporaries_def)
    then have "one_per_provider (temporaries t)"
      using 2 assms(2) put_one_per_provider by (simp add: few_temporaries_def provider_has_temporary_def temporaries_def)
    moreover have "length (temporaries t) \<le> length (temporaries s) + 1" unfolding 2(1) by (simp add: put_def)
    ultimately show ?thesis
      using 2 schedule_job_core [OF assms(1)] assms(2) by (auto simp: few_temporaries_def)
  qed
qed

lemma pass_few:
  assumes "schedule_conversations io s = (ls, t)" "one_per_provider (temporaries s)"
    "int (length (agents (core_state s)) + length (jobs s)) < max_int64"
  shows "one_per_provider (temporaries t) \<and>
         int (length (temporaries t)) \<le> max (int (length (temporaries s))) (temporary_limit s)"
proof (cases "sc_closed s \<or> \<not> sc_routing s")
  case False
  let ?b = "before_assigning io s" and ?a = "length (agents (core_state s))"
  let ?P = "\<lambda>i ls t. few_temporaries (length (temporaries s)) (temporary_limit s) (?a + i) t"
  have len: "length (jobs ?b) = length (jobs s)" using calm_ids [OF before_assigning_calm(1)] by (metis length_map)
  have "?P (length (jobs ?b)) (fst (assign_jobs (pass_created io) (pass_now io) ?b)) (snd (assign_jobs (pass_created io) (pass_now io) ?b))"
  proof (rule assign_loop [OF before_assigning_calm(2), where P = ?P])
    let ?e = "expire_jobs (pass_append io) (pass_now io) (expire_grant (pass_now io) (expire_lease (pass_now io) s))"
    have e: "temporaries ?e = temporaries s" "agents (core_state ?e) = agents (core_state s)" "temporary_limit ?e = temporary_limit s"
      by (rule expire_core)+
    then show "?P 0 [] ?b"
      using retire_temporaries_fewer [of ?e "pass_now io"] assms(2)
      by (auto simp: few_temporaries_def before_assigning_def)
  next
    fix m ls t i m' ls' t'
    assume t: "?P i ls t" "i < length (jobs ?b)" "schedule_job (pass_created io) (pass_now io) (m, ls, t) i = (m', ls', t')"
    then show "?P (Suc i) ls' t'" using schedule_job_few [OF t(3,1)] assms(3) len by simp
  qed
  then show ?thesis using assms(1) False by (simp add: pass_assigns few_temporaries_def)
qed (use assms in \<open>auto simp: pass_assigns\<close>)


section \<open>Publications\<close>

lemma find_appended: "find p (xs @ ys) = (case find p xs of None \<Rightarrow> find p ys | Some x \<Rightarrow> Some x)"
  by (induction xs) auto

lemma published_known:
  assumes "publish_contribution io c now s = (Published m ids, t)"
  shows "find (routed_as (route_message_id (pub_route c))) (sc_messages (run_events es t)) = Some m \<and>
    (\<exists>sel. normalize_effort (pub_effort c) = Inr sel \<and> same_contribution (c\<lparr>pub_effort := sel\<rparr>) m \<and>
       m = published_message (msg_id m) (c\<lparr>pub_effort := sel\<rparr>) now s)"
proof -
  let ?key = "route_message_id (pub_route c)"
  obtain sel where sel: "normalize_effort (pub_effort c) = Inr sel"
    and p: "publish_normalized io (c\<lparr>pub_effort := sel\<rparr>) now s = (Published m ids, t)"
    using assms by (auto simp: publish_contribution_def split: if_splits sum.splits)
  let ?c = "c\<lparr>pub_effort := sel\<rparr>"
  have f: "find (routed_as ?key) (sc_messages s) = None" and m: "\<exists>mid. m = published_message mid ?c now s"
    and t: "sc_messages t = sc_messages s @ [m]"
    using p by (auto simp: publish_normalized_def add_publication_def repeated_answer_def Let_def split: if_splits option.splits)
  have "same_effort sel sel" by (rule same_effort_refl [OF normalize_effort_distinct [OF sel]])
  then have r: "routed_as ?key m" "same_contribution ?c m" "m = published_message (msg_id m) ?c now s"
    using m by (auto simp: routed_as_def published_message_def same_contribution_def effective_class_def empty_message_def)
  obtain ms where "sc_messages (run_events es t) = sc_messages t @ ms" using run_extends by blast
  then show ?thesis using f r t sel by (auto simp: find_appended)
qed

text \<open>The content of two contributions differs: one of the things that the host compares does.\<close>

definition differs :: "contribution \<Rightarrow> contribution \<Rightarrow> bool" where
  "differs c d \<longleftrightarrow>
     pub_text d \<noteq> pub_text c \<or> pub_reply_to d \<noteq> pub_reply_to c \<or> pub_recipients d \<noteq> pub_recipients c \<or>
     pub_dispatch d \<noteq> pub_dispatch c \<or>
     effective_class (pub_class d) (pub_recipients d) \<noteq> effective_class (pub_class c) (pub_recipients c) \<or>
     (case (normalize_effort (pub_effort c), normalize_effort (pub_effort d)) of
        (Inr e, Inr f) \<Rightarrow> \<not> same_effort e f
      | _ \<Rightarrow> True)"

lemma differs_refused:
  assumes "normalize_effort (pub_effort c) = Inr e" "normalize_effort (pub_effort d) = Inr f"
    "m = published_message mid (c\<lparr>pub_effort := e\<rparr>) now s" "differs c d"
  shows "\<not> same_contribution (d\<lparr>pub_effort := f\<rparr>) m"
proof
  assume same: "same_contribution (d\<lparr>pub_effort := f\<rparr>) m"
  have "message_effort m = e" "msg_text m = pub_text c" "reply_to m = pub_reply_to c" "coordination m = pub_dispatch c"
    "requested_replies m = pub_recipients c" "reply_class m = effective_class (pub_class c) (pub_recipients c)"
    by (simp_all only: assms(3)) (simp_all add: published_message_def empty_message_def)
  note fields = this
  have idem: "effective_class (effective_class k ps) ps = effective_class k ps" for k ps by (simp add: effective_class_def)
  have "pub_text c = pub_text d" "pub_reply_to c = pub_reply_to d" "pub_recipients c = pub_recipients d"
    "pub_dispatch c = pub_dispatch d" "same_effort e f"
    "effective_class (pub_class c) (pub_recipients c) = effective_class (pub_class d) (pub_recipients d)"
    using same unfolding same_contribution_def fields idem by simp_all metis
  then show False using assms(4) unfolding differs_def assms(1,2) by simp
qed


lemma publish_repeated:
  assumes "publish_contribution io c now s = (Published m ids, t)" "route_message_id (pub_route d) = route_message_id (pub_route c)"
    "publish_contribution io' d now' (run_events es t) = (ans, u)"
  shows "u = run_events es t \<and> (\<forall>m' ids'. ans \<noteq> Published m' ids') \<and>
         (d = c \<and> may_publish now' (pub_parent d) (run_events es t) \<longrightarrow> ans = AlreadyPublished m \<or> ans = AlreadyUnsaved m) \<and>
         (differs c d \<longrightarrow> (\<exists>e. ans = NotPublished e))"
proof -
  let ?s = "run_events es t"
  obtain sel where k: "find (routed_as (route_message_id (pub_route d))) (sc_messages ?s) = Some m"
    and sel: "normalize_effort (pub_effort c) = Inr sel" "same_contribution (c\<lparr>pub_effort := sel\<rparr>) m"
      "m = published_message (msg_id m) (c\<lparr>pub_effort := sel\<rparr>) now s"
    using published_known [OF assms(1), of es] assms(2) by auto
  have valid: "reply_class_valid (pub_class c) (pub_recipients c)"
    using assms(1) by (auto simp: publish_contribution_def split: if_splits)
  have "u = ?s \<and> ((\<exists>e. ans = NotPublished e \<and> \<not> (d = c \<and> may_publish now' (pub_parent d) ?s)) \<or>
      (\<exists>f. normalize_effort (pub_effort d) = Inr f \<and> ans = repeated_answer (d\<lparr>pub_effort := f\<rparr>) m ?s))"
    using assms(3) k valid sel(1)
    by (auto simp: publish_contribution_def publish_normalized_def split: if_splits sum.splits)
  moreover have "\<not> same_contribution (d\<lparr>pub_effort := f\<rparr>) m" if "normalize_effort (pub_effort d) = Inr f" "differs c d" for f
    using differs_refused [OF sel(1) that(1) sel(3) that(2)] .
  ultimately show ?thesis using sel(1,2) by (auto simp: repeated_answer_def split: if_splits)
qed

lemma advance_posts:
  assumes "advance_continuation now parent s = (Some p, u)"
  shows "find (routed_as (route_message_id (pub_route p))) (sc_messages s) = None"
proof -
  obtain run c where c: "advance_review now c run s = ReviewPosts p"
    using assms by (auto simp: advance_continuation_def split: option.splits if_splits review_step.splits)
  then have "find (routed_as (cont_id c)) (sc_messages s) = None"
    by (auto simp: advance_review_def reconcile_dispatch_def coord_of_def split: option.splits prod.splits bool.splits)
  moreover have "route_message_id (pub_route p) = cont_id c"
    using c by (auto simp: advance_review_def advance_queued_def post_review_def review_post_def
        split: prod.splits bool.splits if_splits option.splits)
  ultimately show ?thesis by simp
qed

section \<open>Claims\<close>

text \<open>The room of the examples, and a run in which one answer is offered twice.\<close>

definition sample_rooms :: scheduler where
  "sample_rooms =
     \<lparr>core_state = sample_host, sc_messages = [], sc_next = 1, sc_routes = [], sc_resolutions = Map.empty,
      sc_chatgpt = None, sc_follow_ups = None, sc_run = None, sc_workflows = [], sc_activities = [], sc_posting = [],
      sc_turns = [], temporary_limit = 2, temporary_factory = Some [Codex, Claude], sc_closed = False, sc_routing = True\<rparr>"

definition sample_pass :: pass_io where
  "sample_pass = \<lparr>pass_now = 2, pass_append = (\<lambda>_. Inr ''n''), pass_created = (\<lambda>_. True)\<rparr>"

definition sample_result :: turn_result where
  "sample_result = \<lparr>run_error = None, context_error = None, result_text = ''a'', requires_work = False,
     access_mode = None, result_events = [], host_scope = False, has_drafts = False\<rparr>"

definition sample_launch :: launch where
  "sample_launch = \<lparr>launch_id = ''c'', launch_participant = Agy, launch_attempt = 0, launch_temporary = False\<rparr>"

definition sample_opening :: event where
  "sample_opening = Human (Start ''q'' False None [] ConversationQuick ''plan'' (Inr ''c'') (Inr ''m'') 1)"

definition sample_answer_events :: "event list" where
  "sample_answer_events =
     [sample_opening, Scheduling (Pass sample_pass), Scheduling (Begin (Some ''t'') 3 sample_launch),
      Scheduling (Finish (Inr ''a'') (Inr ''f'') 4 sample_launch ''t'' sample_result),
      Scheduling (Finish (Inr ''b'') (Inr ''f'') 5 sample_launch ''t'' sample_result)]"

text \<open>
  C2. One answer per opening: whatever the scheduler, the attempts, the human and the website do in
  whatever order, the responders' answers in a conversation are never more than the times it was
  opened (started, retried, extended, followed up, routed or asked for by the website), however many
  attempts ran, ended late or ended twice.
\<close>

theorem answered_once:
  "c \<noteq> '''' \<Longrightarrow> answers c (run_events es s) \<le> answers c s + of_bool (open_job c s) + openings c es s"
  using run_answers [of c es s] by linarith

lemma answered_once_witness:
  "answers ''c'' (run_events sample_answer_events sample_rooms) = 1 \<and>
   answers ''c'' sample_rooms + of_bool (open_job ''c'' sample_rooms) + openings ''c'' sample_answer_events sample_rooms = 1"
proof -
  have "answers ''c'' (run_events sample_answer_events sample_rooms)
     \<le> answers ''c'' sample_rooms + of_bool (open_job ''c'' sample_rooms) + openings ''c'' sample_answer_events sample_rooms"
    by (rule answered_once) simp
  moreover have "answers ''c'' (run_events sample_answer_events sample_rooms) = 1" by code_simp
  moreover have "answers ''c'' sample_rooms = 0" "\<not> open_job ''c'' sample_rooms" by code_simp+
  moreover have "openings ''c'' sample_answer_events sample_rooms = 1"
    by (simp add: sample_answer_events_def sample_opening_def)
  ultimately show ?thesis by simp
qed


lemma sample_rooms_formed: "formed sample_rooms"
  by (simp add: formed_def transcript_ok_def sample_rooms_def sample_host_def)


text \<open>
  C8. Deadlines are enforced: after a pass of the scheduler every conversation that is still open is
  before its hard deadline, and no attempt of its current window was given more time than that.
\<close>

theorem deadline_enforced:
  assumes "schedule_conversations io s = (ls, t)" "\<not> sc_closed s" "sc_routing s" "formed s"
    and "j \<in> set (jobs t)" "\<not> terminal j"
  shows "(\<forall>d. job_deadline j = Some d \<longrightarrow> pass_now io < d) \<and>
         (\<forall>a\<in>set (window_attempts j). \<exists>d. job_deadline j = Some d \<and> att_deadline a \<le> d)"
proof -
  have "punctual (pass_now io) t" using pass_calm(2) [OF assms(2,3), of io] assms(1) by simp
  moreover have "formed t" using event_formed [OF assms(4), of "Scheduling (Pass io)"] assms(1) by simp
  then have "job_ok j" using assms(5) by (simp add: formed_def list_all_iff)
  ultimately show ?thesis
    using assms(5,6) by (auto simp: punctual_def overdue_def job_ok_def in_time_def split: option.splits)
qed

text \<open>Two conversations: one that is assigned, and one whose deadline has passed.\<close>

definition sample_waiting :: scheduler where
  "sample_waiting =
     add_job (started_job ''c'' 0 ConversationQuick ''plan'' [] '''' 1)
       (add_job (started_job ''old'' 0 ConversationQuick ''plan'' [] '''' (- 11 * minute)) sample_rooms)"

lemma add_job_formed:
  assumes "formed s" shows "formed (add_job (started_job c n cl mode who remote now) s)"
  using assms by (simp add: formed_def transcript_ok_def add_job_def started_job_def empty_job_def job_ok_fresh)

lemma sample_waiting_formed: "formed sample_waiting"
  unfolding sample_waiting_def by (intro add_job_formed sample_rooms_formed)

lemma sample_pass_result:
  "map (\<lambda>l. (launch_id l, launch_participant l)) (fst (schedule_conversations sample_pass sample_waiting)) = [(''c'', Agy)]"
  "map job_state (jobs (snd (schedule_conversations sample_pass sample_waiting))) = [ConversationFailed, ConversationAnswering]"
  by code_simp+

lemma deadline_enforced_witness:
  "\<exists>j\<in>set (jobs (snd (schedule_conversations sample_pass sample_waiting))).
     \<not> terminal j \<and> (\<forall>d. job_deadline j = Some d \<longrightarrow> 2 < d)"
proof -
  let ?r = "schedule_conversations sample_pass sample_waiting"
  obtain j where j: "j \<in> set (jobs (snd ?r))" "job_state j = ConversationAnswering"
    using sample_pass_result(2) by (metis (no_types, lifting) image_iff list.set_intros(1,2) set_map)
  then have "\<not> terminal j" by (simp add: terminal_def conversation_terminal_def)
  moreover have "\<not> sc_closed sample_waiting" "sc_routing sample_waiting"
    by (simp_all add: sample_waiting_def add_job_def set_jobs_def sample_rooms_def)
  ultimately have "\<forall>d. job_deadline j = Some d \<longrightarrow> pass_now sample_pass < d"
    using deadline_enforced [of sample_pass sample_waiting "fst ?r" "snd ?r" j] sample_waiting_formed j(1) by simp
  then show ?thesis using j \<open>\<not> terminal j\<close> by (auto simp: sample_pass_def)
qed

text \<open>
  C15. A pass never takes a provider beyond its capacity: after it, the running calls and the assigned
  conversations of every provider to which it assigned one are within the provider's capacity.
\<close>

theorem pass_within_capacity:
  assumes "schedule_conversations io s = (ls, t)" "distinct (map job_id (jobs s))" "l \<in> set ls"
  shows "int (provider_load (provider (launch_participant l)) (core_state t))
         \<le> provider_capacity (core_state t) (provider (launch_participant l))"
  using pass_fits [OF assms(1,2)] assms(3) by (simp add: launches_fit_def within_capacity_def)

lemma pass_within_capacity_witness:
  "\<exists>l\<in>set (fst (schedule_conversations sample_pass sample_waiting)).
     int (provider_load (provider (launch_participant l)) (core_state (snd (schedule_conversations sample_pass sample_waiting))))
     \<le> provider_capacity (core_state (snd (schedule_conversations sample_pass sample_waiting))) (provider (launch_participant l))"
proof -
  let ?r = "schedule_conversations sample_pass sample_waiting"
  have "fst ?r \<noteq> []" using sample_pass_result(1) by auto
  then have "hd (fst ?r) \<in> set (fst ?r)" by simp
  moreover have "distinct (map job_id (jobs sample_waiting))"
    by (simp add: sample_waiting_def add_job_def sample_rooms_def sample_host_def started_job_def)
  ultimately show ?thesis using pass_within_capacity [of sample_pass sample_waiting "fst ?r" "snd ?r"] by auto
qed

text \<open>
  C27. Temporary responders are bounded: a pass keeps at most one per provider, and leaves no more of
  them than the limit, unless there were more before (the limit may have been lowered).
\<close>

theorem temporaries_bounded:
  assumes "schedule_conversations io s = (ls, t)" "one_per_provider (temporaries s)"
    "int (length (agents (core_state s)) + length (jobs s)) < max_int64"
  shows "one_per_provider (temporaries t) \<and>
         int (length (temporaries t)) \<le> max (int (length (temporaries s))) (temporary_limit s)"
  using pass_few [OF assms] .

text \<open>Everybody is busy, so the waiting conversation gets a temporary responder.\<close>

definition sample_busy :: scheduler where
  "sample_busy =
     with_core (\<lambda>h. h\<lparr>active_calls := [Agy, Copilot], active_work := 1\<rparr>)
       sample_waiting"

lemma sample_busy_result:
  "temporaries (snd (schedule_conversations sample_pass sample_busy)) = [(''codex-1'', ''c'')]"
  by code_simp

lemma temporaries_bounded_witness:
  "length (temporaries (snd (schedule_conversations sample_pass sample_busy))) = 1 \<and>
   one_per_provider (temporaries (snd (schedule_conversations sample_pass sample_busy)))"
proof -
  let ?r = "schedule_conversations sample_pass sample_busy"
  have "one_per_provider (temporaries (snd ?r)) \<and>
      int (length (temporaries (snd ?r))) \<le> max (int (length (temporaries sample_busy))) (temporary_limit sample_busy)"
    by (rule temporaries_bounded [of sample_pass sample_busy "fst ?r"])
      (simp_all add: sample_busy_def sample_waiting_def add_job_def set_jobs_def sample_rooms_def sample_host_def
        temporaries_def one_per_provider_def max_int64_def)
  then show ?thesis using sample_busy_result by simp
qed

text \<open>
  C28. \<open>nextTemporaryParticipantLocked\<close> terminates: its loop over 1, 2, \<open>\<dots>\<close> stops after at most one
  more step than there are agents, with the least index whose name is free.
\<close>

theorem temporary_name_found:
  assumes "is_primary_agent pr"
  shows "\<exists>i. 1 \<le> i \<and> i \<le> length (agents h) + 1 \<and> next_temporary pr h = Some (pr @ ''-'' @ itoa (int i)) \<and>
    pr @ ''-'' @ itoa (int i) \<notin> set (agents h) \<and>
    (\<forall>k. 1 \<le> k \<and> k < i \<longrightarrow> pr @ ''-'' @ itoa (int k) \<in> set (agents h))"
proof -
  have "next_temporary pr h \<noteq> None"
    using some_name_free [OF assms, of h] by (auto simp: next_temporary_def find_None_iff simp del: upt_Suc)
  then obtain p where p: "next_temporary pr h = Some p" by blast
  then show ?thesis using next_temporary_index [OF assms p] by auto
qed

definition sample_named :: core_host where
  "sample_named = sample_host\<lparr>agents := [''codex-1'', ''codex-3'', Codex]\<rparr>"

lemma temporary_name_found_witness:
  "next_temporary Codex sample_named = Some ''codex-2'' \<and>
   (\<exists>i. i \<le> 4 \<and> next_temporary Codex sample_named = Some (Codex @ ''-'' @ itoa (int i)))"
proof -
  have "is_primary_agent Codex" by code_simp
  then obtain i where i: "i \<le> length (agents sample_named) + 1"
    "next_temporary Codex sample_named = Some (Codex @ ''-'' @ itoa (int i))"
    using temporary_name_found [of Codex sample_named] by blast
  have "length (agents sample_named) = 3" by (simp add: sample_named_def)
  then have "i \<le> 4" using i(1) by simp
  moreover have "next_temporary Codex sample_named = Some ''codex-2''" by code_simp
  ultimately show ?thesis using i(2) by blast
qed


text \<open>
  C14. An operation id of the website is published once: after a contribution was published, whatever
  happens next, publishing under the same operation id stores no message and schedules no reply; the
  same contribution, while participation is connected and not paused (\<open>may_publish\<close>), is answered with the
  stored message, and one with another text, reply target, recipients, class, dispatch or effort is refused.
\<close>

theorem publication_not_repeated:
  assumes "publish_contribution io c now s = (Published m ids, t)" "route_message_id (pub_route d) = route_message_id (pub_route c)"
    "publish_contribution io' d now' (run_events es t) = (ans, u)"
  shows "u = run_events es t \<and> (\<forall>m' ids'. ans \<noteq> Published m' ids') \<and>
         (d = c \<and> may_publish now' (pub_parent d) (run_events es t) \<longrightarrow> ans = AlreadyPublished m \<or> ans = AlreadyUnsaved m) \<and>
         (differs c d \<longrightarrow> (\<exists>e. ans = NotPublished e))"
  using publish_repeated [OF assms] .

definition sample_website :: scheduler where
  "sample_website =
     sample_rooms\<lparr>sc_chatgpt := Some \<lparr>chatgpt_enabled = True, chatgpt_connected = True, chatgpt_paused = False,
       expires_at = 1000 * minute, lease_until = 1000 * minute, exchanges_remaining = 32,
       chatgpt_limits = default_limits, pause_reason = ''''\<rparr>\<rparr>"

definition sample_contribution :: contribution where
  "sample_contribution =
     \<lparr>pub_text = ''q'', pub_reply_to = 0, pub_recipients = [Codex, Claude],
      pub_route = \<lparr>route_message_id = ''op'', route_origin_instance = '''', route_origin_client = '''', route_hops = []\<rparr>,
      pub_class = '''', pub_dispatch = None, pub_parent = '''',
      pub_effort = \<lparr>effort_levels = [(''@Codex'', ''High'')], effort_reason = ''hard''\<rparr>\<rparr>"

text \<open>The same contribution with another effort.\<close>

definition sample_other_effort :: contribution where
  "sample_other_effort = sample_contribution\<lparr>pub_effort := \<lparr>effort_levels = [(Codex, ''low'')], effort_reason = ''hard''\<rparr>\<rparr>"

definition sample_publish_io :: publish_io where
  "sample_publish_io = \<lparr>io_effort = None, io_message_id = Some ''m1'', io_job_ids = Some [''r1'', ''r2''], io_stored = True\<rparr>"

definition sample_published :: "publish_answer \<times> scheduler" where
  "sample_published = publish_contribution sample_publish_io sample_contribution 5 sample_website"

definition published :: "publish_answer \<Rightarrow> bool" where
  "published a = (case a of Published m ids \<Rightarrow> True | _ \<Rightarrow> False)"

lemma publishedE: "published a \<Longrightarrow> \<exists>m ids. a = Published m ids"
  by (cases a) (simp_all add: published_def)

lemma sample_publication: "published (fst sample_published)" "map job_id (jobs (snd sample_published)) = [''r1'', ''r2'']"
  by code_simp+

lemma publication_not_repeated_witness:
  "published (fst sample_published) \<and>
   snd (publish_contribution sample_publish_io sample_contribution 9 (run_events [Website Resume_Website] (snd sample_published)))
     = run_events [Website Resume_Website] (snd sample_published) \<and>
   \<not> published (fst (publish_contribution sample_publish_io sample_contribution 9 (run_events [Website Resume_Website] (snd sample_published))))"
proof -
  obtain m ids where "fst sample_published = Published m ids" using sample_publication(1) publishedE by blast
  then have p: "publish_contribution sample_publish_io sample_contribution 5 sample_website = (Published m ids, snd sample_published)"
    unfolding sample_published_def by (metis prod.collapse)
  let ?r = "publish_contribution sample_publish_io sample_contribution 9 (run_events [Website Resume_Website] (snd sample_published))"
  have "snd ?r = run_events [Website Resume_Website] (snd sample_published) \<and> (\<forall>m' ids'. fst ?r \<noteq> Published m' ids')"
    using publication_not_repeated [OF p, of sample_contribution sample_publish_io 9 "[Website Resume_Website]" "fst ?r" "snd ?r"]
    by simp
  then show ?thesis using sample_publication(1) by (auto simp: published_def split: publish_answer.splits)
qed

lemma other_effort_refused:
  "fst (publish_contribution sample_publish_io sample_other_effort 9 (run_events [Website Resume_Website] (snd sample_published))) =
     NotPublished ''operation id was already used with different content''"
  by code_simp

text \<open>
  C5. A registered review is dispatched once: after its assignment was published, no later state of
  any run, whatever its continuation record says by then, makes the room assign it again.
\<close>

theorem review_dispatched_once:
  assumes "publish_contribution io c now s = (Published m ids, t)"
    "advance_continuation now' parent (run_events es t) = (Some p, u)"
  shows "route_message_id (pub_route p) \<noteq> route_message_id (pub_route c)"
  using published_known [OF assms(1)] advance_posts [OF assms(2)] by (metis option.distinct(1))


text \<open>A monitored run with two completed pieces of work, each with a registered review.\<close>

definition sample_review :: "string \<Rightarrow> nat \<Rightarrow> continuation" where
  "sample_review w n =
     \<lparr>cont_id = ''continuation_'' @ w, parent_workflow = w, cont_source_sequence = n,
      cont_spec = \<lparr>spec_target = Codex, spec_text = ''check'', spec_effort = '''', spec_reply_class = ''''\<rparr>,
      cont_state = ''queued'', cont_reason = '''', cont_assignment_sequence = 0\<rparr>"

definition sample_done :: "string \<Rightarrow> nat \<Rightarrow> handoff" where
  "sample_done w n =
     \<lparr>actionable_since = 1, waiting_on = '''', needs_reconciliation = False, handoff_key = ''work:'' @ w,
      source_sequence = n, result_sequence = 1, handoff_participant = Claude, handoff_outcome = ''completed'',
      ready_at = 1, acknowledged_at = 0, resolved_at = 0, resolution = '''', assignment_sequence = 0, next_action = '''',
      handoff_owner = '''', waiting_for = '''', handoff_attempts = []\<rparr>"

definition sample_reviewing :: scheduler where
  "sample_reviewing =
     sample_website\<lparr>sc_run := Some (sample_run\<lparr>handoffs := [sample_done ''v'' 1, sample_done ''w'' 1],
         continuations := [sample_review ''v'' 1, sample_review ''w'' 1]\<rparr>),
       sc_workflows := map (\<lambda>w. (w, \<lparr>wf_id = w, wf_state = WorkflowCompleted, wf_sources = [1], wf_wait_reason = '''',
                                      wf_updated_at = 1, wf_completed_at = Some 1\<rparr>)) [''v'', ''w''],
       sc_messages := [empty_message\<lparr>sequence := 1, author := Claude, kind := MessageText, msg_text := ''r''\<rparr>], sc_next := 2\<rparr>"

definition sample_dispatched :: "publish_answer \<times> scheduler" where
  "sample_dispatched =
     (case advance_continuation 5 ''v'' sample_reviewing of
        (Some p, s) \<Rightarrow> publish_contribution (sample_publish_io\<lparr>io_job_ids := Some [''r1'']\<rparr>) p 5 s
      | (None, s) \<Rightarrow> (NotPublished '''', s))"


lemma sample_dispatch:
  "published (fst sample_dispatched)" "fst (advance_continuation 6 ''v'' (snd sample_dispatched)) = None"
  "map_option (\<lambda>p. route_message_id (pub_route p)) (fst (advance_continuation 6 ''w'' (snd sample_dispatched)))
     = Some ''continuation_w''"
  "map_option (\<lambda>p. route_message_id (pub_route p)) (fst (advance_continuation 5 ''v'' sample_reviewing))
     = Some ''continuation_v''"
  by code_simp+

lemma review_dispatched_once_witness:
  "\<exists>p. fst (advance_continuation 6 ''w'' (snd sample_dispatched)) = Some p \<and> route_message_id (pub_route p) \<noteq> ''continuation_v''"
proof -
  obtain c s where c: "advance_continuation 5 ''v'' sample_reviewing = (Some c, s)" "route_message_id (pub_route c) = ''continuation_v''"
    using sample_dispatch(4) by (cases "advance_continuation 5 ''v'' sample_reviewing") auto
  obtain m ids where "fst sample_dispatched = Published m ids" using sample_dispatch(1) publishedE by blast
  then have p: "publish_contribution (sample_publish_io\<lparr>io_job_ids := Some [''r1'']\<rparr>) c 5 s = (Published m ids, snd sample_dispatched)"
    using c by (cases "publish_contribution (sample_publish_io\<lparr>io_job_ids := Some [''r1'']\<rparr>) c 5 s") (simp add: sample_dispatched_def)
  obtain q u where q: "advance_continuation 6 ''w'' (run_events [] (snd sample_dispatched)) = (Some q, u)"
    using sample_dispatch(3) by (cases "advance_continuation 6 ''w'' (snd sample_dispatched)") auto
  show ?thesis using review_dispatched_once [OF p q] q c(2) by auto
qed


section \<open>Attempts of an earlier window\<close>

text \<open>
  What ends an attempt does not ask whether its conversation still waits for it.  A conversation
  that timed out and was retried fails again when the cancelled attempt returns; a follow-up posted
  while a reply runs is answered by that reply, which never saw it.
\<close>

definition sample_cancelled :: turn_result where
  "sample_cancelled = sample_result\<lparr>run_error := Some (Cancelled, ''context canceled''), context_error := Some Cancelled, result_text := ''''\<rparr>"

definition stale_retry_events :: "event list" where
  "stale_retry_events =
     [sample_opening, Scheduling (Pass sample_pass), Scheduling (Begin (Some ''t'') 3 sample_launch),
      Scheduling (Pass (sample_pass\<lparr>pass_now := 11 * minute\<rparr>)), Human (Retry (11 * minute) ''c'')]"

lemma stale_attempt_fails_retry:
  "map (\<lambda>j. (job_state j, attempt_window j)) (jobs (run_events stale_retry_events sample_rooms)) = [(ConversationFinding, 1)]"
  "map (\<lambda>j. (job_state j, attempt_window j)) (jobs (run_events
     (stale_retry_events @ [Scheduling (Finish (Inr ''a'') (Inr ''f'') (11 * minute) sample_launch ''t'' sample_cancelled)])
     sample_rooms)) = [(ConversationFailed, 1)]"
  by code_simp+

lemma stale_reply_answers_follow_up:
  "map (\<lambda>j. (job_state j, job_source_sequence j, map att_window (job_attempts j), attempt_window j)) (jobs (run_events
     [sample_opening, Scheduling (Pass sample_pass), Scheduling (Begin (Some ''t'') 3 sample_launch),
      Human (Follow_Up (Inr ''m2'') 4 ''c'' ''and this?''),
      Scheduling (Finish (Inr ''a'') (Inr ''f'') 5 sample_launch ''t'' sample_result)] sample_rooms))
   = [(ConversationAnswered, 2, [0], 1)]"
  by code_simp

end
