(* ===== verification/Spec2Isabelle.thy ===== *)
theory Spec2Isabelle
  imports Mo_Prelude Rate_Limit Participants Messages Corrections Event_Hub Encodings Device_Store
    Coordination_Data Conversations Recovery Event_Queue Tool_Loop Core_Peers Floor_Order Roster_Actions
    Provider_Lanes Workspace_Writers Router Follow_Ups Coordination_Ledger Coordination_Reports Coordination_View
    Conversation_Scheduler Conversation_Attempts Conversation_Actions Website_Posts Conversation_Runs Conversation_Safety
begin

text \<open>
  MoHuddle is a room in which a human and several provider agents (codex, claude, agy, copilot and
  their auxiliaries) talk and work.  One process keeps a \<^emph>\<open>room\<close> (\<^verbatim>\<open>internal/chat\<close>: the records that
  are stored) under an \<^emph>\<open>orchestrator\<close> (\<^verbatim>\<open>internal/room\<close>: who may answer, who leads, what is
  scheduled, what is owed after a restart); \<^emph>\<open>agents\<close> (\<^verbatim>\<open>internal/agent\<close>) drive the providers and
  send events; a \<^emph>\<open>remote\<close> part (\<^verbatim>\<open>internal/remote\<close>) lets paired devices follow the room; research
  requests pass a per-host rate limit (\<^verbatim>\<open>internal/research\<close>).  Every operation of the code that
  changes state is a function of the whole state here; mutexes make each of them atomic, so an
  execution is a sequence of operations, and what the code reads from outside (the clock, random
  identifiers, the outcome of writing a file, cryptography, JSON) is an argument of the operation.

  \<^bold>\<open>Theories and code.\<close>

  \<^item> \<^verbatim>\<open>Mo_Prelude\<close>: Go strings, times (\<open>int\<close> nanoseconds, \<open>Sub\<close> saturating), wrapping \<open>int64\<close>,
    decimal printing and parsing, association lists for Go maps, runs of operations (\<open>run_all\<close>) and
    the interfaces: \<open>bounded_history\<close> (a capped list keeps the newest entries), \<open>atomic_store\<close> (a
    failed operation keeps the durable state) and \<open>implementation\<close> (a forward simulation).
  \<^item> \<^verbatim>\<open>Rate_Limit\<close>: \<^verbatim>\<open>internal/research/ratelimit.go\<close>; the concurrent round trips are a step relation.
  \<^item> \<^verbatim>\<open>Participants\<close>, \<^verbatim>\<open>Messages\<close>, \<^verbatim>\<open>Corrections\<close>: \<^verbatim>\<open>internal/chat/types.go\<close>, \<^verbatim>\<open>corrections.go\<close>: names and
    their canonical order, core policies, the correction ledger replayed from the transcript.
  \<^item> \<^verbatim>\<open>Event_Hub\<close>: \<^verbatim>\<open>internal/remote/events/hub.go\<close>: publication, replay, gaps, subscribers and their
    delivery goroutines as a step relation.
  \<^item> \<^verbatim>\<open>Encodings\<close>, \<^verbatim>\<open>Device_Store\<close>: \<^verbatim>\<open>internal/remote/identity/store.go\<close>: pairing codes, grants,
    challenges, sessions, revocation, persistence.
  \<^item> \<^verbatim>\<open>Conversations\<close>, \<^verbatim>\<open>Coordination_Data\<close>: \<^verbatim>\<open>internal/chat/conversation.go\<close>, \<^verbatim>\<open>conversation_reason.go\<close>,
    \<^verbatim>\<open>handoff.go\<close>, \<^verbatim>\<open>coordination.go\<close>, \<^verbatim>\<open>internal/room/handoff_migration.go\<close>: the stored records and
    what can be said of one without a room.
  \<^item> \<^verbatim>\<open>Recovery\<close>: \<open>normalizeConversationInbox\<close>, \<open>appendConversationFailureNotices\<close> and their use by
    \<open>New\<close> (\<^verbatim>\<open>internal/room/orchestrator.go\<close>): what a restart makes of the conversations.
  \<^item> \<^verbatim>\<open>Event_Queue\<close>: \<^verbatim>\<open>internal/agent/codex/event_queue.go\<close> with the reader and the consumer of
    \<^verbatim>\<open>client.go\<close>.
  \<^item> \<^verbatim>\<open>Tool_Loop\<close>: \<^verbatim>\<open>internal/room/tool_loop.go\<close>.
  \<^item> \<^verbatim>\<open>Core_Peers\<close>: eligibility, active core, \<open>reconcileCoreStateLocked\<close> and the operations on the core
    (\<^verbatim>\<open>internal/room/orchestrator.go\<close>); \<^verbatim>\<open>Floor_Order\<close>: lead and order of turns; \<^verbatim>\<open>Roster_Actions\<close>:
    scheduled joins and leaves, which reconcile the core of \<^verbatim>\<open>Core_Peers\<close> before and after.
  \<^item> \<^verbatim>\<open>Provider_Lanes\<close>, \<^verbatim>\<open>Workspace_Writers\<close>: \<^verbatim>\<open>internal/room/shared.go\<close>, \<^verbatim>\<open>workspace.go\<close>,
    \<^verbatim>\<open>workspace_journal.go\<close>: the capacity of a provider and the ownership of a checkout that all rooms
    of one manager share, as step relations over their critical sections.
  \<^item> \<^verbatim>\<open>Router\<close>: \<^verbatim>\<open>internal/roommanager/router.go\<close>: which room a ChatGPT conversation is attached to.
  \<^item> \<^verbatim>\<open>Follow_Ups\<close>: \<^verbatim>\<open>internal/chat/followups.go\<close>, \<^verbatim>\<open>chatgpt.go\<close>, \<^verbatim>\<open>internal/room/followups.go\<close>: who may notify
    the website, and how often; \<^verbatim>\<open>Coordination_Ledger\<close>, \<^verbatim>\<open>Coordination_Reports\<close>, \<^verbatim>\<open>Coordination_View\<close>:
    \<^verbatim>\<open>internal/room/coordination.go\<close>, \<^verbatim>\<open>continuation.go\<close>, \<^verbatim>\<open>internal/chat/coordination.go\<close>: reconciling a
    monitored run with the room, the operations on it, and what clients see of it.
  \<^item> \<^verbatim>\<open>Conversation_Scheduler\<close>, \<^verbatim>\<open>Conversation_Attempts\<close>, \<^verbatim>\<open>Conversation_Actions\<close>:
    \<^verbatim>\<open>internal/room/conversations.go\<close> and the participation of \<^verbatim>\<open>chatgpt.go\<close>: one pass of
    \<open>scheduleConversations\<close> (eligibility and the core of \<^verbatim>\<open>Core_Peers\<close>, temporary responders), the life
    of an attempt, what the human does to conversations; \<^verbatim>\<open>Website_Posts\<close>: \<open>publishChatGPTCoordinated\<close>
    and the dispatch of registered reviews (\<^verbatim>\<open>continuation.go\<close>), on the runs of \<^verbatim>\<open>Coordination_Ledger\<close>;
    \<^verbatim>\<open>Conversation_Runs\<close>: all their critical sections as events in any order, each a step of the
    relation \<open>calm\<close> or an answer; \<^verbatim>\<open>Conversation_Safety\<close>: the properties over these runs.

  \<^bold>\<open>What the lemmas show.\<close>  Each theory proves an invariant that every operation keeps, then the
  properties, numbered C1, C2, \<open>\<dots>\<close> in the order of their importance.  Rate limits: no request is sent
  before a host's cooldown ends.  Corrections: entries are sound, decided ones final, the statistics
  exact.  Event hub: a replay or a stream is complete or announces a gap, and buffers are bounded.
  Device store: sessions are authorized, revocation is final, challenges and codes are used once,
  failures change nothing.  Recovery: one pass settles the inbox and each interrupted reply is told
  exactly once over any sequence of failed and successful starts.  Event queue: a refinement of a
  plain list, nothing lost, no wake-up lost.  Tool loop: what a recovery rests on.  Core: the result
  of a reconciliation is sound and a fixed point, and every operation keeps the core well formed.
  Roster actions: an audit trail that only grows, and a scheduler that never spins.  Lanes: capacity
  is counted exactly and granted fairly.  Writers: one workflow writes to a checkout, also across a
  crash of the manager.  Router: conversations reach only their room, and one creation makes one
  room.  Follow-ups: claims are spaced, bounded and unique, and silent after a stop.  Monitored runs:
  no result is missed, the ledger only grows, completion means that nothing is outstanding.
  Conversations: one answer per opening, deadlines, capacity and the limit of temporary responders
  respected, the name of a temporary responder always found, operation ids and registered reviews
  carried out once; two lemmas show what an attempt of an earlier window does to a retried or
  followed-up conversation.

  \<^bold>\<open>Bounds.\<close>  No definition takes fuel: the recursions are structural or over a list, but for
  \<open>dispatch\<close> of the lanes, which ends because each grant shortens its queue.  Sizes
  (32 roster actions, 4096 queued events, 256 tool executions, record and byte limits of the hub) are
  the constants of the code.  The unbounded search for the name of a temporary responder is one over
  one more index than there are agents, which is proved to be enough.  Where the code relies on a library the hypothesis is named: \<open>codec_ok\<close>
  of the event hub and of the queue say that decoding inverts encoding.

  \<^bold>\<open>Not modelled.\<close>  The running of provider turns and waves, workflows and the queue of work, effort
  selections, the displayed activities, the approval and sandbox flows, the HTTP services, the
  classification of a text by regular expressions (its class is an argument), the terminal interface, the provider clients beyond
  the event queue, speech, tunnels, settings and release tools: they are input and output around the
  state modelled here, or parts left for later.  Texts for the transcript are left out of the
  operations that post them, except the failure lines that \<^verbatim>\<open>Recovery\<close> is about.
\<close>

end
